(* ===== verification/Prelude.thy ===== *)
theory Prelude
  imports Complex_Main "HOL-Library.Sublist"
begin

text \<open>
  Shared vocabulary of the development: unsigned 64-bit arithmetic (idx_t), byte buffers and
  memcpy, and the generic lemmas the component theories share.
\<close>

named_theorems u64_simps \<open>unsigned 64-bit arithmetic away from the wrap-around\<close>
named_theorems buf_simps \<open>slices and overwrites of byte buffers\<close>

section \<open>Unsigned 64-bit arithmetic\<close>

text \<open>idx_t is uint64_t. Values are natural numbers below w64; the operations wrap.\<close>

abbreviation w64 :: nat where "w64 \<equiv> 18446744073709551616"

definition add64 :: "nat \<Rightarrow> nat \<Rightarrow> nat" where
  "add64 a b = (a + b) mod w64"

definition sub64 :: "nat \<Rightarrow> nat \<Rightarrow> nat" where
  "sub64 a b = (a + (w64 - b)) mod w64"

definition mul64 :: "nat \<Rightarrow> nat \<Rightarrow> nat" where
  "mul64 a b = (a * b) mod w64"

lemma add64_exact [u64_simps]: "a + b < w64 \<Longrightarrow> add64 a b = a + b"
  by (simp add: add64_def)

lemma sub64_exact [u64_simps]: "b \<le> a \<Longrightarrow> a < w64 \<Longrightarrow> sub64 a b = a - b"
proof -
  assume "b \<le> a" and "a < w64"
  then have "a + (w64 - b) = (a - b) + w64" by simp
  then have "sub64 a b = ((a - b) + w64) mod w64" unfolding sub64_def by simp
  also have "\<dots> = (a - b) mod w64" by (rule mod_add_self2)
  also have "\<dots> = a - b" using \<open>a < w64\<close> by simp
  finally show ?thesis .
qed

lemma mul64_exact [u64_simps]: "a * b < w64 \<Longrightarrow> mul64 a b = a * b"
  by (simp add: mul64_def)

lemma sub64_underflow: "a < b \<Longrightarrow> b < w64 \<Longrightarrow> sub64 a b = w64 - (b - a)"
  by (simp add: sub64_def)

lemma add64_less [simp]: "add64 a b < w64"
  by (simp add: add64_def)

lemma sub64_less [simp]: "sub64 a b < w64"
  by (simp add: sub64_def)

lemma mul64_less [simp]: "mul64 a b < w64"
  by (simp add: mul64_def)

section \<open>Byte buffers\<close>

type_synonym bytes = "char list"

text \<open>The bytes [off, off + n) of a buffer, and memcpy of src to offset off of dst.\<close>

definition slice :: "'a list \<Rightarrow> nat \<Rightarrow> nat \<Rightarrow> 'a list" where
  "slice xs off n = take n (drop off xs)"

definition overwrite :: "'a list \<Rightarrow> nat \<Rightarrow> 'a list \<Rightarrow> 'a list" where
  "overwrite dst off src = take off dst @ src @ drop (off + length src) dst"

lemma length_slice [simp]: "length (slice xs off n) = min n (length xs - off)"
  by (simp add: slice_def min.commute)

lemma slice_full [buf_simps]: "slice xs 0 (length xs) = xs"
  by (simp add: slice_def)

lemma slice_0 [buf_simps]: "slice xs off 0 = []"
  by (simp add: slice_def)

lemma slice_append_slice [buf_simps]:
  "slice xs off m @ slice xs (off + m) n = slice xs off (m + n)"
  by (simp add: slice_def take_add add.commute drop_drop)

lemma slice_slice [buf_simps]:
  "k + m \<le> n \<Longrightarrow> slice (slice xs off n) k m = slice xs (off + k) m"
  by (simp add: slice_def drop_take drop_drop min_def add.commute)

lemma slice_append_left [buf_simps]: "off + n \<le> length xs \<Longrightarrow> slice (xs @ ys) off n = slice xs off n"
  by (simp add: slice_def)

lemma length_overwrite [simp]:
  "off + length src \<le> length dst \<Longrightarrow> length (overwrite dst off src) = length dst"
  by (simp add: overwrite_def)

lemma overwrite_nil [buf_simps]: "overwrite dst off [] = dst"
  by (simp add: overwrite_def)

lemma overwrite_all [buf_simps]: "length src = length dst \<Longrightarrow> overwrite dst 0 src = src"
  by (simp add: overwrite_def)

lemma take_overwrite_upto [buf_simps]:
  "off + length src \<le> length dst \<Longrightarrow>
   take (off + length src) (overwrite dst off src) = take off dst @ src"
  by (simp add: overwrite_def)

lemma overwrite_append_chunk:
  assumes "off + length a + length b \<le> length dst"
  shows "overwrite (overwrite dst off a) (off + length a) b = overwrite dst off (a @ b)"
proof -
  have "off \<le> length dst" using assms by simp
  then show ?thesis
    by (simp add: overwrite_def drop_drop add.commute add.left_commute)
qed

lemma slice_overwrite_same [buf_simps]:
  "off + length src \<le> length dst \<Longrightarrow> slice (overwrite dst off src) off (length src) = src"
  by (simp add: slice_def overwrite_def)

end
