(* ===== verification/CxxString.thy ===== *)
theory CxxString
  imports Prelude
begin

text \<open>
  The parts of std::string the code uses (find, find_first_of, rfind of a character, substr,
  to_string, stoull), as executable functions. A position that is npos is None.
\<close>

section \<open>Searching\<close>

fun find_at :: "string \<Rightarrow> string \<Rightarrow> nat option" where
  "find_at needle [] = (if needle = [] then Some 0 else None)"
| "find_at needle (c # cs) =
     (if prefix needle (c # cs) then Some 0 else map_option Suc (find_at needle cs))"

text \<open>std::string::find: the first occurrence at or after pos.\<close>

definition str_find :: "string \<Rightarrow> string \<Rightarrow> nat \<Rightarrow> nat option" where
  "str_find s needle pos =
     (if pos \<le> length s then map_option (\<lambda>i. pos + i) (find_at needle (drop pos s)) else None)"

text \<open>std::string::substr for a start position inside the string.\<close>

definition substr :: "string \<Rightarrow> nat \<Rightarrow> nat \<Rightarrow> string" where
  "substr s pos n = slice s pos n"

fun first_index :: "('a \<Rightarrow> bool) \<Rightarrow> 'a list \<Rightarrow> nat option" where
  "first_index p [] = None"
| "first_index p (x # xs) = (if p x then Some 0 else map_option Suc (first_index p xs))"

text \<open>std::string::find_first_of, and rfind of one character.\<close>

definition find_first_of :: "string \<Rightarrow> string \<Rightarrow> nat option" where
  "find_first_of s cs = first_index (\<lambda>c. c \<in> set cs) s"

fun last_index :: "('a \<Rightarrow> bool) \<Rightarrow> 'a list \<Rightarrow> nat option" where
  "last_index p [] = None"
| "last_index p (x # xs) =
     (case last_index p xs of Some i \<Rightarrow> Some (Suc i) | None \<Rightarrow> if p x then Some 0 else None)"

definition rfind_char :: "string \<Rightarrow> char \<Rightarrow> nat option" where
  "rfind_char s c = last_index (\<lambda>d. d = c) s"

lemma find_at_Some:
  "find_at needle s = Some i \<Longrightarrow>
   i + length needle \<le> length s \<and> slice s i (length needle) = needle"
proof (induction needle s arbitrary: i rule: find_at.induct)
  case (1 needle)
  then show ?case by (simp add: slice_def split: if_splits)
next
  case (2 needle c cs)
  show ?case
  proof (cases "prefix needle (c # cs)")
    case True
    then obtain zs where "c # cs = needle @ zs" by (rule prefixE)
    then have "length needle \<le> length (c # cs)" and "take (length needle) (c # cs) = needle"
      by (simp_all only: length_append append_eq_conv_conj) simp_all
    with True 2 show ?thesis by (simp add: slice_def)
  next
    case False
    with 2 obtain j where "find_at needle cs = Some j" and "i = Suc j" by auto
    with 2 False show ?thesis by (simp add: slice_def)
  qed
qed

text \<open>A needle whose first character does not occur before its first occurrence is found there.\<close>

lemma find_at_fresh:
  assumes "d \<notin> set pre"
  shows "find_at (d # ds) (pre @ (d # ds) @ post) = Some (length pre)"
  using assms by (induction pre) auto

lemma find_at_fresh_None: "d \<notin> set s \<Longrightarrow> find_at (d # ds) s = None"
  by (induction s) auto

lemma str_find_Some:
  assumes "str_find s needle pos = Some i"
  shows "pos \<le> i" and "i + length needle \<le> length s" and "slice s i (length needle) = needle"
proof -
  from assms obtain j where p: "pos \<le> length s" and j: "find_at needle (drop pos s) = Some j"
    and i: "i = pos + j"
    by (auto simp: str_find_def split: if_splits)
  from find_at_Some [OF j] have "j + length needle \<le> length s - pos"
    and "slice (drop pos s) j (length needle) = needle" by simp_all
  with p i show "pos \<le> i" and "i + length needle \<le> length s" and
    "slice s i (length needle) = needle"
    by (simp_all add: slice_def add.commute)
qed

lemma first_index_Some:
  "first_index p xs = Some i \<Longrightarrow> i < length xs \<and> p (xs ! i) \<and> (\<forall>j < i. \<not> p (xs ! j))"
proof (induction xs arbitrary: i)
  case Nil
  then show ?case by simp
next
  case (Cons x xs)
  show ?case
  proof (cases "p x")
    case True
    with Cons.prems show ?thesis by simp
  next
    case False
    with Cons.prems obtain k where "first_index p xs = Some k" and "i = Suc k" by auto
    with Cons.IH False show ?thesis by (auto simp: nth_Cons split: nat.splits)
  qed
qed

lemma first_index_None: "first_index p xs = None \<longleftrightarrow> (\<forall>x \<in> set xs. \<not> p x)"
  by (induction xs) auto

lemma first_index_append:
  "(\<forall>x \<in> set xs. \<not> p x) \<Longrightarrow> p y \<Longrightarrow> first_index p (xs @ y # ys) = Some (length xs)"
  by (induction xs) auto

lemma last_index_None: "last_index p xs = None \<longleftrightarrow> (\<forall>x \<in> set xs. \<not> p x)"
  by (induction xs) (auto split: option.splits)

lemma last_index_append:
  "(\<forall>x \<in> set ys. \<not> p x) \<Longrightarrow> p y \<Longrightarrow> last_index p (xs @ y # ys) = Some (length xs)"
  by (induction xs) (auto simp: last_index_None [THEN iffD2])

section \<open>Numbers\<close>

text \<open>std::to_string of an unsigned value.\<close>

fun to_string :: "nat \<Rightarrow> string" where
  "to_string n =
     (if n < 10 then [char_of (48 + n)] else to_string (n div 10) @ [char_of (48 + n mod 10)])"

declare to_string.simps [simp del]

definition is_digit :: "char \<Rightarrow> bool" where
  "is_digit c \<longleftrightarrow> 48 \<le> (of_char c :: nat) \<and> (of_char c :: nat) \<le> 57"

definition digit_val :: "char \<Rightarrow> nat" where
  "digit_val c = of_char c - 48"

text \<open>isspace in the C locale.\<close>

definition is_space :: "char \<Rightarrow> bool" where
  "is_space c \<longleftrightarrow> (of_char c :: nat) = 32 \<or> 9 \<le> (of_char c :: nat) \<and> (of_char c :: nat) \<le> 13"

definition digits_value :: "string \<Rightarrow> nat" where
  "digits_value ds = foldl (\<lambda>acc c. 10 * acc + digit_val c) 0 ds"

text \<open>
  std::stoull: skip white space, an optional sign, then the longest run of digits. None is the
  thrown std::invalid_argument (no digits) or std::out_of_range (not below 2^64). A minus sign
  negates modulo 2^64, as strtoull does.
\<close>

definition stoull :: "string \<Rightarrow> nat option" where
  "stoull s =
     (let t = dropWhile is_space s;
          neg = (t \<noteq> [] \<and> hd t = CHR ''-'');
          u = (if t \<noteq> [] \<and> (hd t = CHR ''-'' \<or> hd t = CHR ''+'') then tl t else t);
          ds = takeWhile is_digit u;
          v = digits_value ds
      in if ds = [] then None
         else if w64 \<le> v then None
         else Some (if neg then (w64 - v) mod w64 else v))"

lemma to_string_digits: "\<forall>c \<in> set (to_string n). is_digit c"
proof (induction n rule: to_string.induct)
  case (1 n)
  show ?case
  proof (cases "n < 10")
    case True
    then show ?thesis by (subst to_string.simps) (simp add: is_digit_def of_char_of)
  next
    case False
    have "n mod 10 < 10" by simp
    with 1 False show ?thesis by (subst to_string.simps) (auto simp: is_digit_def of_char_of)
  qed
qed

lemma to_string_nonempty [simp]: "to_string n \<noteq> []"
  by (subst to_string.simps) simp

lemma digits_value_to_string: "digits_value (to_string n) = n"
proof (induction n rule: to_string.induct)
  case (1 n)
  show ?case
  proof (cases "n < 10")
    case True
    then show ?thesis
      by (subst to_string.simps) (simp add: digits_value_def digit_val_def of_char_of)
  next
    case False
    then have "digits_value (to_string (n div 10)) = n div 10" using 1 by simp
    moreover have "n mod 10 < 10" by simp
    ultimately show ?thesis using False
      by (subst to_string.simps) (simp add: digits_value_def digit_val_def of_char_of)
  qed
qed

lemma digit_not_space: "is_digit c \<Longrightarrow> \<not> is_space c"
  by (auto simp: is_digit_def is_space_def)

lemma digit_not_sign: "is_digit c \<Longrightarrow> c \<noteq> CHR ''-'' \<and> c \<noteq> CHR ''+''"
  by (auto simp: is_digit_def)

text \<open>What to_string prints, stoull reads back, also with text after the digits.\<close>

lemma stoull_to_string_append:
  assumes "n < w64" and "rest = [] \<or> \<not> is_digit (hd rest)"
  shows "stoull (to_string n @ rest) = Some n"
proof -
  let ?t = "to_string n @ rest"
  obtain c cs where ts: "to_string n = c # cs" by (cases "to_string n") auto
  then have c: "is_digit c" using to_string_digits [of n] by simp
  have dw: "dropWhile is_space ?t = ?t" using ts digit_not_space [OF c] by simp
  have hd: "hd ?t = c" using ts by simp
  have "takeWhile is_digit rest = []" using assms(2) by (cases rest) auto
  then have tw: "takeWhile is_digit ?t = to_string n"
    using to_string_digits [of n] by (simp add: takeWhile_append2)
  show ?thesis using assms(1) digit_not_sign [OF c]
    by (simp add: stoull_def Let_def dw tw hd digits_value_to_string)
qed

lemma stoull_to_string: "n < w64 \<Longrightarrow> stoull (to_string n) = Some n"
  using stoull_to_string_append [of n "[]"] by simp

lemma stoull_bound: "stoull s = Some n \<Longrightarrow> n < w64"
  by (auto simp: stoull_def Let_def split: if_splits)

lemma to_string_inj: "to_string m = to_string n \<longleftrightarrow> m = n"
  using digits_value_to_string by metis

end
