(* ===== verification/External.thy ===== *)
theory External
  imports CxxString
begin

text \<open>
  Functions of DuckDB (a git submodule, not part of the repository) that the code calls. They
  are parameters: a record of functions that every model function using them takes as an
  argument, a predicate with the documented behaviour the proofs rely on, and one concrete
  record that satisfies it, used by the witnesses.
\<close>

section \<open>StringUtil, Glob and JoinPath\<close>

record string_util =
  su_lower :: "string \<Rightarrow> string"
  su_starts_with :: "string \<Rightarrow> string \<Rightarrow> bool"
  su_ends_with :: "string \<Rightarrow> string \<Rightarrow> bool"
  su_url_encode :: "string \<Rightarrow> bool \<Rightarrow> string"
  su_url_decode :: "string \<Rightarrow> bool \<Rightarrow> string"
  su_split :: "string \<Rightarrow> string \<Rightarrow> string list"
  su_trim :: "string \<Rightarrow> string"
  su_rtrim :: "string \<Rightarrow> string \<Rightarrow> string"
  su_replace :: "string \<Rightarrow> string \<Rightarrow> string \<Rightarrow> string"
  su_glob :: "string \<Rightarrow> string \<Rightarrow> bool"
  su_join_path :: "string \<Rightarrow> string \<Rightarrow> string"

text \<open>StartsWith and EndsWith test for a prefix and a suffix; Lower maps ASCII capitals.\<close>

definition lower_char :: "char \<Rightarrow> char" where
  "lower_char c =
     (let n = (of_char c :: nat) in if 65 \<le> n \<and> n \<le> 90 then char_of (n + 32) else c)"

definition starts_ends_ok :: "string_util \<Rightarrow> bool" where
  "starts_ends_ok su \<longleftrightarrow>
     (\<forall>s p. su_starts_with su s p = prefix p s) \<and> (\<forall>s p. su_ends_with su s p = suffix p s)"

definition lower_ok :: "string_util \<Rightarrow> bool" where
  "lower_ok su \<longleftrightarrow> (\<forall>s. su_lower su s = map lower_char s)"

lemma starts_with_ok: "starts_ends_ok su \<Longrightarrow> su_starts_with su s p = prefix p s"
  and ends_with_ok: "starts_ends_ok su \<Longrightarrow> su_ends_with su s p = suffix p s"
  and lower_ok_map: "lower_ok su \<Longrightarrow> su_lower su s = map lower_char s"
  by (simp_all add: starts_ends_ok_def lower_ok_def)

text \<open>A concrete instance for the witnesses.\<close>

fun split_on :: "char \<Rightarrow> string \<Rightarrow> string \<Rightarrow> string list" where
  "split_on d acc [] = [rev acc]"
| "split_on d acc (c # cs) =
     (if c = d then rev acc # split_on d [] cs else split_on d (c # acc) cs)"

definition trim_spaces :: "string \<Rightarrow> string" where
  "trim_spaces s = rev (dropWhile is_space (rev (dropWhile is_space s)))"

definition ref_su :: string_util where
  "ref_su = \<lparr>
     su_lower = map lower_char,
     su_starts_with = (\<lambda>s p. prefix p s),
     su_ends_with = (\<lambda>s p. suffix p s),
     su_url_encode = (\<lambda>s _. s),
     su_url_decode = (\<lambda>s _. s),
     su_split = (\<lambda>s d. split_on (hd d) [] s),
     su_trim = trim_spaces,
     su_rtrim = (\<lambda>s cs. rev (dropWhile (\<lambda>c. c \<in> set cs) (rev s))),
     su_replace = (\<lambda>s a b. s),
     su_glob = (\<lambda>s p. s = p \<or> p \<noteq> [] \<and> last p = CHR ''*'' \<and> prefix (butlast p) s),
     su_join_path = (\<lambda>a b. a @ ''/'' @ b) \<rparr>"

lemma ref_su_starts_ends_ok [simp]: "starts_ends_ok ref_su"
  by (simp add: starts_ends_ok_def ref_su_def)

lemma ref_su_lower_ok [simp]: "lower_ok ref_su"
  by (simp add: lower_ok_def ref_su_def)

end
