(* ===== verification/Http.thy ===== *)
theory Http
  imports External
begin

text \<open>
  HTTP responses, exceptions and requests as the file systems see them, and the runs of the
  response and content handlers that a client (libcurl or httplib, behind HTTPUtil::Request)
  makes while it performs a request.
\<close>

section \<open>Responses and exceptions\<close>

text \<open>
  HTTPResponse. hdrs is the lookup of its HTTPHeaders: HasHeader k holds iff hdrs r k is not
  None, and GetHeaderValue k is its value. HTTPStatusCode::INVALID is the code 0.
\<close>

record response =
  status :: nat
  resp_url :: string
  body :: string
  reason :: string
  request_error :: string
  success :: bool
  cancelled :: bool
  hdrs :: "string \<Rightarrow> string option"

abbreviation (input) INVALID :: nat where "INVALID \<equiv> 0"
abbreviation (input) OK_200 :: nat where "OK_200 \<equiv> 200"
abbreviation (input) Accepted_202 :: nat where "Accepted_202 \<equiv> 202"
abbreviation (input) NoContent_204 :: nat where "NoContent_204 \<equiv> 204"
abbreviation (input) PartialContent_206 :: nat where "PartialContent_206 \<equiv> 206"
abbreviation (input) MovedPermanently_301 :: nat where "MovedPermanently_301 \<equiv> 301"
abbreviation (input) BadRequest_400 :: nat where "BadRequest_400 \<equiv> 400"
abbreviation (input) Unauthorized_401 :: nat where "Unauthorized_401 \<equiv> 401"
abbreviation (input) Forbidden_403 :: nat where "Forbidden_403 \<equiv> 403"
abbreviation (input) NotFound_404 :: nat where "NotFound_404 \<equiv> 404"
abbreviation (input) PreconditionFailed_412 :: nat where "PreconditionFailed_412 \<equiv> 412"
abbreviation (input) RangeNotSatisfiable_416 :: nat where "RangeNotSatisfiable_416 \<equiv> 416"

definition has_header :: "response \<Rightarrow> string \<Rightarrow> bool" where
  "has_header r k \<longleftrightarrow> hdrs r k \<noteq> None"

definition header_value :: "response \<Rightarrow> string \<Rightarrow> string" where
  "header_value r k = (case hdrs r k of Some v \<Rightarrow> v | None \<Rightarrow> '''')"

definition has_request_error :: "response \<Rightarrow> bool" where
  "has_request_error r \<longleftrightarrow> request_error r \<noteq> ''''"

text \<open>
  The types of the exceptions the code throws, and two outcomes that are not exceptions: an access
  outside a buffer (undefined behaviour) and a loop that never ends.
\<close>

datatype exn_type = ExIO | ExHTTP | ExInternal | ExInvalidInput | ExNotImplemented | ExOther
  | Undefined | Diverges

text \<open>
  A thrown exception: its type, the leading words of its message, and the response an
  HTTPException was built from.
\<close>

datatype exn = Exn (ex_type: exn_type) (ex_msg: string) (ex_resp: "response option")

section \<open>Requests\<close>

text \<open>
  Header writes in program order: operator[] (assign) and Insert. What the HTTPHeaders
  container makes of them is left to DuckDB.
\<close>

datatype hdr_op = HSet string string | HInsert string string

type_synonym headers = "hdr_op list"

datatype rq_method = GET | HEAD | PUT | POST | DELETE

type_synonym client = nat

record http_request =
  rq_method :: rq_method
  rq_url :: string
  rq_headers :: headers
  rq_body :: bytes
  rq_content_type :: string
  rq_try :: bool
  rq_cancellation :: bool

text \<open>
  What HTTPUtil::Request does with a request: one or more attempts (it may retry), each a
  sequence of handler calls (the response head, then body data, again after a redirect) and
  an outcome, and the client left in the caller's slot.
\<close>

datatype event = RespHead response | Data bytes

datatype attempt = Attempt (at_events: "event list") (at_outcome: "exn + response option")

record transfer =
  attempts :: "attempt list"
  client_after :: "client option"

text \<open>
  The transport: from the number of requests sent before, the request and the caller's client.
\<close>

type_synonym transport = "nat \<Rightarrow> http_request \<Rightarrow> client option \<Rightarrow> transfer"

section \<open>Running the handlers\<close>

text \<open>A handler returns the exception it throws, if any, and the state it leaves.\<close>

type_synonym ('s, 'a) handler = "'a \<Rightarrow> 's \<Rightarrow> exn option \<times> 's"

fun run_events :: "('s, response) handler \<Rightarrow> ('s, bytes) handler \<Rightarrow> event list \<Rightarrow> 's \<Rightarrow>
    exn option \<times> 's" where
  "run_events rh ch [] s = (None, s)"
| "run_events rh ch (RespHead r # es) s =
     (case rh r s of (Some e, s') \<Rightarrow> (Some e, s') | (None, s') \<Rightarrow> run_events rh ch es s')"
| "run_events rh ch (Data d # es) s =
     (case ch d s of (Some e, s') \<Rightarrow> (Some e, s') | (None, s') \<Rightarrow> run_events rh ch es s')"

definition run_attempt :: "('s, response) handler \<Rightarrow> ('s, bytes) handler \<Rightarrow> attempt \<Rightarrow> 's \<Rightarrow>
    (exn + response option) \<times> 's" where
  "run_attempt rh ch a s =
     (case run_events rh ch (at_events a) s of
        (Some e, s') \<Rightarrow> (Inl e, s') | (None, s') \<Rightarrow> (at_outcome a, s'))"

fun run_attempts :: "('s, response) handler \<Rightarrow> ('s, bytes) handler \<Rightarrow> attempt list \<Rightarrow> 's \<Rightarrow>
    (exn + response option) \<times> 's" where
  "run_attempts rh ch [] s = (Inr None, s)"
| "run_attempts rh ch [a] s = run_attempt rh ch a s"
| "run_attempts rh ch (a # b # as) s = run_attempts rh ch (b # as) (snd (run_attempt rh ch a s))"

text \<open>
  A request flagged try_request reports an exception as a response that carries it
  (err_response, of DuckDB); any other request throws it.
\<close>

definition run_transfer :: "(exn \<Rightarrow> response) \<Rightarrow> bool \<Rightarrow> ('s, response) handler \<Rightarrow>
    ('s, bytes) handler \<Rightarrow> attempt list \<Rightarrow> 's \<Rightarrow> (exn + response option) \<times> 's" where
  "run_transfer err_response try rh ch as s =
     (case run_attempts rh ch as s of
        (Inl e, s') \<Rightarrow> (if try then Inr (Some (err_response e)) else Inl e, s')
      | (Inr r, s') \<Rightarrow> (Inr r, s'))"

text \<open>Handlers that keep a property of the state keep it over a whole transfer.\<close>

lemma run_events_inv:
  assumes "\<And>r s. I s \<Longrightarrow> I (snd (rh r s))" and "\<And>d s. I s \<Longrightarrow> I (snd (ch d s))"
  shows "I s \<Longrightarrow> I (snd (run_events rh ch es s))"
proof (induction es arbitrary: s)
  case Nil
  then show ?case by simp
next
  case (Cons e es)
  show ?case
  proof (cases e)
    case (RespHead r)
    have "I (snd (rh r s))" using assms(1) Cons.prems by blast
    with Cons.IH RespHead show ?thesis by (auto split: prod.splits option.splits)
  next
    case (Data d)
    have "I (snd (ch d s))" using assms(2) Cons.prems by blast
    with Cons.IH Data show ?thesis by (auto split: prod.splits option.splits)
  qed
qed

lemma run_events_append:
  "run_events rh ch (xs @ ys) s =
     (case run_events rh ch xs s of
        (Some e, s') \<Rightarrow> (Some e, s') | (None, s') \<Rightarrow> run_events rh ch ys s')"
  by (induction rh ch xs s rule: run_events.induct) (auto split: prod.splits option.splits)

lemma run_attempt_inv:
  assumes "\<And>r s. I s \<Longrightarrow> I (snd (rh r s))" and "\<And>d s. I s \<Longrightarrow> I (snd (ch d s))" and "I s"
  shows "I (snd (run_attempt rh ch a s))"
  using run_events_inv [of I rh ch s "at_events a", OF assms]
  by (auto simp: run_attempt_def split: prod.splits option.splits)

lemma run_attempts_inv:
  assumes "\<And>r s. I s \<Longrightarrow> I (snd (rh r s))" and "\<And>d s. I s \<Longrightarrow> I (snd (ch d s))" and "I s"
  shows "I (snd (run_attempts rh ch as s))"
  using assms(3)
proof (induction as arbitrary: s rule: induct_list012)
  case 1
  then show ?case by simp
next
  case (2 a)
  then show ?case using run_attempt_inv [of I rh ch s a, OF assms(1,2)] by simp
next
  case (3 a b as)
  then show ?case using run_attempt_inv [of I rh ch s a, OF assms(1,2)] by simp
qed

lemma run_attempts_append_last:
  "run_attempts rh ch (as @ [a]) s = run_attempt rh ch a (snd (run_attempts rh ch as s))"
  by (induction rh ch as s rule: run_attempts.induct) auto

lemma run_transfer_Inr:
  "run_attempts rh ch as s = (Inr r, s') \<Longrightarrow> run_transfer er try rh ch as s = (Inr r, s')"
  by (simp add: run_transfer_def)

end
