(* ===== verification/HttpParams.thy ===== *)
theory HttpParams
  imports Http "HOL-Library.AList"
begin

text \<open>
  HTTPFSParams (src/include/httpfs_client.hpp): the parameters of a request, their
  initialisation from settings and secrets, and Clone (src/httpfs.cpp).
\<close>

section \<open>The parameters\<close>

text \<open>
  HTTPParams is DuckDB's base class; its fields are the ones Clone and the clients use.
  extra_headers lists an unordered_map in iteration order. prm_state tells whether the
  HTTPState pointer is set, interrupt_flag whether the query's interrupt flag was captured.
\<close>

record http_params =
  timeout :: nat
  timeout_usec :: nat
  retries :: nat
  retry_wait_ms :: nat
  retry_backoff :: rat
  keep_alive :: bool
  follow_location :: bool
  override_verify_ssl :: bool
  verify_ssl :: bool
  http_proxy :: string
  http_proxy_port :: nat
  http_proxy_username :: string
  http_proxy_password :: string
  extra_headers :: "(string \<times> string) list"
  logger :: bool

record httpfs_params = http_params +
  force_download :: bool
  auto_fallback_to_full_download :: bool
  enable_server_cert_verification :: bool
  enable_curl_server_cert_verification :: bool
  hf_max_per_page :: nat
  ca_cert_file :: string
  bearer_token :: string
  unsafe_disable_etag_checks :: bool
  s3_version_id_pinning :: bool
  prm_state :: bool
  user_agent :: string
  pre_merged_headers :: bool
  force_download_threshold :: nat
  http_version :: string
  curl_verbose :: bool
  http2_multiplex :: bool
  interrupt_flag :: bool

text \<open>A default-constructed HTTPFSParams over a base; its constructor zeroes the proxy port.\<close>

definition new_httpfs_params :: "http_params \<Rightarrow> httpfs_params" where
  "new_httpfs_params base =
     http_params.extend (base\<lparr>http_proxy_port := 0\<rparr>)
       (httpfs_params.fields False True False True 0 '''' '''' False False False '''' False 0
          ''auto'' False True False)"

text \<open>Clone copies the listed members into a fresh object; base is a default HTTPParams.\<close>

definition Clone :: "http_params \<Rightarrow> httpfs_params \<Rightarrow> httpfs_params" where
  "Clone base p = (new_httpfs_params base)\<lparr>
     timeout := timeout p, timeout_usec := timeout_usec p, retries := retries p,
     retry_wait_ms := retry_wait_ms p, retry_backoff := retry_backoff p,
     keep_alive := keep_alive p, follow_location := follow_location p,
     override_verify_ssl := override_verify_ssl p, verify_ssl := verify_ssl p,
     http_proxy := http_proxy p,
     http_proxy_port := (if http_proxy p = '''' then 0 else http_proxy_port p),
     http_proxy_username := http_proxy_username p, http_proxy_password := http_proxy_password p,
     extra_headers := extra_headers p, logger := logger p,
     force_download := force_download p,
     auto_fallback_to_full_download := auto_fallback_to_full_download p,
     enable_server_cert_verification := enable_server_cert_verification p,
     enable_curl_server_cert_verification := enable_curl_server_cert_verification p,
     hf_max_per_page := hf_max_per_page p, ca_cert_file := ca_cert_file p,
     bearer_token := bearer_token p, unsafe_disable_etag_checks := unsafe_disable_etag_checks p,
     s3_version_id_pinning := s3_version_id_pinning p, prm_state := prm_state p,
     user_agent := user_agent p, pre_merged_headers := pre_merged_headers p,
     force_download_threshold := force_download_threshold p\<rparr>"

lemma Clone_simps [simp]:
  "s3_version_id_pinning (Clone base p) = s3_version_id_pinning p"
  "unsafe_disable_etag_checks (Clone base p) = unsafe_disable_etag_checks p"
  "extra_headers (Clone base p) = extra_headers p"
  "bearer_token (Clone base p) = bearer_token p"
  "http_version (Clone base p) = ''auto''"
  "http2_multiplex (Clone base p) = True"
  "curl_verbose (Clone base p) = False"
  "interrupt_flag (Clone base p) = False"
  by (simp_all add: Clone_def new_httpfs_params_def http_params.defs httpfs_params.defs)

section \<open>Settings and secrets\<close>

text \<open>
  A FileOpener of DuckDB: the settings by name and type (None when the lookup fails), whether it
  yields a client context and a database, and the values of the secret that matches a path for
  a list of secret types (KeyValueSecretReader).
\<close>

record opener =
  op_bool :: "string \<Rightarrow> bool option"
  op_nat :: "string \<Rightarrow> nat option"
  op_rat :: "string \<Rightarrow> rat option"
  op_str :: "string \<Rightarrow> string option"
  op_context :: bool
  op_database :: "string option"
  op_secret_str :: "string \<Rightarrow> string list \<Rightarrow> string \<Rightarrow> string option"
  op_secret_bool :: "string \<Rightarrow> string list \<Rightarrow> string \<Rightarrow> bool option"
  op_secret_map :: "string \<Rightarrow> string list \<Rightarrow> string \<Rightarrow> (string \<times> string) list option"
  op_parse_proxy :: "string \<Rightarrow> string \<times> nat"
  op_base_params :: http_params

definition set_if :: "'a option \<Rightarrow> ('a \<Rightarrow> 'p \<Rightarrow> 'p) \<Rightarrow> 'p \<Rightarrow> 'p" where
  "set_if v upd p = (case v of None \<Rightarrow> p | Some x \<Rightarrow> upd x p)"

lemma set_if_simps [simp]: "set_if None upd p = p" "set_if (Some x) upd p = upd x p"
  by (simp_all add: set_if_def)

text \<open>The settings, in the order of the code.\<close>

definition read_settings :: "opener \<Rightarrow> httpfs_params \<Rightarrow> httpfs_params" where
  "read_settings opn p0 =
     (let p1 = set_if (op_nat opn ''http_timeout'') (\<lambda>x p. p\<lparr>timeout := x\<rparr>) p0;
          p2 = set_if (op_bool opn ''force_download'') (\<lambda>x p. p\<lparr>force_download := x\<rparr>) p1;
          p3 = set_if (op_nat opn ''force_download_threshold'')
                 (\<lambda>x p. p\<lparr>force_download_threshold := x\<rparr>) p2;
          p4 = set_if (op_bool opn ''auto_fallback_to_full_download'')
                 (\<lambda>x p. p\<lparr>auto_fallback_to_full_download := x\<rparr>) p3;
          p5 = set_if (op_nat opn ''http_retries'') (\<lambda>x p. p\<lparr>retries := x\<rparr>) p4;
          p6 = set_if (op_nat opn ''http_retry_wait_ms'') (\<lambda>x p. p\<lparr>retry_wait_ms := x\<rparr>) p5;
          p7 = set_if (op_rat opn ''http_retry_backoff'') (\<lambda>x p. p\<lparr>retry_backoff := x\<rparr>) p6;
          p8 = set_if (op_bool opn ''http_keep_alive'') (\<lambda>x p. p\<lparr>keep_alive := x\<rparr>) p7;
          p9 = set_if (op_bool opn ''enable_curl_server_cert_verification'')
                 (\<lambda>x p. p\<lparr>enable_curl_server_cert_verification := x\<rparr>) p8;
          p10 = set_if (op_bool opn ''enable_server_cert_verification'')
                 (\<lambda>x p. p\<lparr>enable_server_cert_verification := x\<rparr>) p9;
          p11 = set_if (op_str opn ''ca_cert_file'') (\<lambda>x p. p\<lparr>ca_cert_file := x\<rparr>) p10;
          p12 = set_if (op_nat opn ''hf_max_per_page'') (\<lambda>x p. p\<lparr>hf_max_per_page := x\<rparr>) p11;
          p13 = set_if (op_bool opn ''unsafe_disable_etag_checks'')
                 (\<lambda>x p. p\<lparr>unsafe_disable_etag_checks := x\<rparr>) p12;
          p14 = set_if (op_bool opn ''s3_version_id_pinning'')
                 (\<lambda>x p. p\<lparr>s3_version_id_pinning := x\<rparr>) p13;
          p15 = set_if (op_str opn ''http_version'') (\<lambda>x p. p\<lparr>http_version := x\<rparr>) p14;
          p16 = set_if (op_bool opn ''httpfs_curl_verbose'') (\<lambda>x p. p\<lparr>curl_verbose := x\<rparr>) p15
      in set_if (op_bool opn ''http2_multiplex'') (\<lambda>x p. p\<lparr>http2_multiplex := x\<rparr>) p16)"

text \<open>The secret types consulted for a path: an S3-type url adds the http secret unless
  merge_http_secret_into_s3_request is off.\<close>

definition secret_types_for :: "bool \<Rightarrow> opener \<Rightarrow> string list" where
  "secret_types_for s3_url opn =
     (if s3_url then
        (if op_bool opn ''merge_http_secret_into_s3_request'' = Some False
         then [''s3'', ''r2'', ''gcs'', ''aws'']
         else [''s3'', ''r2'', ''gcs'', ''aws'', ''http''])
      else [''http''])"

text \<open>The secret lookups, for a path and the types to consult.\<close>

definition read_secrets :: "opener \<Rightarrow> string \<Rightarrow> string list \<Rightarrow> httpfs_params \<Rightarrow> httpfs_params" where
  "read_secrets opn path ts p0 =
     (let p1 = (case op_secret_str opn path ts ''http_proxy'' of
                  Some proxy \<Rightarrow>
                    (if proxy \<noteq> '''' then
                       (case op_parse_proxy opn proxy of
                          (host, port) \<Rightarrow> p0\<lparr>http_proxy := host, http_proxy_port := port\<rparr>)
                     else p0)
                | None \<Rightarrow> p0);
          v = op_secret_bool opn path ts ''verify_ssl'';
          p2 = set_if v (\<lambda>x p. p\<lparr>verify_ssl := x\<rparr>) (p1\<lparr>override_verify_ssl := v \<noteq> None\<rparr>);
          p3 = set_if (op_secret_str opn path ts ''http_proxy_username'')
                 (\<lambda>x p. p\<lparr>http_proxy_username := x\<rparr>) p2;
          p4 = set_if (op_secret_str opn path ts ''http_proxy_password'')
                 (\<lambda>x p. p\<lparr>http_proxy_password := x\<rparr>) p3;
          p5 = set_if (op_secret_str opn path ts ''bearer_token'')
                 (\<lambda>x p. p\<lparr>bearer_token := x\<rparr>) p4
      in set_if (op_secret_map opn path ts ''extra_http_headers'')
           (\<lambda>kvs p. p\<lparr>extra_headers := fold (\<lambda>(k, v) m. AList.update k v m) kvs (extra_headers p)\<rparr>)
           p5)"

text \<open>
  HTTPFSUtil::InitializeParameters. s3_url is the test TryGetPrefix(info->file_path) of the S3
  file system; without an opener only the base initialisation runs.
\<close>

definition InitializeParameters ::
    "http_params \<Rightarrow> (string \<Rightarrow> bool) \<Rightarrow> opener option \<Rightarrow> string \<Rightarrow> httpfs_params" where
  "InitializeParameters default_base s3_url opn path =
     (case opn of
        None \<Rightarrow> new_httpfs_params default_base
      | Some op \<Rightarrow>
          (let p0 = (new_httpfs_params (op_base_params op))\<lparr>prm_state := op_context op\<rparr>;
               p1 = read_settings op p0;
               p2 = set_if (op_database op) (\<lambda>ua p. p\<lparr>user_agent := ua\<rparr>) p1;
               p3 = (if op_context op then p2\<lparr>interrupt_flag := True\<rparr> else p2)
           in read_secrets op path (secret_types_for (s3_url path) op) p3))"

lemma set_if_pres: "(\<And>x p. f (upd x p) = f p) \<Longrightarrow> f (set_if v upd p) = f p"
  by (cases v) simp_all

lemma read_settings_interrupt [simp]: "interrupt_flag (read_settings opn p) = interrupt_flag p"
  by (simp add: read_settings_def Let_def set_if_pres [where f = interrupt_flag])

lemma read_secrets_interrupt [simp]: "interrupt_flag (read_secrets opn path ts p) = interrupt_flag p"
  by (simp add: read_secrets_def Let_def set_if_pres [where f = interrupt_flag]
      split: option.splits prod.splits)

end
