(* ===== verification/ClientCache.thy ===== *)
theory ClientCache
  imports Http
begin

text \<open>
  HTTPClientCache (src/httpfs.cpp, src/include/httpfs.hpp): the clients a file handle keeps for
  reuse, with the generation counter that Clear advances so that a client checked out before
  a Clear is not stored again, and SendS3HandleRequestWithClientCache, which uses both.
\<close>

section \<open>The cache\<close>

record client_entry =
  ce_client :: "client option"
  ce_generation :: nat

record client_cache =
  clients :: "client option list"
  generation :: nat

definition empty_client_cache :: client_cache where
  "empty_client_cache = \<lparr>clients = [], generation = 0\<rparr>"

definition GetClientWithGeneration :: "client_cache \<Rightarrow> client_entry \<times> client_cache" where
  "GetClientWithGeneration c =
     (if length (clients c) = 0
      then (\<lparr>ce_client = None, ce_generation = generation c\<rparr>, c)
      else (\<lparr>ce_client = last (clients c), ce_generation = generation c\<rparr>,
            c\<lparr>clients := butlast (clients c)\<rparr>))"

definition GetClient :: "client_cache \<Rightarrow> client option \<times> client_cache" where
  "GetClient c = (case GetClientWithGeneration c of (e, c') \<Rightarrow> (ce_client e, c'))"

definition StoreClient :: "client option \<Rightarrow> client_cache \<Rightarrow> client_cache" where
  "StoreClient cl c = c\<lparr>clients := clients c @ [cl]\<rparr>"

text \<open>The overload for an Entry: moves the client out of the entry when it keeps it.\<close>

definition StoreClientEntry ::
    "client_entry \<Rightarrow> client_cache \<Rightarrow> bool \<times> client_entry \<times> client_cache" where
  "StoreClientEntry e c =
     (if ce_client e = None then (True, e, c)
      else if ce_generation e \<noteq> generation c then (False, e, c)
      else (True, e\<lparr>ce_client := None\<rparr>, c\<lparr>clients := clients c @ [ce_client e]\<rparr>))"

definition ClearClients :: "client_cache \<Rightarrow> client_cache" where
  "ClearClients c = c\<lparr>generation := add64 (generation c) 1, clients := []\<rparr>"

lemma GetClientWithGeneration_generation [simp]:
  "generation (snd (GetClientWithGeneration c)) = generation c"
  "ce_generation (fst (GetClientWithGeneration c)) = generation c"
  by (simp_all add: GetClientWithGeneration_def)

lemma GetClientWithGeneration_clients:
  "clients c = xs @ [x] \<Longrightarrow>
   ce_client (fst (GetClientWithGeneration c)) = x \<and>
   clients (snd (GetClientWithGeneration c)) = xs"
  by (simp add: GetClientWithGeneration_def)

lemma GetClientWithGeneration_empty:
  "clients c = [] \<Longrightarrow>
   ce_client (fst (GetClientWithGeneration c)) = None \<and> snd (GetClientWithGeneration c) = c"
  by (simp add: GetClientWithGeneration_def)

section \<open>One request over a cached client\<close>

text \<open>
  SendS3HandleRequestWithClientCache: check a client out, send, store it again, and close it
  when the cache refuses it. The request's answer is the parameter \<open>r\<close>, with the client it
  leaves in the entry; \<open>c2\<close> is the cache when it returns, since other threads may have used
  or cleared it meanwhile.
\<close>

definition FinishS3HandleRequest ::
    "client_entry \<Rightarrow> client option \<Rightarrow> client_cache \<Rightarrow> client option \<times> client_cache" where
  "FinishS3HandleRequest entry client_out c2 =
     (case StoreClientEntry (entry\<lparr>ce_client := client_out\<rparr>) c2 of
        (True, e, c3) \<Rightarrow> (None, c3)
      | (False, e, c3) \<Rightarrow> (ce_client e, c3))"

section \<open>Threads sharing a cache\<close>

text \<open>
  Several threads use one cache: a thread checks out an entry, its request installs a new client
  when the entry came empty (clients are numbered in the order they are made), and it returns
  the entry; any thread may clear the cache in between. A client that the cache refuses is closed.
\<close>

datatype cc_op = CheckOut nat | Send nat | Return nat | ClearAll

record cc_sys =
  cache :: client_cache
  slots :: "nat \<Rightarrow> client_entry option"
  next_client :: nat
  closed :: "client list"

definition cc_init :: cc_sys where
  "cc_init = \<lparr>cache = empty_client_cache, slots = (\<lambda>_. None), next_client = 0, closed = []\<rparr>"

fun cc_step :: "cc_sys \<Rightarrow> cc_op \<Rightarrow> cc_sys" where
  "cc_step s (CheckOut t) =
     (case slots s t of
        Some _ \<Rightarrow> s
      | None \<Rightarrow> (case GetClientWithGeneration (cache s) of
           (e, c) \<Rightarrow> s\<lparr>cache := c, slots := (slots s)(t := Some e)\<rparr>))"
| "cc_step s (Send t) =
     (case slots s t of
        Some e \<Rightarrow>
          (if ce_client e = None
           then s\<lparr>slots := (slots s)(t := Some (e\<lparr>ce_client := Some (next_client s)\<rparr>)),
                  next_client := Suc (next_client s)\<rparr>
           else s)
      | None \<Rightarrow> s)"
| "cc_step s (Return t) =
     (case slots s t of
        Some e \<Rightarrow>
          (case FinishS3HandleRequest e (ce_client e) (cache s) of
             (shut, c) \<Rightarrow> s\<lparr>cache := c, slots := (slots s)(t := None),
                           closed := closed s @ (case shut of None \<Rightarrow> [] | Some x \<Rightarrow> [x])\<rparr>)
      | None \<Rightarrow> s)"
| "cc_step s ClearAll = s\<lparr>cache := ClearClients (cache s)\<rparr>"

definition cc_run :: "cc_sys \<Rightarrow> cc_op list \<Rightarrow> cc_sys" where
  "cc_run = foldl cc_step"

lemma cc_run_simps [simp]:
  "cc_run s [] = s"
  "cc_run s (x # xs) = cc_run (cc_step s x) xs"
  "cc_run s (xs @ ys) = cc_run (cc_run s xs) ys"
  by (simp_all add: cc_run_def)

text \<open>
  The invariant relative to a floor lo, the number of the first client made after the last Clear:
  cached clients, and clients in slots of the current generation, are not older.
\<close>

definition cc_inv :: "nat \<Rightarrow> cc_sys \<Rightarrow> bool" where
  "cc_inv lo s \<longleftrightarrow>
     lo \<le> next_client s \<and>
     (\<forall>x. Some x \<in> set (clients (cache s)) \<longrightarrow> lo \<le> x) \<and>
     (\<forall>t e x. slots s t = Some e \<longrightarrow> ce_client e = Some x \<longrightarrow>
        ce_generation e = generation (cache s) \<longrightarrow> lo \<le> x) \<and>
     (\<forall>t e. slots s t = Some e \<longrightarrow> ce_generation e \<le> generation (cache s))"

lemma cc_inv_init: "cc_inv 0 cc_init"
  by (simp add: cc_inv_def cc_init_def empty_client_cache_def)

lemma cc_inv_checkout:
  assumes "cc_inv fl s"
  shows "cc_inv fl (cc_step s (CheckOut t))"
proof (cases "slots s t = None \<and> clients (cache s) \<noteq> []")
  case True
  then have "last (clients (cache s)) \<in> set (clients (cache s))" by simp
  with True assms show ?thesis
    by (auto simp: cc_inv_def GetClientWithGeneration_def dest: in_set_butlastD)
      (metis last_in_set)
next
  case False
  with assms show ?thesis
    by (auto simp: cc_inv_def GetClientWithGeneration_def split: option.splits)
qed

lemma cc_inv_send: "cc_inv fl s \<Longrightarrow> cc_inv fl (cc_step s (Send t))"
  by (auto simp: cc_inv_def split: option.splits)

lemma cc_inv_return: "cc_inv fl s \<Longrightarrow> cc_inv fl (cc_step s (Return t))"
  by (auto simp: cc_inv_def FinishS3HandleRequest_def StoreClientEntry_def split: option.splits)

lemma cc_inv_clear:
  assumes "cc_inv fl s" and "generation (cache s) + 1 < w64"
  shows "cc_inv (next_client s) (cc_step s ClearAll)"
  using assms by (fastforce simp: cc_inv_def ClearClients_def add64_exact)

lemma cc_step_generation:
  "generation (cache (cc_step s x)) =
     (if x = ClearAll then add64 (generation (cache s)) 1 else generation (cache s))"
  by (cases x) (auto simp: ClearClients_def FinishS3HandleRequest_def StoreClientEntry_def
      GetClientWithGeneration_def split: option.splits)

text \<open>Fewer than 2^64 operations cannot make the generation wrap around.\<close>

lemma cc_run_generation:
  "generation (cache s) + length es < w64 \<Longrightarrow>
   generation (cache (cc_run s es)) \<le> generation (cache s) + length es"
proof (induction es arbitrary: s)
  case Nil
  then show ?case by simp
next
  case (Cons x es)
  have "generation (cache (cc_step s x)) \<le> generation (cache s) + 1"
    using Cons.prems by (simp add: cc_step_generation add64_exact)
  with Cons.IH [of "cc_step s x"] Cons.prems show ?case by simp
qed

lemma cc_run_inv:
  "cc_inv fl s \<Longrightarrow> generation (cache s) + length es < w64 \<Longrightarrow>
   \<exists>fl' \<ge> fl. cc_inv fl' (cc_run s es)"
proof (induction es arbitrary: fl s)
  case Nil
  then show ?case by auto
next
  case (Cons x es)
  have "\<exists>fl' \<ge> fl. cc_inv fl' (cc_step s x)"
  proof (cases "x = ClearAll")
    case True
    from Cons.prems have "fl \<le> next_client s" by (simp add: cc_inv_def)
    moreover have "cc_inv (next_client s) (cc_step s x)"
      unfolding True using Cons.prems by (intro cc_inv_clear) simp_all
    ultimately show ?thesis by (intro exI [of _ "next_client s"] conjI)
  next
    case False
    have "cc_inv fl (cc_step s x)"
      using False by (cases x)
        (simp_all only: cc_inv_checkout [OF Cons.prems(1)] cc_inv_send [OF Cons.prems(1)]
          cc_inv_return [OF Cons.prems(1)] simp_thms)
    then show ?thesis by (intro exI [of _ fl] conjI order_refl)
  qed
  then obtain fl' where fl': "fl \<le> fl'" "cc_inv fl' (cc_step s x)" by (elim exE conjE)
  have "generation (cache (cc_step s x)) + length es < w64"
    using Cons.prems(2) by (simp add: cc_step_generation add64_exact)
  from Cons.IH [OF fl'(2) this] obtain fl'' where "fl' \<le> fl''"
    and "cc_inv fl'' (cc_run (cc_step s x) es)" by (elim exE conjE)
  then show ?case using fl'(1) by (intro exI [of _ fl'']) simp
qed

text \<open>
  After a Clear, a client made before it is never cached again, however the threads go on.
\<close>

lemma cleared_clients_gone:
  assumes "length es + length es' + 1 < w64"
    and "Some x \<in> set (clients (cache (cc_run (cc_step (cc_run cc_init es) ClearAll) es')))"
  shows "next_client (cc_run cc_init es) \<le> x"
proof -
  let ?s = "cc_run cc_init es"
  let ?t = "cc_step ?s ClearAll"
  have g0: "generation (cache cc_init) = 0" by (simp add: cc_init_def empty_client_cache_def)
  have g: "generation (cache ?s) \<le> length es"
    using cc_run_generation [of cc_init es] assms(1) g0 by simp
  obtain fl where "cc_inv fl ?s" using cc_run_inv [OF cc_inv_init, of es] assms(1) g0 by auto
  then have "cc_inv (next_client ?s) ?t"
    using g assms(1) by (intro cc_inv_clear) simp_all
  moreover have "generation (cache ?t) + length es' < w64"
    using g assms(1) by (simp add: cc_step_generation add64_exact del: cc_step.simps)
  ultimately obtain fl' where "next_client ?s \<le> fl'" and "cc_inv fl' (cc_run ?t es')"
    using cc_run_inv by blast
  with assms(2) show ?thesis by (auto simp: cc_inv_def simp del: cc_step.simps)
qed

text \<open>
  C22: A cleared client is never reused. However threads check clients out, send, return entries and
  clear the cache (fewer than 2^64 operations), a client that existed when the cache was cleared is
  not in the cache at any later point: entries checked out before the clear are refused.
\<close>

theorem cleared_clients_never_reused:
  assumes "length es + length es' + 1 < w64"
    and "Some x \<in> set (clients (cache (cc_run (cc_step (cc_run cc_init es) ClearAll) es')))"
  shows "next_client (cc_run cc_init es) \<le> x"
  by (rule cleared_clients_gone [OF assms])

definition demo_before :: "cc_op list" where
  "demo_before = [CheckOut 0, Send 0, CheckOut 1, Send 1, Return 1]"

definition demo_after :: "cc_op list" where
  "demo_after = [Return 0, CheckOut 0, Send 0, Return 0]"

lemma demo_lengths: "length demo_before + length demo_after + 1 < w64"
  by (simp add: demo_before_def demo_after_def)

lemma demo_cached: "clients (cache (cc_run (cc_step (cc_run cc_init demo_before) ClearAll) demo_after)) = [Some 2]"
  by (simp add: demo_before_def demo_after_def cc_init_def empty_client_cache_def
      GetClientWithGeneration_def FinishS3HandleRequest_def StoreClientEntry_def ClearClients_def
      add64_def)

theorem cleared_clients_never_reused_witness:
  "clients (cache (cc_run (cc_step (cc_run cc_init demo_before) ClearAll) demo_after)) = [Some 2] \<and>
   next_client (cc_run cc_init demo_before) \<le> 2"
proof -
  have "Some 2 \<in> set (clients (cache (cc_run (cc_step (cc_run cc_init demo_before) ClearAll) demo_after)))"
    unfolding demo_cached by simp
  from cleared_clients_never_reused [OF demo_lengths this] show ?thesis using demo_cached by blast
qed

end
