(* ===== verification/MetadataCache.thy ===== *)
theory MetadataCache
  imports Http
begin

text \<open>
  HTTPMetadataCache (src/include/http_metadata_cache.hpp): what is known of a remote file (its
  length, modification time, validators) under its path, with the keyed-cache interface the
  file system relies on when it opens a file.
\<close>

section \<open>The keyed-cache interface\<close>

text \<open>
  What a client of a cache of values under string keys relies on: a lookup after an insert or
  an erase, also at other keys, and a clear that leaves nothing.
\<close>

locale keyed_cache =
  fixes look :: "'c \<Rightarrow> string \<Rightarrow> 'v option"
    and ins :: "string \<Rightarrow> 'v \<Rightarrow> 'c \<Rightarrow> 'c"
    and del :: "string \<Rightarrow> 'c \<Rightarrow> 'c"
    and clear :: "'c \<Rightarrow> 'c"
  assumes look_ins: "look (ins k v c) j = (if j = k then Some v else look c j)"
    and look_del: "look (del k c) j = (if j = k then None else look c j)"
    and look_clear: "look (clear c) j = None"
begin

lemma look_ins_same: "look (ins k v c) k = Some v"
  by (simp add: look_ins)

lemma look_del_same: "look (del k c) k = None"
  by (simp add: look_del)

lemma look_fold_del: "look (fold del ks c) j = (if j \<in> set ks then None else look c j)"
  by (induction ks arbitrary: c) (auto simp: look_del)

lemma look_fold_ins_fresh:
  "j \<notin> fst ` set kvs \<Longrightarrow> look (fold (\<lambda>(k, v). ins k v) kvs c) j = look c j"
  by (induction kvs arbitrary: c) (auto simp: look_ins)

lemma ins_ins_look: "look (ins k v (ins k v' c)) j = look (ins k v c) j"
  by (simp add: look_ins)

end

section \<open>The metadata cache\<close>

record md_entry =
  md_length :: nat
  md_last_modified :: int
  md_etag :: string
  md_version_id :: string
  md_properties :: "string \<rightharpoonup> string"

text \<open>The mutex is taken only when the cache is shared; it does not change what is stored.\<close>

record metadata_cache =
  md_map :: "string \<rightharpoonup> md_entry"
  flush_on_query_end :: bool
  md_shared :: bool

definition new_metadata_cache :: "bool \<Rightarrow> bool \<Rightarrow> metadata_cache" where
  "new_metadata_cache flush shrd =
     \<lparr>md_map = Map.empty, flush_on_query_end = flush, md_shared = shrd\<rparr>"

definition md_Insert :: "string \<Rightarrow> md_entry \<Rightarrow> metadata_cache \<Rightarrow> metadata_cache" where
  "md_Insert path val c = c\<lparr>md_map := (md_map c)(path \<mapsto> val)\<rparr>"

definition md_Erase :: "string \<Rightarrow> metadata_cache \<Rightarrow> metadata_cache" where
  "md_Erase path c = c\<lparr>md_map := (md_map c)(path := None)\<rparr>"

text \<open>Find: the result flag, and ret_val as it is left (unchanged when the key is missing).\<close>

definition md_Find :: "metadata_cache \<Rightarrow> string \<Rightarrow> md_entry \<Rightarrow> bool \<times> md_entry" where
  "md_Find c path ret_val =
     (case md_map c path of Some e \<Rightarrow> (True, e) | None \<Rightarrow> (False, ret_val))"

definition md_Clear :: "metadata_cache \<Rightarrow> metadata_cache" where
  "md_Clear c = c\<lparr>md_map := Map.empty\<rparr>"

definition md_QueryEnd :: "metadata_cache \<Rightarrow> metadata_cache" where
  "md_QueryEnd c = (if flush_on_query_end c then md_Clear c else c)"

text \<open>The lookup view of Find.\<close>

definition md_lookup :: "metadata_cache \<Rightarrow> string \<Rightarrow> md_entry option" where
  "md_lookup c path =
     (let blank = \<lparr>md_length = 0, md_last_modified = 0, md_etag = '''', md_version_id = '''',
                   md_properties = Map.empty\<rparr>
      in case md_Find c path blank of (True, e) \<Rightarrow> Some e | (False, _) \<Rightarrow> None)"

lemma md_lookup_map [simp]: "md_lookup c path = md_map c path"
  by (simp add: md_lookup_def md_Find_def Let_def split: option.splits)

lemma md_Find_iff [simp]: "md_Find c path v =
    (case md_lookup c path of Some e \<Rightarrow> (True, e) | None \<Rightarrow> (False, v))"
  by (simp add: md_Find_def)

interpretation md: keyed_cache md_lookup md_Insert md_Erase md_Clear
  by unfold_locales (simp_all add: md_Insert_def md_Erase_def md_Clear_def)

text \<open>At the end of a query a flushing cache is empty and any other cache keeps its entries.\<close>

lemma md_lookup_QueryEnd:
  "md_lookup (md_QueryEnd c) k = (if flush_on_query_end c then None else md_lookup c k)"
  by (simp add: md_QueryEnd_def md_Clear_def)

end
