(* ===== verification/HttpState.thy ===== *)
theory HttpState
  imports Http
begin

text \<open>
  CachedFile, CachedFileHandle and HTTPState (src/http_state.cpp, src/include/http_state.hpp):
  the request counters of a query and the files it downloaded in full, with the growing download
  buffer that RunGetRequest (src/httpfs.cpp) fills.
\<close>

section \<open>A cached file and its buffer\<close>

text \<open>
  cf_data is the allocated buffer (capacity bytes; fresh memory reads as zero bytes here, and no
  property depends on that). A handle remembers whether it took the file's lock.
\<close>

record cached_file =
  cf_data :: bytes
  cf_capacity :: nat
  cf_size :: nat
  cf_initialized :: bool

definition new_cached_file :: cached_file where
  "new_cached_file = \<lparr>cf_data = [], cf_capacity = 0, cf_size = 0, cf_initialized = False\<rparr>"

record cached_handle =
  ch_file :: nat
  ch_lock :: bool

definition cf_AllocateBuffer :: "nat \<Rightarrow> cached_file \<Rightarrow> exn + cached_file" where
  "cf_AllocateBuffer n f =
     (if cf_initialized f
      then Inl (Exn ExInternal ''Cannot allocate a buffer for a cached file'' None)
      else Inr (f\<lparr>cf_data := replicate n (CHR 0x00), cf_capacity := n\<rparr>))"

text \<open>Write: memcpy into the buffer; bytes that do not fit are undefined behaviour.\<close>

definition cf_Write :: "bytes \<Rightarrow> nat \<Rightarrow> cached_file \<Rightarrow> exn + cached_file" where
  "cf_Write buf off f =
     (if off + length buf \<le> length (cf_data f)
      then Inr (f\<lparr>cf_data := overwrite (cf_data f) off buf\<rparr>)
      else Inl (Exn Undefined ''write outside the buffer'' None))"

definition cf_GrowBuffer :: "nat \<Rightarrow> nat \<Rightarrow> cached_file \<Rightarrow> exn + cached_file" where
  "cf_GrowBuffer new_capacity bytes_to_copy f =
     (case cf_AllocateBuffer new_capacity f of
        Inl e \<Rightarrow> Inl e
      | Inr f' \<Rightarrow>
          (if bytes_to_copy \<le> length (cf_data f)
           then cf_Write (take bytes_to_copy (cf_data f)) 0 f'
           else Inl (Exn Undefined ''read outside the buffer'' None)))"

text \<open>SetInitialized, on the file and the handle that holds its lock.\<close>

definition cf_SetInitialized ::
    "nat \<Rightarrow> cached_handle \<Rightarrow> cached_file \<Rightarrow> exn + cached_handle \<times> cached_file" where
  "cf_SetInitialized total_size h f =
     (if cf_initialized f
      then Inl (Exn ExInternal ''Cannot set initialized on cached file that was already'' None)
      else if \<not> ch_lock h
      then Inl (Exn ExInternal ''Cannot set initialized on cached file without lock'' None)
      else Inr (h\<lparr>ch_lock := False\<rparr>, f\<lparr>cf_size := total_size, cf_initialized := True\<rparr>))"

section \<open>Downloading chunk by chunk\<close>

text \<open>The doubling loop: a loop that never ends is None.\<close>

partial_function (option) double_until :: "nat \<Rightarrow> nat \<Rightarrow> nat option" where
  "double_until cap need = (if cap < need then double_until (mul64 cap 2) need else Some cap)"

text \<open>
  The content handler of RunGetRequest, on the handle's length and the cached file.
\<close>

definition download_chunk :: "bytes \<Rightarrow> nat \<Rightarrow> cached_file \<Rightarrow> exn + nat \<times> cached_file" where
  "download_chunk data len f =
     (if cf_capacity f = 0 then
        (case cf_AllocateBuffer (length data) f of
           Inl e \<Rightarrow> Inl e
         | Inr f1 \<Rightarrow>
             (case cf_Write data 0 f1 of Inl e \<Rightarrow> Inl e | Inr f2 \<Rightarrow> Inr (length data, f2)))
      else
        (case double_until (cf_capacity f) (add64 len (length data)) of
           None \<Rightarrow> Inl (Exn Diverges ''capacity loop'' None)
         | Some new_capacity \<Rightarrow>
             (case (if new_capacity \<noteq> cf_capacity f
                    then cf_GrowBuffer new_capacity len f else Inr f) of
                Inl e \<Rightarrow> Inl e
              | Inr f1 \<Rightarrow>
                  (case cf_Write data len f1 of
                     Inl e \<Rightarrow> Inl e
                   | Inr f2 \<Rightarrow> Inr (add64 len (length data), f2)))))"

fun download_chunks :: "bytes list \<Rightarrow> nat \<Rightarrow> cached_file \<Rightarrow> exn + nat \<times> cached_file" where
  "download_chunks [] len f = Inr (len, f)"
| "download_chunks (d # ds) len f =
     (case download_chunk d len f of Inl e \<Rightarrow> Inl e | Inr (len', f') \<Rightarrow> download_chunks ds len' f')"

text \<open>The loop ends when the capacity is positive and the size needed is at most 2^63.\<close>

lemma double_until_returns:
  assumes "0 < cap" and "need \<le> 2 ^ 63"
  shows "\<exists>n. double_until cap need = Some n \<and> need \<le> n \<and> cap \<le> n \<and> n \<le> max cap (2 * need)"
  using assms
proof (induction "need - cap" arbitrary: cap rule: less_induct)
  case less
  show ?case
  proof (cases "cap < need")
    case False
    then show ?thesis by (simp add: double_until.simps)
  next
    case True
    with less.prems have m: "mul64 cap 2 = cap * 2" by (simp add: mul64_exact)
    have "\<exists>n. double_until (cap * 2) need = Some n \<and> need \<le> n \<and> cap * 2 \<le> n
        \<and> n \<le> max (cap * 2) (2 * need)"
      using less.hyps [of "cap * 2"] less.prems True by simp
    then obtain n where n: "double_until (cap * 2) need = Some n" "need \<le> n" "cap * 2 \<le> n"
        "n \<le> max (cap * 2) (2 * need)" by blast
    have "double_until cap need = Some n" using True n(1) m by (simp add: double_until.simps [of cap])
    moreover have "n \<le> max cap (2 * need)" using n(4) True by simp
    ultimately show ?thesis using n(2,3) by auto
  qed
qed

declare double_until.simps [code]

lemma double_until_same [simp]: "need \<le> cap \<Longrightarrow> double_until cap need = Some cap"
  by (simp add: double_until.simps)

text \<open>
  The download invariant: the first len bytes of the buffer are what has been received, and the
  file is not yet published.
\<close>

definition dl_inv :: "bytes \<Rightarrow> nat \<Rightarrow> cached_file \<Rightarrow> bool" where
  "dl_inv got len f \<longleftrightarrow>
     len = length got \<and> len \<le> cf_capacity f \<and> length (cf_data f) = cf_capacity f \<and>
     take len (cf_data f) = got \<and> \<not> cf_initialized f"

lemma dl_inv_fresh:
  "cf_capacity f = 0 \<Longrightarrow> cf_data f = [] \<Longrightarrow> \<not> cf_initialized f \<Longrightarrow> dl_inv [] 0 f"
  by (simp add: dl_inv_def)

lemma cf_Write_dl:
  assumes "dl_inv got len f" and "len + length data \<le> cf_capacity f"
  shows "\<exists>f'. cf_Write data len f = Inr f' \<and> dl_inv (got @ data) (len + length data) f'"
  using assms take_overwrite_upto [of len data "cf_data f"]
  by (auto simp: cf_Write_def dl_inv_def)

lemma cf_GrowBuffer_dl:
  assumes "dl_inv got len f" and "len \<le> n"
  shows "\<exists>f'. cf_GrowBuffer n len f = Inr f' \<and> dl_inv got len f' \<and> cf_capacity f' = n"
  using assms by (auto simp: cf_GrowBuffer_def cf_AllocateBuffer_def cf_Write_def dl_inv_def
      overwrite_def min_def)

lemma download_chunk_step:
  assumes inv: "dl_inv got len f" and small: "len + length data \<le> 2 ^ 62"
  shows "\<exists>len' f'. download_chunk data len f = Inr (len', f') \<and> dl_inv (got @ data) len' f'"
proof (cases "cf_capacity f = 0")
  case True
  then show ?thesis using inv
    by (auto simp: download_chunk_def cf_AllocateBuffer_def cf_Write_def dl_inv_def buf_simps)
next
  case False
  have add: "add64 len (length data) = len + length data" using small by (simp add: add64_exact)
  obtain n where n: "double_until (cf_capacity f) (len + length data) = Some n"
      "len + length data \<le> n" "cf_capacity f \<le> n"
    using double_until_returns [of "cf_capacity f" "len + length data"] False small by auto
  obtain f1 where f1: "(if n \<noteq> cf_capacity f then cf_GrowBuffer n len f else Inr f) = Inr f1"
      "dl_inv got len f1" "cf_capacity f1 = n"
    using cf_GrowBuffer_dl [OF inv, of n] n(2) inv by (cases "n = cf_capacity f") auto
  with cf_Write_dl [OF f1(2), of data] n(2) obtain f2
    where "cf_Write data len f1 = Inr f2" "dl_inv (got @ data) (len + length data) f2" by auto
  with False n(1) f1(1) show ?thesis by (simp add: download_chunk_def add del: One_nat_def)
qed

lemma download_chunks_dl:
  assumes "dl_inv got len f" and "len + length (concat ds) \<le> 2 ^ 62"
  shows "\<exists>len' f'. download_chunks ds len f = Inr (len', f') \<and> dl_inv (got @ concat ds) len' f'"
  using assms
proof (induction ds arbitrary: got len f)
  case Nil
  then show ?case by simp
next
  case (Cons d ds)
  then obtain len1 f1 where 1: "download_chunk d len f = Inr (len1, f1)" "dl_inv (got @ d) len1 f1"
    using download_chunk_step [of got len f d] by auto
  moreover have "len1 + length (concat ds) \<le> 2 ^ 62"
    using 1(2) Cons.prems by (simp add: dl_inv_def)
  ultimately show ?case using Cons.IH [of "got @ d" len1 f1] by auto
qed

text \<open>
  Into a fresh file the first non-empty chunk sets the length, whatever it was before.
\<close>

lemma download_chunk_empty: "cf_capacity f = 0 \<Longrightarrow> cf_data f = [] \<Longrightarrow> \<not> cf_initialized f \<Longrightarrow>
   download_chunk [] len f = Inr (0, f)"
  by (simp add: download_chunk_def cf_AllocateBuffer_def cf_Write_def overwrite_nil)

lemma download_chunks_fresh:
  assumes "length (concat ds) \<le> 2 ^ 62"
  shows "\<exists>len' f. download_chunks ds len new_cached_file = Inr (len', f) \<and>
     take (length (concat ds)) (cf_data f) = concat ds \<and> length (concat ds) \<le> length (cf_data f) \<and>
     \<not> cf_initialized f \<and> (concat ds \<noteq> [] \<longrightarrow> len' = length (concat ds))"
proof (cases ds)
  case Nil
  then show ?thesis by (simp add: new_cached_file_def)
next
  case (Cons d ds')
  have f0: "dl_inv [] 0 new_cached_file" by (simp add: new_cached_file_def dl_inv_def)
  have "download_chunk d len new_cached_file = download_chunk d 0 new_cached_file"
    by (simp add: download_chunk_def new_cached_file_def)
  then have "download_chunks ds len new_cached_file = download_chunks ds 0 new_cached_file"
    by (simp add: Cons)
  moreover obtain len' f' where "download_chunks ds 0 new_cached_file = Inr (len', f')"
      "dl_inv (concat ds) len' f'"
    using download_chunks_dl [OF f0, of ds] assms by auto
  ultimately show ?thesis by (auto simp: dl_inv_def)
qed

section \<open>HTTPState\<close>

text \<open>
  The counters, the files by path (references into a heap of files, since handles keep a file
  alive after it is erased from the map).
\<close>

record http_state =
  head_count :: nat
  get_count :: nat
  put_count :: nat
  post_count :: nat
  delete_count :: nat
  total_bytes_received :: nat
  total_bytes_sent :: nat
  cached_files :: "string \<rightharpoonup> nat"
  file_heap :: "cached_file list"

definition new_http_state :: http_state where
  "new_http_state = \<lparr>head_count = 0, get_count = 0, put_count = 0, post_count = 0,
     delete_count = 0, total_bytes_received = 0, total_bytes_sent = 0,
     cached_files = Map.empty, file_heap = []\<rparr>"

definition hs_Reset :: "http_state \<Rightarrow> http_state" where
  "hs_Reset st = st\<lparr>head_count := 0, get_count := 0, put_count := 0, post_count := 0,
     delete_count := 0, total_bytes_received := 0, total_bytes_sent := 0,
     cached_files := Map.empty\<rparr>"

definition hs_IsEmpty :: "http_state \<Rightarrow> bool" where
  "hs_IsEmpty st \<longleftrightarrow> head_count st = 0 \<and> get_count st = 0 \<and> put_count st = 0 \<and>
     post_count st = 0 \<and> delete_count st = 0 \<and> total_bytes_received st = 0 \<and>
     total_bytes_sent st = 0"

text \<open>GetCachedFile: find the entry of a path, or create an empty one.\<close>

definition hs_GetCachedFile :: "string \<Rightarrow> http_state \<Rightarrow> nat \<times> http_state" where
  "hs_GetCachedFile path st =
     (case cached_files st path of
        Some r \<Rightarrow> (r, st)
      | None \<Rightarrow> (length (file_heap st),
                 st\<lparr>cached_files := (cached_files st)(path \<mapsto> length (file_heap st)),
                    file_heap := file_heap st @ [new_cached_file]\<rparr>))"

definition hs_EraseCachedFile :: "string \<Rightarrow> http_state \<Rightarrow> http_state" where
  "hs_EraseCachedFile path st = st\<lparr>cached_files := (cached_files st)(path := None)\<rparr>"

definition hs_file :: "http_state \<Rightarrow> nat \<Rightarrow> cached_file" where
  "hs_file st r = (if r < length (file_heap st) then file_heap st ! r else new_cached_file)"

definition hs_set_file :: "nat \<Rightarrow> cached_file \<Rightarrow> http_state \<Rightarrow> http_state" where
  "hs_set_file r f st = st\<lparr>file_heap := (file_heap st)[r := f]\<rparr>"

text \<open>CachedFile::GetHandle: an uninitialised file is locked by the handle.\<close>

definition cf_GetHandle :: "nat \<Rightarrow> http_state \<Rightarrow> cached_handle" where
  "cf_GetHandle r st = \<lparr>ch_file = r, ch_lock = (\<not> cf_initialized (hs_file st r))\<rparr>"

text \<open>Every path has its own file.\<close>

definition hs_wf :: "http_state \<Rightarrow> bool" where
  "hs_wf st \<longleftrightarrow> (\<forall>r \<in> ran (cached_files st). r < length (file_heap st)) \<and>
     inj_on (cached_files st) (dom (cached_files st))"

lemma hs_wf_new: "hs_wf new_http_state"
  by (simp add: hs_wf_def new_http_state_def)

lemma hs_wf_Reset: "hs_wf (hs_Reset st)"
  by (simp add: hs_wf_def hs_Reset_def)

lemma hs_wf_Erase:
  assumes "hs_wf st"
  shows "hs_wf (hs_EraseCachedFile path st)"
proof -
  have "ran ((cached_files st)(path := None)) \<subseteq> ran (cached_files st)"
    by (auto simp: ran_def split: if_splits)
  with assms show ?thesis
    by (auto simp: hs_wf_def hs_EraseCachedFile_def inj_on_def dom_def)
qed

lemma hs_wf_set_file: "hs_wf st \<Longrightarrow> hs_wf (hs_set_file r f st)"
  by (simp add: hs_wf_def hs_set_file_def)

lemma hs_wf_GetCachedFile:
  assumes "hs_wf st"
  shows "hs_wf (snd (hs_GetCachedFile path st))"
proof (cases "cached_files st path")
  case None
  have "\<And>p r. cached_files st p = Some r \<Longrightarrow> r < length (file_heap st)"
    using assms by (auto simp: hs_wf_def ran_def)
  with assms None show ?thesis
    by (fastforce simp: hs_wf_def hs_GetCachedFile_def ran_def inj_on_def dom_def less_Suc_eq
        split: if_splits)
next
  case (Some r)
  with assms show ?thesis by (simp add: hs_GetCachedFile_def)
qed

lemma hs_GetCachedFile_bound:
  "hs_wf st \<Longrightarrow> hs_GetCachedFile path st = (r, st') \<Longrightarrow> r < length (file_heap st')"
  by (auto simp: hs_GetCachedFile_def hs_wf_def ran_def split: option.splits)

lemma hs_file_set_same [simp]: "r < length (file_heap st) \<Longrightarrow> hs_file (hs_set_file r f st) r = f"
  by (simp add: hs_file_def hs_set_file_def)

lemma cached_files_set_file [simp]: "cached_files (hs_set_file r f st) = cached_files st"
  by (simp add: hs_set_file_def)

lemma hs_file_set_other [simp]: "r \<noteq> q \<Longrightarrow> hs_file (hs_set_file r f st) q = hs_file st q"
  by (simp add: hs_file_def hs_set_file_def)

text \<open>A second lookup finds the same file and changes nothing.\<close>

lemma hs_GetCachedFile_again:
  "hs_GetCachedFile path st = (r, st') \<Longrightarrow> hs_GetCachedFile path st' = (r, st')"
  by (auto simp: hs_GetCachedFile_def split: option.splits)

text \<open>
  A download in chunks is their concatenation. Feeding any chunks to the content handler of a
  fresh cached file succeeds, the buffer then starts with the chunks in order, and a non-empty
  download leaves its total as the length: growing the buffer loses and reorders nothing.
\<close>

theorem download_is_concatenation:
  assumes "length (concat ds) \<le> 2 ^ 62"
  shows "\<exists>len' f. download_chunks ds len new_cached_file = Inr (len', f) \<and>
     take (length (concat ds)) (cf_data f) = concat ds \<and> \<not> cf_initialized f \<and>
     (concat ds \<noteq> [] \<longrightarrow> len' = length (concat ds))"
  using download_chunks_fresh [OF assms] by blast

theorem download_is_concatenation_witness:
  "\<exists>len' f. download_chunks [''ab'', ''cde'', ''f''] 77 new_cached_file = Inr (len', f) \<and>
     take 6 (cf_data f) = ''abcdef'' \<and> len' = 6"
proof -
  have "\<exists>len' f. download_chunks [''ab'', ''cde'', ''f''] 77 new_cached_file = Inr (len', f) \<and>
     take (length (concat [''ab'', ''cde'', ''f''])) (cf_data f) = concat [''ab'', ''cde'', ''f''] \<and>
     \<not> cf_initialized f \<and>
     (concat [''ab'', ''cde'', ''f''] \<noteq> [] \<longrightarrow> len' = length (concat [''ab'', ''cde'', ''f'']))"
    by (rule download_is_concatenation) simp
  moreover have "concat [''ab'', ''cde'', ''f''] = ''abcdef''" by simp
  moreover have "length ''abcdef'' = 6" by simp
  ultimately show ?thesis by (elim exE conjE) (simp add: eval_nat_numeral)
qed

end
