(* ===== verification/HttpHandle.thy ===== *)
theory HttpHandle
  imports HttpParams ClientCache MetadataCache HttpState
begin

text \<open>
  The state of an open remote file: the handle (HTTPFileHandle in src/include/httpfs.hpp), the
  state it shares with others (the HTTPState it uses and the metadata caches), and the environment
  the model runs in (the transport and DuckDB functions), with the handle's constructor, its
  client handling and its cache entry (src/httpfs.cpp).
\<close>

section \<open>Flags, file information and the environment\<close>

record open_flags =
  of_read :: bool
  of_write :: bool
  of_append :: bool
  of_create :: bool
  of_overwrite :: bool
  of_null_if_not_exists :: bool
  of_direct_io :: bool
  of_parallel :: bool

text \<open>OpenFileInfo with the extended options the constructor looks up.\<close>

record ext_info =
  xi_last_modified :: "int option"
  xi_etag :: "string option"
  xi_file_size :: "nat option"
  xi_force_full_download :: "bool option"
  xi_s3_region :: "string option"

record file_info =
  fi_path :: string
  fi_ext :: "ext_info option"

text \<open>
  The environment: the transport, how HTTPUtil wraps an exception into a response for a
  try_request (err_response) and reads it back (ErrorData), date formatting and parsing, the
  client made for a new connection, the time a request took, and the status messages.
\<close>

record env =
  e_net :: transport
  e_err_response :: "exn \<Rightarrow> response"
  e_error_data :: "string \<Rightarrow> exn"
  e_http_date :: "int \<Rightarrow> string"
  e_parse_date :: "string \<Rightarrow> int option"
  e_new_client :: "nat \<Rightarrow> client"
  e_elapsed :: "nat \<Rightarrow> nat"

section \<open>The handle and the world\<close>

record range_stat =
  rs_offset :: nat
  rs_length :: nat
  rs_duration :: nat

record hfh =
  h_path :: string
  h_params :: httpfs_params
  h_flags :: open_flags
  h_length :: nat
  h_last_modified :: int
  h_etag :: string
  h_version_id :: string
  h_force_full_download :: bool
  h_initialized :: bool
  h_auto_fallback :: bool
  h_write_overwrite_mode :: bool
  h_cached_file :: "cached_handle option"
  buffer_available :: nat
  buffer_idx :: nat
  file_offset :: nat
  buffer_start :: nat
  buffer_end :: nat
  read_buffer :: bytes
  range_request_statistics :: "range_stat list"
  h_clients :: client_cache

text \<open>
  w_http is the HTTPState the handle uses; w_cache the file system's global metadata cache (None
  before its first use), w_ctx_cache the client context's; w_clock counts the requests sent, and
  w_secrets the changes to the secret manager's secrets.
\<close>

record world =
  w_http :: http_state
  w_cache :: "metadata_cache option"
  w_ctx_cache :: metadata_cache
  w_clock :: nat
  w_secrets :: nat

definition SkipBuffer :: "'a hfh_scheme \<Rightarrow> bool" where
  "SkipBuffer h \<longleftrightarrow> of_direct_io (h_flags h) \<or> of_parallel (h_flags h)"

definition INITIAL_READ_BUFFER_LEN :: nat where
  "INITIAL_READ_BUFFER_LEN = 1048576"

definition MAXIMUM_READ_BUFFER_LEN :: nat where
  "MAXIMUM_READ_BUFFER_LEN = 33554432"

text \<open>HTTPFileHandle's constructor.\<close>

definition new_handle :: "file_info \<Rightarrow> open_flags \<Rightarrow> httpfs_params \<Rightarrow> hfh" where
  "new_handle file fl p =
     (let h = \<lparr>h_path = fi_path file, h_params = p, h_flags = fl, h_length = 0,
               h_last_modified = 0, h_etag = '''', h_version_id = '''',
               h_force_full_download = False, h_initialized = False, h_auto_fallback = True,
               h_write_overwrite_mode = False, h_cached_file = None, buffer_available = 0,
               buffer_idx = 0, file_offset = 0, buffer_start = 0, buffer_end = 0,
               read_buffer = [], range_request_statistics = [], h_clients = empty_client_cache\<rparr>
      in case fi_ext file of
           None \<Rightarrow> h
         | Some info \<Rightarrow>
             (let h1 = set_if (xi_last_modified info) (\<lambda>x h. h\<lparr>h_last_modified := x\<rparr>) h;
                  h2 = set_if (xi_etag info) (\<lambda>x h. h\<lparr>h_etag := x\<rparr>) h1;
                  h3 = set_if (xi_file_size info) (\<lambda>x h. h\<lparr>h_length := x\<rparr>) h2;
                  h4 = set_if (xi_force_full_download info)
                         (\<lambda>x h. h\<lparr>h_force_full_download := x\<rparr>) h3
              in if xi_last_modified info \<noteq> None \<and> xi_etag info \<noteq> None
                    \<and> xi_file_size info \<noteq> None
                 then h4\<lparr>h_initialized := True\<rparr> else h4))"

text \<open>GetClient tries the handle's cache and makes a client otherwise; StoreClient.\<close>

definition h_GetClient :: "env \<Rightarrow> 'a hfh_scheme \<Rightarrow> world \<Rightarrow> client \<times> 'a hfh_scheme" where
  "h_GetClient e h w =
     (case GetClient (h_clients h) of
        (Some c, cc) \<Rightarrow> (c, h\<lparr>h_clients := cc\<rparr>)
      | (None, cc) \<Rightarrow> (e_new_client e (w_clock w), h\<lparr>h_clients := cc\<rparr>))"

definition h_StoreClient :: "client option \<Rightarrow> 'a hfh_scheme \<Rightarrow> 'a hfh_scheme" where
  "h_StoreClient cl h = h\<lparr>h_clients := StoreClient cl (h_clients h)\<rparr>"

definition AddStatistics :: "nat \<Rightarrow> nat \<Rightarrow> nat \<Rightarrow> 'a hfh_scheme \<Rightarrow> 'a hfh_scheme" where
  "AddStatistics off len dur h =
     h\<lparr>range_request_statistics := range_request_statistics h @
        [\<lparr>rs_offset = off, rs_length = len, rs_duration = dur\<rparr>]\<rparr>"

definition InitializeFromCacheEntry :: "md_entry \<Rightarrow> 'a hfh_scheme \<Rightarrow> 'a hfh_scheme" where
  "InitializeFromCacheEntry ce h =
     h\<lparr>h_last_modified := md_last_modified ce, h_length := md_length ce,
       h_etag := md_etag ce, h_version_id := md_version_id ce\<rparr>"

definition GetCacheEntry :: "'a hfh_scheme \<Rightarrow> md_entry" where
  "GetCacheEntry h =
     \<lparr>md_length = h_length h, md_last_modified = h_last_modified h, md_etag = h_etag h,
      md_version_id = h_version_id h, md_properties = Map.empty\<rparr>"

text \<open>Drop the global cache's entry for a path, where the cache exists.\<close>

definition erase_global :: "string \<Rightarrow> world \<Rightarrow> world" where
  "erase_global path w = w\<lparr>w_cache := map_option (md_Erase path) (w_cache w)\<rparr>"

definition tick :: "world \<Rightarrow> world" where
  "tick w = w\<lparr>w_clock := Suc (w_clock w)\<rparr>"

text \<open>A cache entry carries the four values over to another handle.\<close>

lemma cache_entry_roundtrip:
  "let h' = InitializeFromCacheEntry (GetCacheEntry h) g in
   h_length h' = h_length h \<and> h_last_modified h' = h_last_modified h \<and>
   h_etag h' = h_etag h \<and> h_version_id h' = h_version_id h"
  by (simp add: InitializeFromCacheEntry_def GetCacheEntry_def Let_def)

lemma new_handle_initialized:
  "h_initialized (new_handle file fl p) \<longleftrightarrow>
     (\<exists>info. fi_ext file = Some info \<and> xi_last_modified info \<noteq> None \<and> xi_etag info \<noteq> None
        \<and> xi_file_size info \<noteq> None)"
  by (auto simp: new_handle_def Let_def set_if_def split: option.splits)

end
