(* ===== verification/HttpRequests.thy ===== *)
theory HttpRequests
  imports HttpHandle
begin

text \<open>
  The requests of HTTPFileSystem (src/httpfs.cpp): the conditional-read preconditions, the
  runners RunHeadRequest, RunDeleteRequest, RunPostRequest, RunPutRequest, RunGetRequest and
  RunGetRangeRequest with their response and content handlers, and the request methods of the
  file system over them.
\<close>

section \<open>Headers and preconditions\<close>

definition AddUserAgentIfAvailable :: "httpfs_params \<Rightarrow> headers \<Rightarrow> headers" where
  "AddUserAgentIfAvailable p hm =
     (if user_agent p \<noteq> '''' then hm @ [HInsert ''User-Agent'' (user_agent p)] else hm)"

definition AddHandleHeaders :: "httpfs_params \<Rightarrow> headers \<Rightarrow> httpfs_params \<times> headers" where
  "AddHandleHeaders p hm =
     (p\<lparr>pre_merged_headers := True\<rparr>, hm @ map (\<lambda>(k, v). HSet k v) (extra_headers p))"

definition IsStrongEtag :: "string \<Rightarrow> bool" where
  "IsStrongEtag etag \<longleftrightarrow>
     2 \<le> length etag \<and> \<not> (etag ! 0 = CHR ''W'' \<and> etag ! 1 = CHR ''/'')"

definition AddConsistencyPreconditions :: "env \<Rightarrow> 'a hfh_scheme \<Rightarrow> headers \<Rightarrow> bool \<times> headers" where
  "AddConsistencyPreconditions e h hm =
     (if unsafe_disable_etag_checks (h_params h) then (False, hm)
      else if IsStrongEtag (h_etag h) then (True, hm @ [HInsert ''If-Match'' (h_etag h)])
      else if 0 < h_last_modified h
      then (True, hm @ [HInsert ''If-Unmodified-Since'' (e_http_date e (h_last_modified h))])
      else (False, hm))"

definition StripETagQuotes :: "string \<Rightarrow> string" where
  "StripETagQuotes etag =
     (if 2 \<le> length etag \<and> hd etag = CHR 0x22 \<and> last etag = CHR 0x22
      then substr etag 1 (length etag - 2) else etag)"

text \<open>A 412 for a precondition we sent means the file changed: drop its cached metadata.\<close>

definition MakeConsistencyAwareError ::
    "response \<Rightarrow> bool \<Rightarrow> string \<Rightarrow> (response \<Rightarrow> exn) \<Rightarrow> world \<Rightarrow> exn \<times> world" where
  "MakeConsistencyAwareError r sent_precondition path base_error w =
     (if sent_precondition \<and> status r = PreconditionFailed_412
      then (Exn ExHTTP ''Remote file appears to have changed'' (Some r), erase_global path w)
      else (base_error r, w))"

definition GetHTTPError :: "response \<Rightarrow> string \<Rightarrow> exn" where
  "GetHTTPError r url =
     Exn ExHTTP (''HTTP GET error on '' @ url @
       (if status r = RangeNotSatisfiable_416
        then ''. This could mean the file was changed'' else [])) (Some r)"

section \<open>Runners without handlers\<close>

definition base_request :: "rq_method \<Rightarrow> string \<Rightarrow> headers \<Rightarrow> httpfs_params \<Rightarrow> http_request" where
  "base_request m url hm p =
     \<lparr>rq_method = m, rq_url = url, rq_headers = hm, rq_body = [], rq_content_type = [],
      rq_try = False, rq_cancellation = interrupt_flag p\<rparr>"

text \<open>The outcome of a request no handler is attached to.\<close>

definition plain_outcome :: "transfer \<Rightarrow> exn + response option" where
  "plain_outcome tr =
     (if attempts tr = [] then Inr None else at_outcome (last (attempts tr)))"

definition RunHeadRequest ::
    "string \<Rightarrow> headers \<Rightarrow> httpfs_params \<Rightarrow> (http_request \<Rightarrow> transfer) \<Rightarrow> transfer" where
  "RunHeadRequest url hm p send = send (base_request HEAD url hm p)"

definition RunDeleteRequest ::
    "string \<Rightarrow> headers \<Rightarrow> httpfs_params \<Rightarrow> (http_request \<Rightarrow> transfer) \<Rightarrow> transfer" where
  "RunDeleteRequest url hm p send = send (base_request DELETE url hm p)"

definition RunPutRequest :: "string \<Rightarrow> headers \<Rightarrow> httpfs_params \<Rightarrow> bytes \<Rightarrow> string \<Rightarrow>
    (http_request \<Rightarrow> transfer) \<Rightarrow> transfer" where
  "RunPutRequest url hm p buffer_in content_type send =
     send ((base_request PUT url hm p)\<lparr>rq_body := buffer_in, rq_content_type := content_type\<rparr>)"

text \<open>RunPostRequest also hands back the buffer the client filled (PostRequestInfo::buffer_out).\<close>

definition RunPostRequest :: "string \<Rightarrow> headers \<Rightarrow> httpfs_params \<Rightarrow> bytes \<Rightarrow>
    (http_request \<Rightarrow> transfer \<times> bytes) \<Rightarrow> transfer \<times> bytes" where
  "RunPostRequest url hm p buffer_in send = send ((base_request POST url hm p)\<lparr>rq_body := buffer_in\<rparr>)"

section \<open>RunGetRequest: the full download\<close>

text \<open>Pin the version of the first response that names one.\<close>

definition pin_version :: "httpfs_params \<Rightarrow> response \<Rightarrow> 'a hfh_scheme \<Rightarrow> 'a hfh_scheme" where
  "pin_version p r h =
     (if s3_version_id_pinning p \<and> has_header r ''x-amz-version-id'' \<and> h_version_id h = ''''
      then h\<lparr>h_version_id := header_value r ''x-amz-version-id''\<rparr> else h)"

definition get_response_handler ::
    "httpfs_params \<Rightarrow> ('a hfh_scheme \<times> world, response) handler" where
  "get_response_handler p r s =
     (if 400 \<le> status r then (None, s) else (None, (pin_version p r (fst s), snd s)))"

definition get_content_handler :: "('a hfh_scheme \<times> world, bytes) handler" where
  "get_content_handler data s =
     (case h_cached_file (fst s) of
        None \<Rightarrow> (Some (Exn Undefined ''no cached file handle'' None), s)
      | Some ch \<Rightarrow>
          (case download_chunk data (h_length (fst s)) (hs_file (w_http (snd s)) (ch_file ch)) of
             Inl ex \<Rightarrow> (Some ex, s)
           | Inr (len, f) \<Rightarrow>
               (None, ((fst s)\<lparr>h_length := len\<rparr>,
                       (snd s)\<lparr>w_http := hs_set_file (ch_file ch) f (w_http (snd s))\<rparr>))))"

text \<open>
  The last component is the client left in the caller's slot, for the caller to keep; None when the
  request threw, since the caller then never gets to keep it.
\<close>

definition RunGetRequest :: "env \<Rightarrow> string \<Rightarrow> headers \<Rightarrow> httpfs_params \<Rightarrow>
    (response \<Rightarrow> world \<Rightarrow> exn \<times> world) \<Rightarrow> (http_request \<Rightarrow> transfer) \<Rightarrow> 'a hfh_scheme \<times> world \<Rightarrow>
    (exn + response option) \<times> 'a hfh_scheme \<times> world \<times> client option" where
  "RunGetRequest e url hm p get_error send s =
     (let tr = send (base_request GET url hm p)
      in case run_transfer (e_err_response e) False (get_response_handler p)
              get_content_handler (attempts tr) s of
           (Inl ex, (h, w)) \<Rightarrow> (Inl ex, h, w, None)
         | (Inr None, (h, w)) \<Rightarrow> (Inr None, h, w, client_after tr)
         | (Inr (Some r), (h, w)) \<Rightarrow>
             (if \<not> has_request_error r \<and> 400 \<le> status r
              then (case get_error r w of (ex, w') \<Rightarrow> (Inl ex, h, w', client_after tr))
              else (Inr (Some r), h, w, client_after tr)))"

section \<open>RunGetRangeRequest: one range into a buffer\<close>

definition RANGE_NOT_SUPPORTED :: exn where
  "RANGE_NOT_SUPPORTED =
     Exn ExHTTP
       (''Content-Length from server mismatches requested range, server may not support range requests. '' @
        ''You can try to resolve this by enabling `SET force_download=true`'') None"

text \<open>The Range header value; both bounds are computed modulo 2^64.\<close>

definition range_expr :: "nat \<Rightarrow> nat \<Rightarrow> string" where
  "range_expr off len =
     ''bytes='' @ to_string off @ ''-'' @ to_string (sub64 (add64 off len) 1)"

record 'h range_state =
  rr_h :: 'h
  rr_w :: world
  rr_dst :: "bytes option"
  rr_out :: nat

definition etag_mismatch :: "httpfs_params \<Rightarrow> string \<Rightarrow> response \<Rightarrow> bool" where
  "etag_mismatch p etag r \<longleftrightarrow>
     \<not> unsafe_disable_etag_checks p \<and> etag \<noteq> '''' \<and> has_header r ''ETag'' \<and>
     header_value r ''ETag'' \<noteq> '''' \<and>
     StripETagQuotes (header_value r ''ETag'') \<noteq> StripETagQuotes etag"

definition range_response_handler ::
    "httpfs_params \<Rightarrow> string \<Rightarrow> nat \<Rightarrow> ('a hfh_scheme range_state, response) handler" where
  "range_response_handler p etag len r s =
     (if 400 \<le> status r then (None, s)
      else if status r < 300 then
        (let s1 = s\<lparr>rr_out := 0\<rparr>
         in if etag_mismatch p etag r
            then (Some (Exn ExHTTP ''ETag on reading file'' (Some r)),
                  s1\<lparr>rr_w := erase_global (h_path (rr_h s)) (rr_w s)\<rparr>)
            else
              (let s2 = s1\<lparr>rr_h := pin_version p r (rr_h s1)\<rparr>
               in case (if has_header r ''Content-Length''
                        then stoull (header_value r ''Content-Length'') else None) of
                    Some n \<Rightarrow> if n \<noteq> len then (Some RANGE_NOT_SUPPORTED, s2) else (None, s2)
                  | None \<Rightarrow> (None, s2)))
      else (None, s))"

definition range_content_handler :: "nat \<Rightarrow> ('a hfh_scheme range_state, bytes) handler" where
  "range_content_handler len data s =
     (case rr_dst s of
        None \<Rightarrow> (None, s)
      | Some dst \<Rightarrow>
          (if len < length data + rr_out s
           then (Some (Exn ExHTTP ''Server sent back more data than expected'' None), s)
           else if length dst < rr_out s + length data
           then (Some (Exn Undefined ''write outside the buffer'' None), s)
           else (None, s\<lparr>rr_dst := Some (overwrite dst (rr_out s) data),
                         rr_out := rr_out s + length data\<rparr>)))"

definition RunGetRangeRequest :: "env \<Rightarrow> string \<Rightarrow> headers \<Rightarrow> httpfs_params \<Rightarrow> string \<Rightarrow> bool \<Rightarrow>
    nat \<Rightarrow> bytes option \<Rightarrow> nat \<Rightarrow> (response \<Rightarrow> world \<Rightarrow> exn \<times> world) \<Rightarrow>
    (http_request \<Rightarrow> transfer) \<Rightarrow> 'a hfh_scheme \<Rightarrow> world \<Rightarrow>
    (exn + response option) \<times> 'a hfh_scheme range_state \<times> client option" where
  "RunGetRangeRequest e url hm p etag auto_fallback off dst len get_error send h w =
     (let rq = (base_request GET url (hm @ [HInsert ''Range'' (range_expr off len)]) p)
                 \<lparr>rq_try := auto_fallback\<rparr>;
          tr = send rq;
          s0 = \<lparr>rr_h = h, rr_w = w, rr_dst = dst, rr_out = 0\<rparr>
      in case run_transfer (e_err_response e) auto_fallback (range_response_handler p etag len)
              (range_content_handler len) (attempts tr) s0 of
           (Inl ex, s) \<Rightarrow> (Inl ex, s, None)
         | (Inr None, s) \<Rightarrow> (Inr None, s, client_after tr)
         | (Inr (Some r), s) \<Rightarrow>
             (if \<not> has_request_error r \<and> 400 \<le> status r
              then (case get_error r (rr_w s) of (ex, w') \<Rightarrow> (Inl ex, s\<lparr>rr_w := w'\<rparr>, client_after tr))
              else if \<not> has_request_error r \<and> success r \<and> dst \<noteq> None \<and> rr_out s \<noteq> len
              then (Inl (Exn ExIO ''Short read for HTTP GET'' None), s, client_after tr)
              else (Inr (Some r), s, client_after tr)))"

section \<open>The request methods of HTTPFileSystem\<close>

definition HeadRequest :: "env \<Rightarrow> string \<Rightarrow> headers \<Rightarrow> 'a hfh_scheme \<Rightarrow> world \<Rightarrow>
    (exn + response option) \<times> 'a hfh_scheme \<times> world" where
  "HeadRequest e url hm h w =
     (let hm1 = AddUserAgentIfAvailable (h_params h) hm;
          (p, hm2) = AddHandleHeaders (h_params h) hm1;
          h1 = h\<lparr>h_params := p\<rparr>;
          (sent, hm3) = AddConsistencyPreconditions e h1 hm2;
          (cl, h2) = h_GetClient e h1 w;
          tr = RunHeadRequest url hm3 p (\<lambda>rq. e_net e (w_clock w) rq (Some cl));
          w1 = tick w
      in case plain_outcome tr of
           Inl ex \<Rightarrow> (Inl ex, h2, w1)
         | Inr ro \<Rightarrow>
             (let h3 = h_StoreClient (client_after tr) h2
              in case ro of
                   None \<Rightarrow> (Inr None, h3, w1)
                 | Some r \<Rightarrow>
                     (if sent \<and> status r = PreconditionFailed_412
                      then (Inl (Exn ExHTTP ''Remote file appears to have changed'' (Some r)),
                            h3, erase_global (h_path h) w1)
                      else (Inr (Some r), h3, w1))))"

definition DeleteRequest :: "env \<Rightarrow> string \<Rightarrow> headers \<Rightarrow> 'a hfh_scheme \<Rightarrow> world \<Rightarrow>
    (exn + response option) \<times> 'a hfh_scheme \<times> world" where
  "DeleteRequest e url hm h w =
     (let hm1 = AddUserAgentIfAvailable (h_params h) hm;
          (p, hm2) = AddHandleHeaders (h_params h) hm1;
          h1 = h\<lparr>h_params := p\<rparr>;
          (cl, h2) = h_GetClient e h1 w;
          tr = RunDeleteRequest url hm2 p (\<lambda>rq. e_net e (w_clock w) rq (Some cl))
      in case plain_outcome tr of
           Inl ex \<Rightarrow> (Inl ex, h2, tick w)
         | Inr r \<Rightarrow> (Inr r, h_StoreClient (client_after tr) h2, tick w))"

definition GetRequest :: "env \<Rightarrow> string \<Rightarrow> headers \<Rightarrow> 'a hfh_scheme \<Rightarrow> world \<Rightarrow>
    (exn + response option) \<times> 'a hfh_scheme \<times> world" where
  "GetRequest e url hm h w =
     (let hm1 = AddUserAgentIfAvailable (h_params h) hm;
          (p, hm2) = AddHandleHeaders (h_params h) hm1;
          h1 = h\<lparr>h_params := p\<rparr>;
          (sent, hm3) = AddConsistencyPreconditions e h1 hm2;
          (cl, h2) = h_GetClient e h1 w
      in case RunGetRequest e url hm3 p
                (\<lambda>r w. MakeConsistencyAwareError r sent (h_path h) (\<lambda>r. GetHTTPError r url) w)
                (\<lambda>rq. e_net e (w_clock w) rq (Some cl)) (h2, tick w) of
           (Inl ex, h3, w3, _) \<Rightarrow> (Inl ex, h3, w3)
         | (Inr r, h3, w3, cl') \<Rightarrow> (Inr r, h_StoreClient cl' h3, w3))"

definition GetRangeRequest :: "env \<Rightarrow> string \<Rightarrow> headers \<Rightarrow> nat \<Rightarrow> bytes option \<Rightarrow> nat \<Rightarrow>
    'a hfh_scheme \<Rightarrow> world \<Rightarrow> (exn + response option) \<times> bytes option \<times> 'a hfh_scheme \<times> world" where
  "GetRangeRequest e url hm off dst len h w =
     (let hm1 = AddUserAgentIfAvailable (h_params h) hm;
          (p, hm2) = AddHandleHeaders (h_params h) hm1;
          h1 = h\<lparr>h_params := p\<rparr>;
          (sent, hm3) = AddConsistencyPreconditions e h1 hm2;
          (cl, h2) = h_GetClient e h1 w
      in case RunGetRangeRequest e url hm3 p (h_etag h) (h_auto_fallback h) off dst len
                (\<lambda>r w. MakeConsistencyAwareError r sent (h_path h) (\<lambda>r. GetHTTPError r url) w)
                (\<lambda>rq. e_net e (w_clock w) rq (Some cl)) h2 (tick w) of
           (Inl ex, s, _) \<Rightarrow> (Inl ex, rr_dst s, rr_h s, rr_w s)
         | (Inr r, s, cl') \<Rightarrow> (Inr r, rr_dst s, h_StoreClient cl' (rr_h s), rr_w s))"

text \<open>
  PostRequest and PutRequest work on an HTTPInput, its parameters and no client; the client
  fills the output buffer of a POST.
\<close>

definition PostRequest :: "(http_request \<Rightarrow> transfer \<times> bytes) \<Rightarrow> string \<Rightarrow> headers \<Rightarrow> bytes \<Rightarrow>
    httpfs_params \<Rightarrow> (exn + response option) \<times> bytes \<times> httpfs_params" where
  "PostRequest send url hm buffer_in p =
     (let hm1 = AddUserAgentIfAvailable p hm;
          (p', hm2) = AddHandleHeaders p hm1;
          (tr, out) = RunPostRequest url hm2 p' buffer_in send
      in (plain_outcome tr, out, p'))"

definition PutRequest :: "(http_request \<Rightarrow> transfer) \<Rightarrow> string \<Rightarrow> headers \<Rightarrow> bytes \<Rightarrow>
    httpfs_params \<Rightarrow> (exn + response option) \<times> httpfs_params" where
  "PutRequest send url hm buffer_in p =
     (let hm1 = AddUserAgentIfAvailable p hm;
          (p', hm2) = AddHandleHeaders p hm1
      in (plain_outcome (RunPutRequest url hm2 p' buffer_in ''application/octet-stream'' send), p'))"


section \<open>What a range request leaves in the buffer\<close>

text \<open>
  The invariant of the two handlers: the buffer keeps its size and its bytes from len on, and the
  write position stays within len.
\<close>

definition range_inv :: "bytes \<Rightarrow> nat \<Rightarrow> 'h range_state \<Rightarrow> bool" where
  "range_inv d len s \<longleftrightarrow> (\<exists>d'. rr_dst s = Some d' \<and> length d' = length d \<and> drop len d' = drop len d)
     \<and> rr_out s \<le> len"

lemma range_inv_response:
  "range_inv d len s \<Longrightarrow> range_inv d len (snd (range_response_handler p etag n r s))"
  by (auto simp: range_inv_def range_response_handler_def Let_def split: option.splits)

lemma drop_overwrite:
  assumes "off + length src \<le> n" and "off + length src \<le> length dst"
  shows "drop n (overwrite dst off src) = drop n dst"
proof -
  have "n = (off + length src) + (n - (off + length src))" using assms(1) by simp
  then show ?thesis using assms(2) by (simp add: overwrite_def min_def)
qed

lemma range_inv_content:
  "range_inv d len s \<Longrightarrow> len \<le> length d \<Longrightarrow> range_inv d len (snd (range_content_handler len data s))"
  by (auto simp: range_inv_def range_content_handler_def drop_overwrite)

lemma range_inv_attempts:
  assumes "len \<le> length d" and "range_inv d len s"
  shows "range_inv d len
     (snd (run_attempts (range_response_handler p etag n) (range_content_handler len) as s))"
  by (rule run_attempts_inv [where I = "range_inv d len"])
    (simp_all add: assms range_inv_response range_inv_content)

text \<open>A run of body chunks after a response head writes their concatenation at the start.\<close>

lemma run_data_exact:
  assumes "range_inv d len s" and "len \<le> length d" and "rr_dst s = Some d'"
    and "take (rr_out s) d' = got" and "length got = rr_out s"
    and "run_events (range_response_handler p etag n) (range_content_handler len) (map Data ds) s
         = (None, s')"
  shows "\<exists>d''. rr_dst s' = Some d'' \<and> take (rr_out s') d'' = got @ concat ds \<and>
           rr_out s' = length (got @ concat ds) \<and> length d'' = length d \<and> drop len d'' = drop len d"
  using assms
proof (induction ds arbitrary: s d' got)
  case Nil
  then show ?case by (auto simp: range_inv_def)
next
  case (Cons x ds)
  let ?c = "range_content_handler len x s"
  have fits: "length x + rr_out s \<le> len" "rr_out s + length x \<le> length d'"
    using Cons.prems by (auto simp: range_content_handler_def range_inv_def split: if_splits prod.splits)
  have len_d': "length d' = length d" using Cons.prems(1,3) by (simp add: range_inv_def)
  let ?s1 = "s\<lparr>rr_dst := Some (overwrite d' (rr_out s) x), rr_out := rr_out s + length x\<rparr>"
  have c: "?c = (None, ?s1)" using fits Cons.prems(3) by (simp add: range_content_handler_def)
  have inv: "range_inv d len ?s1"
    using range_inv_content [OF Cons.prems(1,2), of x] c by simp
  have tk: "take (rr_out ?s1) (overwrite d' (rr_out s) x) = got @ x"
    using Cons.prems(4) fits by (simp add: take_overwrite_upto)
  have "\<exists>d''. rr_dst s' = Some d'' \<and> take (rr_out s') d'' = (got @ x) @ concat ds \<and>
           rr_out s' = length ((got @ x) @ concat ds) \<and> length d'' = length d \<and> drop len d'' = drop len d"
    by (rule Cons.IH [OF inv Cons.prems(2) _ tk]) (use Cons.prems(5,6) c in auto)
  then show ?case by simp
qed

lemma run_transfer_Inr_False:
  "run_transfer er try rh ch as s = (Inr ro, s') \<Longrightarrow>
   run_attempts rh ch as s = (Inr ro, s') \<or>
   (try \<and> (\<exists>ex. run_attempts rh ch as s = (Inl ex, s') \<and> ro = Some (er ex)))"
  by (auto simp: run_transfer_def split: prod.splits sum.splits if_splits)

lemma range_response_resets:
  assumes "range_response_handler p etag n r s = (None, s')" and "status r < 300"
  shows "rr_out s' = 0 \<and> rr_dst s' = rr_dst s"
  using assms by (auto simp: range_response_handler_def Let_def split: if_splits option.splits)

lemma last_attempt_exact:
  assumes inv: "range_inv d len s" and len: "len \<le> length d" and head: "status rh < 300"
    and run: "run_attempt (range_response_handler p etag n) (range_content_handler len)
       (Attempt (pre @ RespHead rh # map Data ds) oc) s = (Inr ro, s')"
  shows "rr_out s' = length (concat ds) \<and> rr_dst s' = Some (overwrite d 0 (concat ds @ drop (length (concat ds)) (take len (the (rr_dst s')))))"
proof -
  let ?rh = "range_response_handler p etag n" and ?ch = "range_content_handler len"
  from run have ev: "run_events ?rh ?ch (pre @ RespHead rh # map Data ds) s = (None, s')"
    by (auto simp: run_attempt_def split: prod.splits option.splits)
  then obtain s2 where pre: "run_events ?rh ?ch pre s = (None, s2)"
    and rest: "run_events ?rh ?ch (RespHead rh # map Data ds) s2 = (None, s')"
    by (auto simp: run_events_append split: prod.splits option.splits)
  from rest obtain s3 where h: "?rh rh s2 = (None, s3)"
    and data: "run_events ?rh ?ch (map Data ds) s3 = (None, s')"
    by (auto split: prod.splits option.splits)
  have inv2: "range_inv d len s2"
    using run_events_inv [of "range_inv d len" ?rh ?ch s pre] range_inv_response
      range_inv_content [OF _ len] inv pre by fastforce
  have inv3: "range_inv d len s3" using range_inv_response [OF inv2, of p etag n rh] h by simp
  have r: "rr_out s3 = 0" using range_response_resets [OF h head] by simp
  obtain d' where d': "rr_dst s3 = Some d'" using inv3 by (auto simp: range_inv_def)
  obtain d'' where d'': "rr_dst s' = Some d''" "take (rr_out s') d'' = concat ds"
      "rr_out s' = length (concat ds)" "length d'' = length d" "drop len d'' = drop len d"
    using run_data_exact [OF inv3 len d' _ _ data, of "[]"] r by auto
  have "range_inv d len s'"
    using run_events_inv [of "range_inv d len" ?rh ?ch s3 "map Data ds"] range_inv_response
      range_inv_content [OF _ len] inv3 data by fastforce
  then have le: "length (concat ds) \<le> len" using d''(3) by (simp add: range_inv_def)
  have "d'' = take len d'' @ drop len d''" by simp
  also have "take len d'' = concat ds @ drop (length (concat ds)) (take len d'')"
    using d''(2,3) le by (metis append_take_drop_id min.absorb1 take_take)
  finally have "d'' = (concat ds @ drop (length (concat ds)) (take len d'')) @ drop len d"
    using d''(5) by simp
  moreover have "length (concat ds @ drop (length (concat ds)) (take len d'')) = len"
    using le len d''(4) by simp
  ultimately have "d'' = overwrite d 0 (concat ds @ drop (length (concat ds)) (take len d''))"
    by (simp add: overwrite_def)
  then show ?thesis using d'' by simp
qed

text \<open>
  The request as a whole: when it reports success, the buffer holds exactly the body of the last
  response, whatever earlier attempts or redirects wrote, and nothing behind it changed.
\<close>

lemma RunGetRangeRequest_complete:
  assumes ok: "RunGetRangeRequest e url hm p etag auto off (Some d) len ge send h w
        = (Inr (Some r), s, cl)"
    and no_err: "\<not> has_request_error r" "success r" and len: "len \<le> length d"
    and er: "\<And>ex. has_request_error (e_err_response e ex)"
    and last: "attempts (send ((base_request GET url (hm @ [HInsert ''Range'' (range_expr off len)]) p)
        \<lparr>rq_try := auto\<rparr>)) = as @ [Attempt (pre @ RespHead rh # map Data ds) oc]"
    and head: "status rh < 300"
  shows "length (concat ds) = len \<and> rr_dst s = Some (overwrite d 0 (concat ds))"
proof -
  let ?rh = "range_response_handler p etag len :: ('a hfh_scheme range_state, response) handler"
  let ?ch = "range_content_handler len :: ('a hfh_scheme range_state, bytes) handler"
  let ?s0 = "\<lparr>rr_h = h, rr_w = w, rr_dst = Some d, rr_out = 0\<rparr>"
  let ?a = "Attempt (pre @ RespHead rh # map Data ds) oc"
  from ok no_err last have "run_transfer (e_err_response e) auto ?rh ?ch (as @ [?a]) ?s0 = (Inr (Some r), s)"
    and out: "rr_out s = len"
    by (auto simp: RunGetRangeRequest_def Let_def split: prod.splits sum.splits option.splits if_splits)
  with no_err er have "run_attempts ?rh ?ch (as @ [?a]) ?s0 = (Inr (Some r), s)"
    using run_transfer_Inr_False by fastforce
  then have run: "run_attempt ?rh ?ch ?a (snd (run_attempts ?rh ?ch as ?s0)) = (Inr (Some r), s)"
    by (simp add: run_attempts_append_last)
  have "range_inv d len (snd (run_attempts ?rh ?ch as ?s0))"
    by (rule range_inv_attempts [OF len]) (simp add: range_inv_def)
  from last_attempt_exact [OF this len head run]
  have n: "rr_out s = length (concat ds)"
    and d: "rr_dst s = Some (overwrite d 0
      (concat ds @ drop (length (concat ds)) (take len (the (rr_dst s)))))" by blast+
  from n out have "length (concat ds) = len" by simp
  moreover have "drop len (take len (the (rr_dst s))) = []" by simp
  ultimately show ?thesis using d by simp
qed

end
