(* ===== verification/HttpRead.thy ===== *)
theory HttpRead
  imports HttpRequests
begin

text \<open>
  Reading a remote file (src/httpfs.cpp): one range request with its verdict (TryRangeRequest), the
  buffered read (ReadInternal), the full download it falls back to (FullDownload), and the read,
  write and seek operations of HTTPFileSystem.
\<close>

section \<open>The virtual operations\<close>

text \<open>
  The operations HTTPFileSystem and HTTPFileHandle declare virtual and these functions call; the
  S3 file system overrides them.
\<close>

record 'h fs_ops =
  fs_Head :: "string \<Rightarrow> 'h \<Rightarrow> world \<Rightarrow> (exn + response option) \<times> 'h \<times> world"
  fs_Get :: "string \<Rightarrow> 'h \<Rightarrow> world \<Rightarrow> (exn + response option) \<times> 'h \<times> world"
  fs_GetRange :: "string \<Rightarrow> nat \<Rightarrow> bytes option \<Rightarrow> nat \<Rightarrow> 'h \<Rightarrow> world \<Rightarrow>
      (exn + response option) \<times> bytes option \<times> 'h \<times> world"
  fs_HTTPError :: "'h \<Rightarrow> response \<Rightarrow> string \<Rightarrow> exn"
  fs_FromCacheEntry :: "md_entry \<Rightarrow> 'h \<Rightarrow> 'h"
  fs_CacheEntry :: "'h \<Rightarrow> md_entry"

definition http_ops :: "env \<Rightarrow> 'a hfh_scheme fs_ops" where
  "http_ops e =
     \<lparr>fs_Head = (\<lambda>url. HeadRequest e url []),
      fs_Get = (\<lambda>url. GetRequest e url []),
      fs_GetRange = (\<lambda>url off dst len. GetRangeRequest e url [] off dst len),
      fs_HTTPError = (\<lambda>_. GetHTTPError),
      fs_FromCacheEntry = InitializeFromCacheEntry,
      fs_CacheEntry = GetCacheEntry\<rparr>"

section \<open>Adaptive buffering and one range request\<close>

definition AdaptReadBufferSize :: "nat \<Rightarrow> 'a hfh_scheme \<Rightarrow> 'a hfh_scheme" where
  "AdaptReadBufferSize next_read_offset h =
     (if range_request_statistics h = [] then h
      else
        (let last_read = last (range_request_statistics h)
         in if add64 (rs_offset last_read) (rs_length last_read) \<noteq> next_read_offset then h
            else if MAXIMUM_READ_BUFFER_LEN \<le> length (read_buffer h) then h
            else h\<lparr>read_buffer := replicate (length (read_buffer h) * 2) (CHR 0x00)\<rparr>))"

definition RespondedWithRangeRequestNotSupported :: "env \<Rightarrow> response \<Rightarrow> bool" where
  "RespondedWithRangeRequestNotSupported e r \<longleftrightarrow>
     has_request_error r \<and>
     (let error = e_error_data e (request_error r)
      in ex_type error = ex_type RANGE_NOT_SUPPORTED \<and> ex_msg error = ex_msg RANGE_NOT_SUPPORTED)"

text \<open>
  TryRangeRequest: False when the server does not support range requests and a full download may
  be tried. The buffer comes back with what the request wrote, whatever the outcome.
\<close>

definition TryRangeRequest :: "env \<Rightarrow> 'a hfh_scheme fs_ops \<Rightarrow> string \<Rightarrow> nat \<Rightarrow> bytes \<Rightarrow> nat \<Rightarrow>
    'a hfh_scheme \<Rightarrow> world \<Rightarrow> (exn + bool) \<times> bytes \<times> 'a hfh_scheme \<times> world" where
  "TryRangeRequest e ops url off dst len h w =
     (case fs_GetRange ops url off (Some dst) len h w of
        (Inl ex, d, h1, w1) \<Rightarrow> (Inl ex, the d, h1, w1)
      | (Inr None, d, h1, w1) \<Rightarrow> (Inl (Exn ExIO ''Unknown error for HTTP GET'' None), the d, h1, w1)
      | (Inr (Some r), d, h1, w1) \<Rightarrow>
          (if has_request_error r then
             (if RespondedWithRangeRequestNotSupported e r
                 \<and> auto_fallback_to_full_download (h_params h1)
              then (Inr False, the d, h1, w1)
              else (Inl (e_error_data e (request_error r)), the d, h1, w1))
           else if success r \<or> status r = PartialContent_206 \<or> status r = Accepted_202 then
             (Inr True, the d,
              (if \<not> of_parallel (h_flags h1)
               then AddStatistics off len (e_elapsed e (w_clock w)) h1 else h1), w1)
           else (Inl (Exn ExHTTP ''Request returned HTTP'' (Some r)), the d, h1, w1)))"

section \<open>ReadInternal\<close>

text \<open>The state of the loop: buffer_offset is rd_off, start_offset is rd_start.\<close>

record 'h read_state =
  rd_h :: 'h
  rd_w :: world
  rd_dst :: bytes
  rd_to_read :: nat
  rd_off :: nat
  rd_start :: nat

text \<open>Copy what the read buffer has of the request.\<close>

definition copy_buffered :: "'a hfh_scheme read_state \<Rightarrow> exn + 'a hfh_scheme read_state" where
  "copy_buffered s =
     (let h = rd_h s;
          n = min (buffer_available h) (rd_to_read s)
      in if n = 0 then Inr s
         else if length (read_buffer h) < buffer_idx h + n \<or> length (rd_dst s) < rd_off s + n
         then Inl (Exn Undefined ''copy outside a buffer'' None)
         else Inr (s\<lparr>rd_dst := overwrite (rd_dst s) (rd_off s) (slice (read_buffer h) (buffer_idx h) n),
                     rd_off := rd_off s + n,
                     rd_to_read := rd_to_read s - n,
                     rd_h := h\<lparr>buffer_idx := buffer_idx h + n,
                               buffer_available := buffer_available h - n\<rparr>,
                     rd_start := rd_start s + n\<rparr>))"

text \<open>Read past the buffer: the rest of the request in one range request.\<close>

definition read_bypass :: "env \<Rightarrow> 'a hfh_scheme fs_ops \<Rightarrow> 'a hfh_scheme read_state \<Rightarrow>
    (exn + bool) \<times> 'a hfh_scheme read_state" where
  "read_bypass e ops s =
     (case TryRangeRequest e ops (h_path (rd_h s)) (rd_start s) (drop (rd_off s) (rd_dst s))
             (rd_to_read s) (rd_h s) (rd_w s) of
        (res, d, h, w) \<Rightarrow>
          (let s1 = s\<lparr>rd_dst := take (rd_off s) (rd_dst s) @ d, rd_h := h, rd_w := w\<rparr>
           in case res of
                Inr True \<Rightarrow>
                  (Inr True, s1\<lparr>rd_h := h\<lparr>buffer_available := 0, buffer_idx := 0\<rparr>,
                                rd_start := rd_start s + rd_to_read s\<rparr>)
              | _ \<Rightarrow> (res, s1)))"

text \<open>Fill the read buffer from start_offset.\<close>

definition refill_len :: "'a hfh_scheme \<Rightarrow> nat \<Rightarrow> nat" where
  "refill_len h start = min (length (read_buffer h)) (sub64 (h_length h) start)"

definition refill :: "env \<Rightarrow> 'a hfh_scheme fs_ops \<Rightarrow> 'a hfh_scheme read_state \<Rightarrow>
    (exn + bool) \<times> 'a hfh_scheme read_state" where
  "refill e ops s =
     (let h0 = AdaptReadBufferSize (rd_start s) (rd_h s);
          n = refill_len h0 (rd_start s)
      in case TryRangeRequest e ops (h_path h0) (rd_start s) (read_buffer h0) n h0 (rd_w s) of
           (res, d, h, w) \<Rightarrow>
             (let h1 = h\<lparr>read_buffer := d\<rparr>; s1 = s\<lparr>rd_h := h1, rd_w := w\<rparr>
              in case res of
                   Inr True \<Rightarrow>
                     (Inr True, s1\<lparr>rd_h := h1\<lparr>buffer_available := n, buffer_idx := 0,
                        buffer_start := rd_start s, buffer_end := add64 (rd_start s) n\<rparr>\<rparr>)
                 | _ \<Rightarrow> (res, s1)))"

lemma copy_buffered_cases:
  assumes "copy_buffered s = Inr s'"
  shows "(buffer_available (rd_h s) = 0 \<or> rd_to_read s = 0) \<and> s' = s \<or>
         0 < buffer_available (rd_h s) \<and> 0 < rd_to_read s \<and> rd_to_read s' < rd_to_read s"
  using assms by (auto simp: copy_buffered_def Let_def min_def split: if_splits)

lemma AdaptReadBufferSize_length:
  "length (read_buffer h) \<le> length (read_buffer (AdaptReadBufferSize off h))"
  by (simp add: AdaptReadBufferSize_def Let_def)

lemma AdaptReadBufferSize_h_length [simp]: "h_length (AdaptReadBufferSize off h) = h_length h"
  by (simp add: AdaptReadBufferSize_def Let_def)

lemma refill_available:
  assumes "refill e ops s = (Inr True, s')"
    and "0 < rd_to_read s" and "rd_to_read s \<le> refill_len (rd_h s) (rd_start s)"
  shows "0 < buffer_available (rd_h s') \<and> rd_to_read s' = rd_to_read s"
proof -
  have "refill_len (rd_h s) (rd_start s)
      \<le> refill_len (AdaptReadBufferSize (rd_start s) (rd_h s)) (rd_start s)"
    using AdaptReadBufferSize_length [of "rd_h s" "rd_start s"] by (simp add: refill_len_def)
  with assms show ?thesis
    by (auto simp: refill_def Let_def split: prod.splits sum.splits bool.splits)
qed

definition loop_measure :: "'a hfh_scheme read_state \<Rightarrow> nat" where
  "loop_measure s = 2 * rd_to_read s + (if buffer_available (rd_h s) = 0 then 1 else 0)"

lemma copy_decreases:
  assumes "copy_buffered s = Inr s'" and "rd_to_read s \<noteq> 0"
    and "\<not> (0 < rd_to_read s' \<and> buffer_available (rd_h s') = 0)"
  shows "loop_measure s' < loop_measure s"
  using copy_buffered_cases [OF assms(1)] assms(2,3) by (auto simp: loop_measure_def)

lemma refill_decreases:
  assumes "copy_buffered s = Inr s1" and "0 < rd_to_read s1 \<and> buffer_available (rd_h s1) = 0"
    and "\<not> refill_len (rd_h s1) (rd_start s1) < rd_to_read s1"
    and "(Inr True, s2) = refill e ops s1"
  shows "loop_measure s2 < loop_measure s"
  using copy_buffered_cases [OF assms(1)] refill_available [of e ops s1 s2] assms(2-)
  by (auto simp: loop_measure_def)

function (sequential) read_loop :: "env \<Rightarrow> 'a hfh_scheme fs_ops \<Rightarrow> 'a hfh_scheme read_state \<Rightarrow>
    (exn + bool) \<times> 'a hfh_scheme read_state" where
  "read_loop e ops s =
     (if rd_to_read s = 0 then (Inr True, s)
      else case copy_buffered s of
             Inl ex \<Rightarrow> (Inl ex, s)
           | Inr s1 \<Rightarrow>
               (if 0 < rd_to_read s1 \<and> buffer_available (rd_h s1) = 0 then
                  (if refill_len (rd_h s1) (rd_start s1) < rd_to_read s1
                   then read_bypass e ops s1
                   else case refill e ops s1 of
                          (Inr True, s2) \<Rightarrow> read_loop e ops s2
                        | (res, s2) \<Rightarrow> (res, s2))
                else read_loop e ops s1))"
  by pat_completeness auto
termination
proof (relation "measure (\<lambda>(e, ops, s). loop_measure s)", goal_cases)
  case 1
  show ?case by simp
next
  case 2
  then show ?case using refill_decreases by fastforce
next
  case 3
  then show ?case using copy_decreases by fastforce
qed


declare read_loop.simps [simp del]

text \<open>Serve a read from a file that was downloaded in full.\<close>

definition read_cached :: "cached_handle \<Rightarrow> nat \<Rightarrow> nat \<Rightarrow> bytes \<Rightarrow> 'a hfh_scheme \<Rightarrow> world \<Rightarrow>
    (exn + bool) \<times> bytes \<times> 'a hfh_scheme \<times> world" where
  "read_cached ch n loc dst h w =
     (let f = hs_file (w_http w) (ch_file ch)
      in if \<not> cf_initialized f
         then (Inl (Exn ExInternal ''Cached file not initialized properly'' None), dst, h, w)
         else if cf_size f < add64 loc n
         then (Inl (Exn ExIO ''Cached file length can't satisfy the requested Read'' None), dst, h, w)
         else if length (cf_data f) < loc + n \<or> length dst < n
         then (Inl (Exn Undefined ''copy outside a buffer'' None), dst, h, w)
         else (Inr True, overwrite dst 0 (slice (cf_data f) loc n),
               h\<lparr>file_offset := add64 loc n\<rparr>, w))"

text \<open>Read without the buffer, for direct I/O and parallel access.\<close>

definition read_direct :: "env \<Rightarrow> 'a hfh_scheme fs_ops \<Rightarrow> nat \<Rightarrow> nat \<Rightarrow> bytes \<Rightarrow> 'a hfh_scheme \<Rightarrow>
    world \<Rightarrow> (exn + bool) \<times> bytes \<times> 'a hfh_scheme \<times> world" where
  "read_direct e ops n loc dst h w =
     (case TryRangeRequest e ops (h_path h) loc dst n h w of
        (Inr True, d, h1, w1) \<Rightarrow>
          (Inr True, d,
           h1\<lparr>buffer_available := 0, buffer_idx := 0, file_offset := add64 loc n\<rparr>, w1)
      | other \<Rightarrow> other)"

text \<open>Whether the location lies in the window the read buffer holds.\<close>

definition seek_buffer :: "nat \<Rightarrow> 'a hfh_scheme \<Rightarrow> 'a hfh_scheme" where
  "seek_buffer loc h =
     (if buffer_start h \<le> loc \<and> loc < buffer_end h
      then h\<lparr>buffer_idx := loc - buffer_start h,
             buffer_available := (buffer_end h - buffer_start h) - (loc - buffer_start h)\<rparr>
      else h\<lparr>buffer_available := 0, buffer_idx := 0\<rparr>)"

definition ReadInternal :: "env \<Rightarrow> 'a hfh_scheme fs_ops \<Rightarrow> nat \<Rightarrow> nat \<Rightarrow> bytes \<Rightarrow> 'a hfh_scheme \<Rightarrow>
    world \<Rightarrow> (exn + bool) \<times> bytes \<times> 'a hfh_scheme \<times> world" where
  "ReadInternal e ops n loc dst h w =
     (case h_cached_file h of
        Some ch \<Rightarrow> read_cached ch n loc dst h w
      | None \<Rightarrow>
          (if SkipBuffer h \<and> 0 < n then read_direct e ops n loc dst h w
           else
             (case read_loop e ops \<lparr>rd_h = seek_buffer loc h, rd_w = w, rd_dst = dst,
                      rd_to_read = n, rd_off = 0, rd_start = loc\<rparr> of
                (Inr True, s) \<Rightarrow>
                  (Inr True, rd_dst s, (rd_h s)\<lparr>file_offset := add64 loc n\<rparr>, rd_w s)
              | (res, s) \<Rightarrow> (res, rd_dst s, rd_h s, rd_w s))))"

section \<open>FullDownload and Read\<close>

text \<open>Both outcomes of FullDownload clear should_write_cache.\<close>

definition FullDownload :: "'a hfh_scheme fs_ops \<Rightarrow> 'a hfh_scheme \<Rightarrow> world \<Rightarrow>
    exn option \<times> 'a hfh_scheme \<times> world" where
  "FullDownload ops h w =
     (let (r, st) = hs_GetCachedFile (h_path h) (w_http w);
          ch = cf_GetHandle r st;
          h1 = h\<lparr>h_cached_file := Some ch\<rparr>;
          w1 = w\<lparr>w_http := st\<rparr>
      in if cf_initialized (hs_file st r)
         then (None, h1\<lparr>h_length := cf_size (hs_file st r)\<rparr>, w1)
         else
           (case fs_Get ops (h_path h) h1 w1 of
              (Inl ex, h2, w2) \<Rightarrow> (Some ex, h2, w2)
            | (Inr None, h2, w2) \<Rightarrow> (Some (Exn Undefined ''no response'' None), h2, w2)
            | (Inr (Some res), h2, w2) \<Rightarrow>
                (if status res \<noteq> OK_200
                 then (Some (Exn ExHTTP ''Full download failed to to URL'' (Some res)), h2, w2)
                 else
                   (case h_cached_file h2 of
                      None \<Rightarrow> (Some (Exn Undefined ''no cached file handle'' None), h2, w2)
                    | Some ch2 \<Rightarrow>
                        (case cf_SetInitialized (h_length h2) ch2
                                (hs_file (w_http w2) (ch_file ch2)) of
                           Inl ex \<Rightarrow> (Some ex, h2, w2)
                         | Inr (ch3, f) \<Rightarrow>
                             (None, h2\<lparr>h_cached_file := Some ch3\<rparr>,
                              w2\<lparr>w_http := hs_set_file (ch_file ch2) f (w_http w2)\<rparr>))))))"

text \<open>Read at a location, with one full download when range requests are not supported.\<close>

definition read_after_download :: "env \<Rightarrow> 'a hfh_scheme fs_ops \<Rightarrow> nat \<Rightarrow> nat \<Rightarrow> bytes \<Rightarrow>
    'a hfh_scheme \<Rightarrow> world \<Rightarrow> exn option \<times> bytes \<times> 'a hfh_scheme \<times> world" where
  "read_after_download e ops n loc dst h w =
     (let head_reported_length = h_length h
      in case FullDownload ops h w of
           (Some ex, h1, w1) \<Rightarrow> (Some ex, dst, h1, w1)
         | (None, h1, w1) \<Rightarrow>
             (case h_cached_file h1 of
                None \<Rightarrow> (Some (Exn Undefined ''no cached file handle'' None), dst, h1, w1)
              | Some ch \<Rightarrow>
                  (if cf_size (hs_file (w_http w1) (ch_file ch)) \<noteq> head_reported_length
                   then (Some (Exn ExHTTP ''The size reported by HEAD'' None), dst,
                         h1\<lparr>h_cached_file := None\<rparr>,
                         w1\<lparr>w_http := hs_EraseCachedFile (h_path h1) (w_http w1)\<rparr>)
                   else
                     (case ReadInternal e ops n loc dst h1 w1 of
                        (Inl ex, d, h2, w2) \<Rightarrow> (Some ex, d, h2, w2)
                      | (Inr True, d, h2, w2) \<Rightarrow> (None, d, h2, w2)
                      | (Inr False, d, h2, w2) \<Rightarrow>
                          (Some (Exn ExHTTP ''Failed to read from HTTP file'' None), d, h2, w2)))))"

definition Read :: "env \<Rightarrow> 'a hfh_scheme fs_ops \<Rightarrow> nat \<Rightarrow> nat \<Rightarrow> bytes \<Rightarrow> 'a hfh_scheme \<Rightarrow> world \<Rightarrow>
    exn option \<times> bytes \<times> 'a hfh_scheme \<times> world" where
  "Read e ops n loc dst h w =
     (case ReadInternal e ops n loc dst h w of
        (Inl ex, d, h1, w1) \<Rightarrow> (Some ex, d, h1, w1)
      | (Inr True, d, h1, w1) \<Rightarrow> (None, d, h1, w1)
      | (Inr False, d, h1, w1) \<Rightarrow> read_after_download e ops n loc d h1 w1)"

text \<open>The sequential read, clipped to the rest of the file.\<close>

definition Read_next :: "env \<Rightarrow> 'a hfh_scheme fs_ops \<Rightarrow> nat \<Rightarrow> bytes \<Rightarrow> 'a hfh_scheme \<Rightarrow> world \<Rightarrow>
    (exn + nat) \<times> bytes \<times> 'a hfh_scheme \<times> world" where
  "Read_next e ops nr_bytes dst h w =
     (let n = min (sub64 (h_length h) (file_offset h)) nr_bytes
      in case Read e ops n (file_offset h) dst h w of
           (Some ex, d, h1, w1) \<Rightarrow> (Inl ex, d, h1, w1)
         | (None, d, h1, w1) \<Rightarrow> (Inr n, d, h1, w1))"

section \<open>The other file operations\<close>

definition Write_http :: "bytes \<Rightarrow> nat \<Rightarrow> 'a hfh_scheme \<Rightarrow> exn + 'a hfh_scheme" where
  "Write_http buffer loc h = Inl (Exn ExNotImplemented ''Writing to HTTP files not implemented'' None)"

definition Write_next_http :: "bytes \<Rightarrow> 'a hfh_scheme \<Rightarrow> exn + nat \<times> 'a hfh_scheme" where
  "Write_next_http buffer h =
     (case Write_http buffer (file_offset h) h of
        Inl ex \<Rightarrow> Inl ex | Inr h1 \<Rightarrow> Inr (length buffer, h1))"

definition FileSync_http :: "'a hfh_scheme \<Rightarrow> exn + 'a hfh_scheme" where
  "FileSync_http h = Inl (Exn ExNotImplemented ''FileSync for HTTP files not implemented'' None)"

definition GetFileSize :: "'a hfh_scheme \<Rightarrow> nat" where
  "GetFileSize h = h_length h"

definition GetLastModifiedTime :: "'a hfh_scheme \<Rightarrow> int" where
  "GetLastModifiedTime h = h_last_modified h"

definition GetVersionTag :: "'a hfh_scheme \<Rightarrow> string" where
  "GetVersionTag h = h_etag h"

definition Seek :: "nat \<Rightarrow> 'a hfh_scheme \<Rightarrow> 'a hfh_scheme" where
  "Seek loc h = h\<lparr>file_offset := loc\<rparr>"

definition SeekPosition :: "'a hfh_scheme \<Rightarrow> nat" where
  "SeekPosition h = file_offset h"

text \<open>rfind (prefix, 0) == 0: the path starts with the scheme.\<close>

definition CanHandleFile_http :: "string \<Rightarrow> bool" where
  "CanHandleFile_http fpath \<longleftrightarrow> prefix ''https://'' fpath \<or> prefix ''http://'' fpath"

definition GetGlobalCache :: "world \<Rightarrow> metadata_cache \<times> world" where
  "GetGlobalCache w =
     (let c = (case w_cache w of None \<Rightarrow> new_metadata_cache False True | Some c \<Rightarrow> c)
      in (c, w\<lparr>w_cache := Some c\<rparr>))"

end
