(* ===== verification/ReadCorrect.thy ===== *)
theory ReadCorrect
  imports HttpRead
begin

text \<open>
  Reads return the file: the contract of a range request as a locale and the buffered read proved
  over it. HttpServer interprets it on the requests of HTTPFileSystem, S3Read on those of S3FileSystem;
  the full-download path is in Download.
\<close>

section \<open>The window of the read buffer\<close>

text \<open>
  The read buffer holds the bytes [buffer_start, buffer_end) of the content. This is what the
  range requests of a good provider keep.
\<close>

definition window_ok :: "bytes \<Rightarrow> 'a hfh_scheme \<Rightarrow> bool" where
  "window_ok content h \<longleftrightarrow>
     buffer_start h \<le> buffer_end h \<and> buffer_end h \<le> length content \<and>
     buffer_end h - buffer_start h \<le> length (read_buffer h) \<and>
     take (buffer_end h - buffer_start h) (read_buffer h)
       = slice content (buffer_start h) (buffer_end h - buffer_start h)"

text \<open>What a request leaves alone in the handle.\<close>

definition same_view :: "'a hfh_scheme \<Rightarrow> 'a hfh_scheme \<Rightarrow> bool" where
  "same_view h h' \<longleftrightarrow>
     h_path h' = h_path h \<and> h_flags h' = h_flags h \<and> h_length h' = h_length h \<and>
     h_cached_file h' = h_cached_file h \<and> buffer_available h' = buffer_available h \<and>
     buffer_idx h' = buffer_idx h \<and> file_offset h' = file_offset h \<and>
     buffer_start h' = buffer_start h \<and> buffer_end h' = buffer_end h \<and>
     read_buffer h' = read_buffer h"

definition read_frame :: "nat \<Rightarrow> nat \<Rightarrow> nat \<Rightarrow> nat \<Rightarrow> nat \<Rightarrow> bytes \<Rightarrow> range_stat list \<Rightarrow>
    'a hfh_scheme \<Rightarrow> 'a hfh_scheme" where
  "read_frame av ix fo bs be rb st h =
     h\<lparr>buffer_available := av, buffer_idx := ix, file_offset := fo, buffer_start := bs,
       buffer_end := be, read_buffer := rb, range_request_statistics := st\<rparr>"

lemma read_frame_exI:
  "h\<lparr>buffer_available := av, buffer_idx := ix\<rparr>
     = read_frame av ix (file_offset h) (buffer_start h) (buffer_end h) (read_buffer h)
         (range_request_statistics h) h"
  by (simp add: read_frame_def)

section \<open>The contract of a range request\<close>

text \<open>
  A provider of ranges of a fixed content: in a good state, a request for a non-empty range inside
  the content succeeds, writes exactly that range, and leaves a good state and the handle's view;
  what the read functions change in the handle keeps the state good.
\<close>

locale range_provider =
  fixes ops :: "'a hfh_scheme fs_ops"
    and content :: bytes
    and good :: "'a hfh_scheme \<Rightarrow> world \<Rightarrow> bool"
  assumes fetch: "good h w \<Longrightarrow> 0 < len \<Longrightarrow> off + len \<le> length content \<Longrightarrow> len \<le> length dst \<Longrightarrow>
      \<exists>r h' w'. fs_GetRange ops (h_path h) off (Some dst) len h w
          = (Inr (Some r), Some (overwrite dst 0 (slice content off len)), h', w')
        \<and> \<not> has_request_error r \<and> success r \<and> good h' w' \<and> same_view h h'"
    and frame: "good h w \<Longrightarrow> good (read_frame av ix fo bs be rb st h) w"
    and short_content: "good h w \<Longrightarrow> length content < 2 ^ 63"
begin

text \<open>One range request with its verdict.\<close>

lemma try_ok:
  assumes "good h w" and "0 < len" and "off + len \<le> length content" and "len \<le> length dst"
  shows "\<exists>h' w'. TryRangeRequest e ops (h_path h) off dst len h w
            = (Inr True, overwrite dst 0 (slice content off len), h', w')
          \<and> good h' w' \<and> same_view h h'"
proof -
  obtain r h1 w1 where f: "fs_GetRange ops (h_path h) off (Some dst) len h w
      = (Inr (Some r), Some (overwrite dst 0 (slice content off len)), h1, w1)"
    "\<not> has_request_error r" "success r" "good h1 w1" "same_view h h1"
    using fetch [OF assms] by blast
  let ?h2 = "AddStatistics off len (e_elapsed e (w_clock w)) h1"
  have "?h2 = read_frame (buffer_available h1) (buffer_idx h1) (file_offset h1) (buffer_start h1)
      (buffer_end h1) (read_buffer h1) (range_request_statistics ?h2) h1"
    by (simp add: AddStatistics_def read_frame_def)
  then have "good ?h2 w1" using frame [OF f(4)] by metis
  moreover have "same_view h ?h2" using f(5) by (simp add: same_view_def AddStatistics_def)
  ultimately show ?thesis using f by (auto simp: TryRangeRequest_def)
qed

text \<open>
  The loop invariant: k of the n bytes are in place, and what the buffer has left follows them.
\<close>

definition loop_inv :: "bytes \<Rightarrow> nat \<Rightarrow> nat \<Rightarrow> 'a hfh_scheme read_state \<Rightarrow> bool" where
  "loop_inv dst loc n s \<longleftrightarrow>
     good (rd_h s) (rd_w s) \<and> window_ok content (rd_h s) \<and> h_length (rd_h s) = length content \<and>
     rd_off s + rd_to_read s = n \<and> rd_start s = loc + rd_off s \<and>
     rd_dst s = overwrite dst 0 (slice content loc (rd_off s)) \<and>
     (0 < buffer_available (rd_h s) \<longrightarrow>
        buffer_start (rd_h s) + buffer_idx (rd_h s) = rd_start s \<and>
        buffer_idx (rd_h s) + buffer_available (rd_h s)
          = buffer_end (rd_h s) - buffer_start (rd_h s))"

lemma copy_step:
  assumes inv: "loop_inv dst loc n s" and loc: "loc + n \<le> length content" and dst: "n \<le> length dst"
  shows "\<exists>s'. copy_buffered s = Inr s' \<and> loop_inv dst loc n s'
      \<and> (rd_to_read s' = 0 \<or> buffer_available (rd_h s') = 0)"
proof (cases "min (buffer_available (rd_h s)) (rd_to_read s) = 0")
  case True
  then show ?thesis using inv by (auto simp: copy_buffered_def Let_def)
next
  case False
  define m where "m = min (buffer_available (rd_h s)) (rd_to_read s)"
  let ?h = "rd_h s"
  have m: "0 < m" "m \<le> buffer_available ?h" "m \<le> rd_to_read s" using False by (auto simp: m_def)
  have bs: "buffer_start ?h + buffer_idx ?h = rd_start s"
      "buffer_idx ?h + buffer_available ?h = buffer_end ?h - buffer_start ?h"
    using inv m by (auto simp: loop_inv_def)
  have win: "window_ok content ?h" using inv by (simp add: loop_inv_def)
  have rd: "rd_off s + rd_to_read s = n" "rd_start s = loc + rd_off s"
      "rd_dst s = overwrite dst 0 (slice content loc (rd_off s))"
    using inv by (auto simp: loop_inv_def)
  have in_buf: "buffer_idx ?h + m \<le> length (read_buffer ?h)"
    using win bs(2) m(2) by (simp add: window_ok_def)
  have len_dst: "length (rd_dst s) = length dst" using rd loc dst by simp
  have piece: "slice (read_buffer ?h) (buffer_idx ?h) m = slice content (rd_start s) m"
  proof -
    have "slice (read_buffer ?h) (buffer_idx ?h) m
        = slice (take (buffer_end ?h - buffer_start ?h) (read_buffer ?h)) (buffer_idx ?h) m"
      using bs(2) m(2) by (simp add: slice_def drop_take min_def)
    also have "\<dots> = slice (slice content (buffer_start ?h) (buffer_end ?h - buffer_start ?h))
        (buffer_idx ?h) m"
      using win by (simp add: window_ok_def)
    also have "\<dots> = slice content (rd_start s) m"
      using bs m(2) by (simp add: slice_slice)
    finally show ?thesis .
  qed
  have "overwrite (rd_dst s) (rd_off s) (slice content (rd_start s) m)
      = overwrite dst 0 (slice content loc (rd_off s + m))"
  proof -
    have l: "length (slice content loc (rd_off s)) = rd_off s" using rd loc by simp
    have "overwrite (overwrite dst 0 (slice content loc (rd_off s)))
          (0 + length (slice content loc (rd_off s))) (slice content (rd_start s) m)
        = overwrite dst 0 (slice content loc (rd_off s) @ slice content (rd_start s) m)"
      by (rule overwrite_append_chunk) (use l rd m dst loc in simp)
    then show ?thesis using l rd by (simp add: slice_append_slice)
  qed
  moreover define s' where "s' = s\<lparr>rd_dst := overwrite (rd_dst s) (rd_off s) (slice (read_buffer ?h) (buffer_idx ?h) m),
      rd_off := rd_off s + m, rd_to_read := rd_to_read s - m,
      rd_h := ?h\<lparr>buffer_idx := buffer_idx ?h + m, buffer_available := buffer_available ?h - m\<rparr>,
      rd_start := rd_start s + m\<rparr>"
  moreover have "good (rd_h s') (rd_w s')"
  proof -
    have "rd_h s' = read_frame (buffer_available ?h - m) (buffer_idx ?h + m) (file_offset ?h)
        (buffer_start ?h) (buffer_end ?h) (read_buffer ?h) (range_request_statistics ?h) ?h"
      by (simp add: s'_def read_frame_def)
    moreover have "good ?h (rd_w s)" using inv by (simp add: loop_inv_def)
    ultimately show ?thesis using frame by (simp add: s'_def)
  qed
  ultimately have "loop_inv dst loc n s'"
    using inv rd bs m piece win by (simp add: loop_inv_def window_ok_def)
  moreover have "copy_buffered s = Inr s'"
    using m in_buf len_dst rd dst by (simp add: copy_buffered_def Let_def s'_def m_def [symmetric])
  moreover have "rd_to_read s' = 0 \<or> buffer_available (rd_h s') = 0" by (auto simp: s'_def m_def)
  ultimately show ?thesis by blast
qed

end

context range_provider
begin

text \<open>Bypassing the buffer completes the read.\<close>

lemma bypass_step:
  assumes inv: "loop_inv dst loc n s" and loc: "loc + n \<le> length content" and dst: "n \<le> length dst"
    and need: "0 < rd_to_read s"
  shows "\<exists>s'. read_bypass e ops s = (Inr True, s') \<and> good (rd_h s') (rd_w s') \<and>
      window_ok content (rd_h s') \<and> h_length (rd_h s') = length content \<and>
      rd_dst s' = overwrite dst 0 (slice content loc n)"
proof -
  let ?h = "rd_h s" and ?k = "rd_off s" and ?t = "rd_to_read s"
  have rd: "?k + ?t = n" "rd_start s = loc + ?k" "rd_dst s = overwrite dst 0 (slice content loc ?k)"
    using inv by (auto simp: loop_inv_def)
  have l: "length (slice content loc ?k) = ?k" using rd loc by simp
  have len_dst: "length (rd_dst s) = length dst" using rd loc dst l by simp
  obtain h1 w1 where t: "TryRangeRequest e ops (h_path ?h) (rd_start s) (drop ?k (rd_dst s)) ?t ?h (rd_w s)
      = (Inr True, overwrite (drop ?k (rd_dst s)) 0 (slice content (rd_start s) ?t), h1, w1)"
    "good h1 w1" "same_view ?h h1"
  proof -
    have "good ?h (rd_w s)" using inv by (simp add: loop_inv_def)
    moreover have "rd_start s + ?t \<le> length content" using rd loc by simp
    moreover have "?t \<le> length (drop ?k (rd_dst s))"
      unfolding length_drop len_dst using rd(1) dst by linarith
    ultimately show ?thesis using try_ok [OF _ need] that by blast
  qed
  let ?h2 = "h1\<lparr>buffer_available := 0, buffer_idx := 0\<rparr>"
  have "good ?h2 w1" using frame [OF t(2)] by (subst read_frame_exI)
  moreover have "window_ok content ?h2" "h_length ?h2 = length content"
    using inv t(3) by (auto simp: loop_inv_def window_ok_def same_view_def)
  moreover have "take ?k (rd_dst s) @ overwrite (drop ?k (rd_dst s)) 0 (slice content (rd_start s) ?t)
      = overwrite dst 0 (slice content loc n)"
  proof -
    have "take ?k (rd_dst s) @ overwrite (drop ?k (rd_dst s)) 0 (slice content (rd_start s) ?t)
        = overwrite (rd_dst s) ?k (slice content (rd_start s) ?t)"
      using rd loc dst len_dst by (simp add: overwrite_def add.commute)
    also have "\<dots> = overwrite (overwrite dst 0 (slice content loc ?k))
        (0 + length (slice content loc ?k)) (slice content (rd_start s) ?t)"
      using rd l by simp
    also have "\<dots> = overwrite dst 0 (slice content loc ?k @ slice content (rd_start s) ?t)"
      by (rule overwrite_append_chunk) (use l rd dst loc in simp)
    also have "slice content loc ?k @ slice content (rd_start s) ?t = slice content loc n"
      using rd by (simp add: slice_append_slice)
    finally show ?thesis .
  qed
  ultimately show ?thesis using t(1) by (simp add: read_bypass_def Let_def)
qed

text \<open>Refilling the buffer continues the read.\<close>

lemma refill_step:
  assumes inv: "loop_inv dst loc n s" and loc: "loc + n \<le> length content"
    and need: "0 < rd_to_read s" and fits: "rd_to_read s \<le> refill_len (rd_h s) (rd_start s)"
  shows "\<exists>s'. refill e ops s = (Inr True, s') \<and> loop_inv dst loc n s'"
proof -
  let ?h = "rd_h s" and ?st = "rd_start s"
  let ?ha = "AdaptReadBufferSize ?st ?h"
  let ?m = "refill_len ?ha ?st"
  have small: "length content < w64"
    using inv short_content [of "rd_h s" "rd_w s"] by (simp add: loop_inv_def)
  have rd: "rd_off s + rd_to_read s = n" "?st = loc + rd_off s" "h_length ?h = length content"
    using inv by (auto simp: loop_inv_def)
  have m_pos: "0 < ?m"
    using need fits AdaptReadBufferSize_length [where h = "rd_h s" and off = "rd_start s"]
    unfolding refill_len_def AdaptReadBufferSize_h_length by linarith
  have sub: "sub64 (length content) ?st = length content - ?st"
    using rd loc small by (simp add: sub64_exact)
  have m: "?m = min (length (read_buffer ?ha)) (length content - ?st)"
    using rd sub by (simp add: refill_len_def)
  have st: "?st + ?m \<le> length content" "?m \<le> length (read_buffer ?ha)" using m m_pos by auto
  have "?ha = read_frame (buffer_available ?h) (buffer_idx ?h) (file_offset ?h) (buffer_start ?h)
      (buffer_end ?h) (read_buffer ?ha) (range_request_statistics ?h) ?h"
    by (simp add: AdaptReadBufferSize_def read_frame_def Let_def)
  then have "good ?ha (rd_w s)" using frame inv unfolding loop_inv_def by metis
  then obtain h1 w1 where t: "TryRangeRequest e ops (h_path ?ha) ?st (read_buffer ?ha) ?m ?ha (rd_w s)
      = (Inr True, overwrite (read_buffer ?ha) 0 (slice content ?st ?m), h1, w1)"
    "good h1 w1" "same_view ?ha h1"
    using try_ok [of ?ha "rd_w s" ?m ?st "read_buffer ?ha" e] m_pos st by blast
  let ?rb = "overwrite (read_buffer ?ha) 0 (slice content ?st ?m)"
  let ?h2 = "h1\<lparr>read_buffer := ?rb, buffer_available := ?m, buffer_idx := 0,
      buffer_start := ?st, buffer_end := ?st + ?m\<rparr>"
  have add: "add64 ?st ?m = ?st + ?m" using st small by (simp add: add64_exact)
  have "?h2 = read_frame ?m 0 (file_offset h1) ?st (?st + ?m) ?rb (range_request_statistics h1) h1"
    by (simp add: read_frame_def)
  then have "good ?h2 w1" using frame [OF t(2)] by metis
  moreover have "window_ok content ?h2" using st by (simp add: window_ok_def overwrite_def)
  moreover have "h_length ?h2 = length content" using rd t(3) by (simp add: same_view_def)
  ultimately have "loop_inv dst loc n (s\<lparr>rd_h := ?h2, rd_w := w1\<rparr>)"
    using inv by (simp add: loop_inv_def)
  moreover have "refill e ops s = (Inr True, s\<lparr>rd_h := ?h2, rd_w := w1\<rparr>)"
    using t(1) add by (simp add: refill_def Let_def)
  ultimately show ?thesis by blast
qed

lemma loop_exact:
  assumes "loop_inv dst loc n s" and "loc + n \<le> length content" and "n \<le> length dst"
  shows "\<exists>s'. read_loop e ops s = (Inr True, s') \<and> good (rd_h s') (rd_w s') \<and>
      window_ok content (rd_h s') \<and> h_length (rd_h s') = length content \<and>
      rd_dst s' = overwrite dst 0 (slice content loc n)"
  using assms(1)
proof (induction "loop_measure s" arbitrary: s rule: less_induct)
  case less
  show ?case
  proof (cases "rd_to_read s = 0")
    case True
    then show ?thesis using less.prems by (auto simp: read_loop.simps [of e ops s] loop_inv_def)
  next
    case False
    obtain s1 where c: "copy_buffered s = Inr s1" "loop_inv dst loc n s1"
        "rd_to_read s1 = 0 \<or> buffer_available (rd_h s1) = 0"
      using copy_step [OF less.prems assms(2,3)] by blast
    show ?thesis
    proof (cases "rd_to_read s1 = 0")
      case True
      have "loop_measure s1 < loop_measure s" using copy_decreases [OF c(1) False] True by simp
      then show ?thesis using less.hyps [OF _ c(2)] c(1) True False
        by (simp add: read_loop.simps [of e ops s])
    next
      case more: False
      then have av: "0 < rd_to_read s1 \<and> buffer_available (rd_h s1) = 0" using c(3) by simp
      show ?thesis
      proof (cases "refill_len (rd_h s1) (rd_start s1) < rd_to_read s1")
        case True
        then show ?thesis using bypass_step [OF c(2) assms(2,3), of e] av c(1) False
          by (simp add: read_loop.simps [of e ops s])
      next
        case fill: False
        then obtain s2 where r: "refill e ops s1 = (Inr True, s2)" "loop_inv dst loc n s2"
          using refill_step [OF c(2) assms(2), of e] av by auto
        have "loop_measure s2 < loop_measure s"
          by (rule refill_decreases [OF c(1) av fill r(1) [symmetric]])
        then show ?thesis using less.hyps [OF _ r(2)] c(1) r(1) av fill False
          by (simp add: read_loop.simps [of e ops s])
      qed
    qed
  qed
qed

text \<open>The read: exactly the bytes asked for, the position after them, and a usable handle.\<close>

lemma ReadInternal_exact:
  assumes g: "good h w" and win: "window_ok content h" and len: "h_length h = length content"
    and nocache: "h_cached_file h = None"
    and loc: "loc + n \<le> length content" and dst: "n \<le> length dst"
  shows "\<exists>h' w'. ReadInternal e ops n loc dst h w
            = (Inr True, overwrite dst 0 (slice content loc n), h', w')
          \<and> file_offset h' = loc + n \<and> good h' w' \<and> window_ok content h'"
proof -
  have add: "add64 loc n = loc + n" using loc short_content [OF g] by (simp add: add64_exact)
  show ?thesis
  proof (cases "SkipBuffer h \<and> 0 < n")
    case True
    obtain h1 w1 where t: "TryRangeRequest e ops (h_path h) loc dst n h w
        = (Inr True, overwrite dst 0 (slice content loc n), h1, w1)" "good h1 w1" "same_view h h1"
      using try_ok [OF g _ loc dst] True by blast
    let ?h2 = "h1\<lparr>buffer_available := 0, buffer_idx := 0, file_offset := loc + n\<rparr>"
    have "?h2 = read_frame 0 0 (loc + n) (buffer_start h1) (buffer_end h1) (read_buffer h1)
        (range_request_statistics h1) h1" by (simp add: read_frame_def)
    then have "good ?h2 w1" using frame [OF t(2)] by metis
    moreover have "window_ok content ?h2" using win t(3) by (simp add: window_ok_def same_view_def)
    ultimately show ?thesis using t(1) True nocache add
      by (simp add: ReadInternal_def read_direct_def)
  next
    case False
    let ?hs = "seek_buffer loc h"
    let ?s = "\<lparr>rd_h = ?hs, rd_w = w, rd_dst = dst, rd_to_read = n, rd_off = 0, rd_start = loc\<rparr>"
    have "?hs = read_frame (buffer_available ?hs) (buffer_idx ?hs) (file_offset h) (buffer_start h)
        (buffer_end h) (read_buffer h) (range_request_statistics h) h"
      by (simp add: seek_buffer_def read_frame_def)
    then have "good ?hs w" using frame [OF g] by metis
    then have "loop_inv dst loc n ?s"
      using win len by (auto simp: loop_inv_def seek_buffer_def window_ok_def slice_0 overwrite_nil)
    then obtain s' where s': "read_loop e ops ?s = (Inr True, s')" "good (rd_h s') (rd_w s')"
        "window_ok content (rd_h s')" "rd_dst s' = overwrite dst 0 (slice content loc n)"
      using loop_exact [OF _ loc dst, of ?s e] by blast
    let ?h2 = "(rd_h s')\<lparr>file_offset := loc + n\<rparr>"
    have "?h2 = read_frame (buffer_available (rd_h s')) (buffer_idx (rd_h s')) (loc + n)
        (buffer_start (rd_h s')) (buffer_end (rd_h s')) (read_buffer (rd_h s'))
        (range_request_statistics (rd_h s')) (rd_h s')" by (simp add: read_frame_def)
    then have "good ?h2 (rd_w s')" using frame [OF s'(2)] by metis
    moreover have "window_ok content ?h2" using s'(3) by (simp add: window_ok_def)
    ultimately show ?thesis using s' False nocache add by (auto simp: ReadInternal_def)
  qed
qed

lemma Read_exact:
  assumes "good h w" and "window_ok content h" and "h_length h = length content"
    and "h_cached_file h = None" and "loc + n \<le> length content" and "n \<le> length dst"
  shows "\<exists>h' w'. Read e ops n loc dst h w = (None, overwrite dst 0 (slice content loc n), h', w')
          \<and> file_offset h' = loc + n \<and> good h' w' \<and> window_ok content h'"
  using ReadInternal_exact [OF assms, of e] by (auto simp: Read_def)

end

section \<open>Reads inside the window\<close>

text \<open>A read inside the window is served from the buffer, whatever the buffer holds.\<close>

lemma read_in_window:
  assumes win: "buffer_start h \<le> loc" "loc + n \<le> buffer_end h"
      "buffer_end h - buffer_start h \<le> length (read_buffer h)"
    and h: "h_cached_file h = None" "\<not> SkipBuffer h" and dst: "n \<le> length dst" and n: "0 < n"
    and bnd: "loc + n < w64"
  shows "\<exists>h'. ReadInternal e ops n loc dst h w
      = (Inr True, overwrite dst 0 (slice (read_buffer h) (loc - buffer_start h) n), h', w)"
proof -
  let ?i = "loc - buffer_start h"
  let ?a = "(buffer_end h - buffer_start h) - ?i"
  have a: "n \<le> ?a" "?i + n \<le> length (read_buffer h)" using win by auto
  have sk: "seek_buffer loc h = h\<lparr>buffer_idx := ?i, buffer_available := ?a\<rparr>"
    using win n by (simp add: seek_buffer_def)
  let ?s = "\<lparr>rd_h = seek_buffer loc h, rd_w = w, rd_dst = dst, rd_to_read = n, rd_off = 0,
      rd_start = loc\<rparr>"
  obtain s1 where s1: "copy_buffered ?s = Inr s1" "rd_to_read s1 = 0"
      "rd_dst s1 = overwrite dst 0 (slice (read_buffer h) ?i n)" "rd_w s1 = w"
    using a n dst by (simp add: copy_buffered_def Let_def sk min_absorb2)
  have "read_loop e ops ?s = (Inr True, s1)"
    using s1 n by (simp add: read_loop.simps [of e ops ?s] read_loop.simps [of e ops s1])
  then show ?thesis using s1 h by (auto simp: ReadInternal_def)
qed

text \<open>
  A refill that fails leaves the window as it was, over the bytes the failed request wrote.
\<close>

lemma refill_failed:
  assumes "TryRangeRequest e ops (h_path (rd_h s)) (rd_start s)
        (read_buffer (AdaptReadBufferSize (rd_start s) (rd_h s)))
        (refill_len (AdaptReadBufferSize (rd_start s) (rd_h s)) (rd_start s))
        (AdaptReadBufferSize (rd_start s) (rd_h s)) (rd_w s) = (Inl ex, d, h1, w1)"
  shows "refill e ops s = (Inl ex, s\<lparr>rd_h := h1\<lparr>read_buffer := d\<rparr>, rd_w := w1\<rparr>)"
proof -
  have "h_path (AdaptReadBufferSize (rd_start s) (rd_h s)) = h_path (rd_h s)"
    by (simp add: AdaptReadBufferSize_def Let_def)
  with assms show ?thesis by (simp add: refill_def Let_def)
qed

text \<open>
  C28: A failed refill leaves the old window over new bytes. When the request that refills the read
  buffer fails, the handle keeps the window of the previous refill, but the buffer holds whatever
  the failed request left (d). A later read inside that window succeeds and returns those bytes.
\<close>

theorem failed_refill_serves_leftover:
  assumes "TryRangeRequest e ops (h_path (rd_h s)) (rd_start s)
        (read_buffer (AdaptReadBufferSize (rd_start s) (rd_h s)))
        (refill_len (AdaptReadBufferSize (rd_start s) (rd_h s)) (rd_start s))
        (AdaptReadBufferSize (rd_start s) (rd_h s)) (rd_w s) = (Inl ex, d, h1, w1)"
    and "same_view (AdaptReadBufferSize (rd_start s) (rd_h s)) h1"
    and "buffer_start (rd_h s) + m \<le> buffer_end (rd_h s)" and "buffer_end (rd_h s) < w64"
    and "buffer_end (rd_h s) - buffer_start (rd_h s) \<le> length d"
    and "h_cached_file (rd_h s) = None" and "\<not> SkipBuffer (rd_h s)"
    and "0 < m" and "m \<le> length dst"
  shows "\<exists>s' h2. refill e ops s = (Inl ex, s') \<and>
     ReadInternal e ops m (buffer_start (rd_h s)) dst (rd_h s') (rd_w s')
       = (Inr True, overwrite dst 0 (take m d), h2, rd_w s')"
proof -
  let ?h = "h1\<lparr>read_buffer := d\<rparr>"
  have v: "buffer_start ?h = buffer_start (rd_h s)" "buffer_end ?h = buffer_end (rd_h s)"
    "h_cached_file ?h = None" "\<not> SkipBuffer ?h"
    using assms(2,6,7) by (auto simp: same_view_def AdaptReadBufferSize_def Let_def SkipBuffer_def
        split: if_splits)
  have "\<exists>h2. ReadInternal e ops m (buffer_start (rd_h s)) dst ?h w1
      = (Inr True, overwrite dst 0 (slice (read_buffer ?h) (buffer_start (rd_h s) - buffer_start ?h) m), h2, w1)"
    by (rule read_in_window) (use assms v in simp_all)
  then show ?thesis using refill_failed [OF assms(1)] v by (auto simp: slice_def)
qed

text \<open>
  The witness: the window [0, 2) was read before, the refill at 2 receives one byte and fails.
\<close>

definition broken_ops :: "hfh fs_ops" where
  "broken_ops = \<lparr>fs_Head = (\<lambda>url h w. (Inr None, h, w)), fs_Get = (\<lambda>url h w. (Inr None, h, w)),
     fs_GetRange = (\<lambda>url off dst len h w. (Inl (Exn ExIO ''Short read'' None),
        map_option (\<lambda>d. overwrite d 0 ''X'') dst, h, w)),
     fs_HTTPError = (\<lambda>_ r _. Exn ExHTTP [] (Some r)), fs_FromCacheEntry = (\<lambda>_ h. h),
     fs_CacheEntry = GetCacheEntry\<rparr>"

definition plain_flags :: open_flags where
  "plain_flags = \<lparr>of_read = True, of_write = False, of_append = False, of_create = False,
     of_overwrite = False, of_null_if_not_exists = False, of_direct_io = False, of_parallel = False\<rparr>"

definition read_before :: "httpfs_params \<Rightarrow> hfh" where
  "read_before p = (new_handle \<lparr>fi_path = ''u'', fi_ext = None\<rparr> plain_flags p)
     \<lparr>h_length := 9, buffer_start := 0, buffer_end := 2, read_buffer := ''ab''\<rparr>"

theorem failed_refill_serves_leftover_witness:
  "\<forall>e p w. \<exists>s' h2. refill e broken_ops \<lparr>rd_h = read_before p, rd_w = w, rd_dst = ''..'', rd_to_read = 2,
        rd_off = 0, rd_start = 2\<rparr> = (Inl (Exn ExIO ''Short read'' None), s') \<and>
     ReadInternal e broken_ops 2 0 ''..'' (rd_h s') (rd_w s') = (Inr True, ''Xb'', h2, rd_w s')"
proof (intro allI)
  fix e :: env and p :: httpfs_params and w :: world
  let ?s = "\<lparr>rd_h = read_before p, rd_w = w, rd_dst = ''..'', rd_to_read = 2, rd_off = 0, rd_start = 2\<rparr>"
  have h: "AdaptReadBufferSize 2 (read_before p) = read_before p" "SkipBuffer (read_before p) = False"
    "h_cached_file (read_before p) = None" "buffer_start (read_before p) = 0"
    "buffer_end (read_before p) = 2" "read_buffer (read_before p) = ''ab''"
    "h_length (read_before p) = 9"
    by (simp_all add: read_before_def new_handle_def plain_flags_def AdaptReadBufferSize_def
        SkipBuffer_def Let_def)
  have "\<exists>s' h2. refill e broken_ops ?s = (Inl (Exn ExIO ''Short read'' None), s') \<and>
     ReadInternal e broken_ops 2 (buffer_start (rd_h ?s)) ''..'' (rd_h s') (rd_w s')
       = (Inr True, overwrite ''..'' 0 (take 2 ''Xb''), h2, rd_w s')"
    by (rule failed_refill_serves_leftover [of e broken_ops ?s "Exn ExIO ''Short read'' None" "''Xb''" "read_before p" w])
      (simp_all add: h same_view_def TryRangeRequest_def broken_ops_def overwrite_def)
  then show "\<exists>s' h2. refill e broken_ops ?s = (Inl (Exn ExIO ''Short read'' None), s') \<and>
     ReadInternal e broken_ops 2 0 ''..'' (rd_h s') (rd_w s') = (Inr True, ''Xb'', h2, rd_w s')"
    by (simp add: h overwrite_def)
qed

end
