(* ===== verification/HttpServer.thy ===== *)
theory HttpServer
  imports ReadCorrect
begin

text \<open>
  HTTPFileSystem's range requests meet the contract of ReadCorrect: against a server that serves a
  fixed content, GetRangeRequest is a range provider, so the reads over it are exact. A concrete
  server shows that the assumption can be met.
\<close>

section \<open>A server that serves a fixed content\<close>

text \<open>
  What such a server does with a range request: after any failed attempts and redirects it answers
  with the bytes asked for, with headers that agree with them.
\<close>

definition good_answer :: "bytes \<Rightarrow> string \<Rightarrow> nat \<Rightarrow> nat \<Rightarrow> attempt list \<Rightarrow> bool" where
  "good_answer content tag off len ats \<longleftrightarrow>
     (\<exists>before redirects rh ds r.
        ats = before @ [Attempt (map RespHead redirects @ RespHead rh # map Data ds) (Inr (Some r))] \<and>
        (\<forall>p \<in> set redirects. 300 \<le> status p) \<and> status rh < 300 \<and>
        hdrs rh ''ETag'' \<in> {None, Some tag} \<and>
        hdrs rh ''Content-Length'' \<in> {None, Some (to_string len)} \<and>
        concat ds = slice content off len \<and>
        \<not> has_request_error r \<and> success r \<and> status r < 400)"

definition serves :: "env \<Rightarrow> string \<Rightarrow> bytes \<Rightarrow> string \<Rightarrow> bool" where
  "serves e url content tag \<longleftrightarrow>
     (\<forall>k rq cl hm off len. rq_method rq = GET \<longrightarrow> rq_url rq = url \<longrightarrow>
        rq_headers rq = hm @ [HInsert ''Range'' (range_expr off len)] \<longrightarrow> 0 < len \<longrightarrow>
        off + len \<le> length content \<longrightarrow>
        good_answer content tag off len (attempts (e_net e k rq cl)))"

text \<open>
  The handle is on that URL and its validator, if it has one, is the server's; the content is of a
  size that a file offset can hold.
\<close>

definition http_good :: "env \<Rightarrow> string \<Rightarrow> bytes \<Rightarrow> string \<Rightarrow> 'a hfh_scheme \<Rightarrow> world \<Rightarrow> bool" where
  "http_good e url content tag h w \<longleftrightarrow>
     serves e url content tag \<and> length content < 2 ^ 63 \<and> h_path h = url \<and>
     (unsafe_disable_etag_checks (h_params h) \<or> h_etag h = '''' \<or>
      StripETagQuotes tag = StripETagQuotes (h_etag h))"

section \<open>The handlers against a good answer\<close>

definition only_version :: "'a hfh_scheme \<Rightarrow> 'a hfh_scheme range_state \<Rightarrow> bool" where
  "only_version h s \<longleftrightarrow> (\<exists>v. rr_h s = h\<lparr>h_version_id := v\<rparr>)"

lemma pin_version_only: "\<exists>v. pin_version p r (h\<lparr>h_version_id := u\<rparr>) = h\<lparr>h_version_id := v\<rparr>"
  by (auto simp: pin_version_def)

lemma only_version_response:
  "only_version h s \<Longrightarrow> only_version h (snd (range_response_handler p etag n r s))"
  using pin_version_only by (fastforce simp: only_version_def range_response_handler_def Let_def
      split: option.splits)

lemma only_version_content:
  "only_version h s \<Longrightarrow> only_version h (snd (range_content_handler n d s))"
  by (auto simp: only_version_def range_content_handler_def split: option.splits)

lemma run_redirects:
  "\<forall>p \<in> set ps. 300 \<le> status p \<Longrightarrow>
   run_events (range_response_handler q etag n) ch (map RespHead ps @ es) s
     = run_events (range_response_handler q etag n) ch es s"
  by (induction ps) (auto simp: range_response_handler_def)

lemma stoull_to_string_exact: "n < w64 \<Longrightarrow> stoull (to_string n) = Some n"
  using stoull_to_string [of n] by simp

lemma response_accepts:
  assumes "status rh < 300" and "\<not> etag_mismatch p etag rh" and "n < w64"
    and "hdrs rh ''Content-Length'' \<in> {None, Some (to_string n)}"
  shows "\<exists>s'. range_response_handler p etag n rh s = (None, s') \<and> rr_out s' = 0
      \<and> rr_dst s' = rr_dst s"
  using assms stoull_to_string_exact [OF assms(3)]
  by (auto simp: range_response_handler_def Let_def has_header_def header_value_def split: option.splits)

lemma data_fits:
  assumes "rr_dst s = Some d" and "rr_out s + length (concat ds) \<le> n" and "n \<le> length d"
  shows "\<exists>s'. run_events rh (range_content_handler n) (map Data ds) s = (None, s')"
  using assms
proof (induction ds arbitrary: s d)
  case Nil
  then show ?case by simp
next
  case (Cons x ds)
  let ?s1 = "s\<lparr>rr_dst := Some (overwrite d (rr_out s) x), rr_out := rr_out s + length x\<rparr>"
  have c: "range_content_handler n x s = (None, ?s1)"
    using Cons.prems by (simp add: range_content_handler_def)
  have "\<exists>s'. run_events rh (range_content_handler n) (map Data ds) ?s1 = (None, s')"
    by (rule Cons.IH [of _ "overwrite d (rr_out s) x"]) (use Cons.prems in auto)
  then show ?case using c by simp
qed

text \<open>A good answer makes the whole transfer succeed and fills the buffer.\<close>

lemma good_transfer:
  assumes ans: "good_answer content tag off len ats" and len: "len \<le> length d"
    and off: "off + len \<le> length content" and small: "length content < w64"
    and tag: "unsafe_disable_etag_checks p \<or> etag = '''' \<or> StripETagQuotes tag = StripETagQuotes etag"
    and s0: "s0 = \<lparr>rr_h = h, rr_w = w, rr_dst = Some d, rr_out = 0\<rparr>"
  shows "\<exists>r s v. run_attempts (range_response_handler p etag len) (range_content_handler len) ats s0
            = (Inr (Some r), s)
          \<and> rr_dst s = Some (overwrite d 0 (slice content off len)) \<and> rr_out s = len
          \<and> rr_h s = h\<lparr>h_version_id := v\<rparr>
          \<and> \<not> has_request_error r \<and> success r \<and> status r < 400
          \<and> at_outcome (last ats) = Inr (Some r)"
proof -
  let ?rh = "range_response_handler p etag len" and ?ch = "range_content_handler len"
  obtain before redirects hd ds r where
    ats: "ats = before @ [Attempt (map RespHead redirects @ RespHead hd # map Data ds) (Inr (Some r))]"
    and redir: "\<forall>p \<in> set redirects. 300 \<le> status p" and hd: "status hd < 300"
      "hdrs hd ''ETag'' \<in> {None, Some tag}" "hdrs hd ''Content-Length'' \<in> {None, Some (to_string len)}"
    and ds: "concat ds = slice content off len"
    and r: "\<not> has_request_error r" "success r" "status r < 400"
    using ans unfolding good_answer_def by blast
  let ?s1 = "snd (run_attempts ?rh ?ch before s0)"
  let ?a = "Attempt (map RespHead redirects @ RespHead hd # map Data ds) (Inr (Some r))"
  have inv: "range_inv d len ?s1" by (rule range_inv_attempts [OF len]) (simp add: range_inv_def s0)
  then obtain d1 where d1: "rr_dst ?s1 = Some d1" "length d1 = length d" by (auto simp: range_inv_def)
  have no_mis: "\<not> etag_mismatch p etag hd"
    using tag hd(2) by (auto simp: etag_mismatch_def has_header_def header_value_def)
  obtain s2 where s2: "?rh hd ?s1 = (None, s2)" "rr_out s2 = 0" "rr_dst s2 = Some d1"
    using response_accepts [OF hd(1) no_mis _ hd(3), of ?s1] off small d1 by auto
  obtain s3 where s3: "run_events ?rh ?ch (map Data ds) s2 = (None, s3)"
    using data_fits [OF s2(3), of ds len ?rh] s2(2) d1(2) len ds by auto
  have run: "run_attempt ?rh ?ch ?a ?s1 = (Inr (Some r), s3)"
    using s2(1) s3 by (simp add: run_attempt_def run_redirects [OF redir])
  have out: "rr_out s3 = length (concat ds)"
    and dst: "rr_dst s3 = Some (overwrite d 0 (concat ds @ drop (length (concat ds)) (take len (the (rr_dst s3)))))"
    using last_attempt_exact [OF inv len hd(1) run] by blast+
  have l: "length (concat ds) = len" using ds off by simp
  have "drop len (take len (the (rr_dst s3))) = []" by simp
  then have dst': "rr_dst s3 = Some (overwrite d 0 (slice content off len))" using dst l ds by simp
  have "only_version h (snd (run_attempts ?rh ?ch ats s0))"
    by (rule run_attempts_inv [where I = "only_version h"])
      (simp_all add: only_version_response only_version_content, simp add: only_version_def s0,
        metis hfh.surjective hfh.update_convs(7))
  moreover have all: "run_attempts ?rh ?ch ats s0 = (Inr (Some r), s3)"
    using run by (simp add: ats run_attempts_append_last)
  ultimately obtain v where "rr_h s3 = h\<lparr>h_version_id := v\<rparr>" by (auto simp: only_version_def)
  moreover have "at_outcome (last ats) = Inr (Some r)" by (simp add: ats)
  ultimately show ?thesis using all dst' out l r by auto
qed

section \<open>GetRangeRequest provides ranges\<close>

lemma http_fetch:
  assumes g: "http_good e url content tag h w" and len0: "0 < len"
    and off: "off + len \<le> length content" and len: "len \<le> length dst"
  shows "\<exists>r h' w'. fs_GetRange (http_ops e) (h_path h) off (Some dst) len h w
            = (Inr (Some r), Some (overwrite dst 0 (slice content off len)), h', w')
          \<and> \<not> has_request_error r \<and> success r \<and> http_good e url content tag h' w' \<and> same_view h h'"
proof -
  obtain p hm2 where hm2: "AddHandleHeaders (h_params h) (AddUserAgentIfAvailable (h_params h) []) = (p, hm2)"
    by (cases "AddHandleHeaders (h_params h) (AddUserAgentIfAvailable (h_params h) [])") auto
  have p: "unsafe_disable_etag_checks p = unsafe_disable_etag_checks (h_params h)"
    using hm2 by (auto simp: AddHandleHeaders_def)
  let ?h1 = "h\<lparr>h_params := p\<rparr>"
  obtain sent hm3 where hm3: "AddConsistencyPreconditions e ?h1 hm2 = (sent, hm3)" by fastforce
  obtain cl h2 where h2: "h_GetClient e ?h1 w = (cl, h2)" by fastforce
  obtain c where c: "h2 = ?h1\<lparr>h_clients := c\<rparr>"
    using h2 by (auto simp: h_GetClient_def split: prod.splits option.splits)
  let ?rq = "(base_request GET (h_path h) (hm3 @ [HInsert ''Range'' (range_expr off len)]) p)
                 \<lparr>rq_try := h_auto_fallback h\<rparr>"
  let ?tr = "e_net e (w_clock w) ?rq (Some cl)"
  let ?s0 = "\<lparr>rr_h = h2, rr_w = tick w, rr_dst = Some dst, rr_out = 0\<rparr>"
  have g': "serves e url content tag" "length content < 2 ^ 63" "h_path h = url"
      "unsafe_disable_etag_checks p \<or> h_etag h = '''' \<or> StripETagQuotes tag = StripETagQuotes (h_etag h)"
    using g p by (auto simp: http_good_def)
  have ans: "good_answer content tag off len (attempts ?tr)"
    using g' len0 off by (simp add: serves_def base_request_def)
  have small: "length content < w64" using g'(2) by simp
  obtain r s v where s: "run_attempts (range_response_handler p (h_etag h) len)
        (range_content_handler len) (attempts ?tr) ?s0 = (Inr (Some r), s)"
      "rr_dst s = Some (overwrite dst 0 (slice content off len))" "rr_out s = len"
      "rr_h s = h2\<lparr>h_version_id := v\<rparr>" "\<not> has_request_error r" "success r" "status r < 400"
    using good_transfer [OF ans len off small g'(4) refl] by blast
  let ?h' = "h_StoreClient (client_after ?tr) (rr_h s)"
  have "fs_GetRange (http_ops e) (h_path h) off (Some dst) len h w
      = (Inr (Some r), Some (overwrite dst 0 (slice content off len)), ?h', rr_w s)"
    using s hm2 hm3 h2 c
    by (simp add: http_ops_def GetRangeRequest_def RunGetRangeRequest_def Let_def run_transfer_Inr)
  moreover have "http_good e url content tag ?h' (rr_w s)"
    using g' s(4) c by (simp add: http_good_def h_StoreClient_def)
  moreover have "same_view h ?h'" using s(4) c by (simp add: same_view_def h_StoreClient_def)
  ultimately show ?thesis using s by blast
qed

interpretation http: range_provider "http_ops e" content "http_good e url content tag"
  for e :: env and content url tag
proof unfold_locales
  fix h :: "'a hfh_scheme" and w len off dst
  assume "http_good e url content tag h w" and "0 < len" and "off + len \<le> length content"
    and "len \<le> length (dst::bytes)"
  then show "\<exists>r h' w'. fs_GetRange (http_ops e) (h_path h) off (Some dst) len h w
          = (Inr (Some r), Some (overwrite dst 0 (slice content off len)), h', w')
        \<and> \<not> has_request_error r \<and> success r \<and> http_good e url content tag h' w' \<and> same_view h h'"
    by (rule http_fetch)
next
  fix h :: "'a hfh_scheme" and w av ix fo bs be rb st
  assume "http_good e url content tag h w"
  then show "http_good e url content tag (read_frame av ix fo bs be rb st h) w"
    by (simp add: http_good_def read_frame_def)
next
  fix h :: "'a hfh_scheme" and w
  assume "http_good e url content tag h w"
  then show "length content < 2 ^ 63" by (simp add: http_good_def)
qed

section \<open>A concrete server\<close>

text \<open>Reading a Range header value back: the two bounds.\<close>

definition parse_range :: "string \<Rightarrow> (nat \<times> nat) option" where
  "parse_range v =
     (let rest = drop 6 v
      in case first_index (\<lambda>c. c = CHR ''-'') rest of
           None \<Rightarrow> None
         | Some i \<Rightarrow>
             (case (stoull (take i rest), stoull (drop (Suc i) rest)) of
                (Some a, Some b) \<Rightarrow> Some (a, b) | _ \<Rightarrow> None))"

lemma range_expr_roundtrip:
  assumes "0 < len" and "off + len < w64"
  shows "parse_range (range_expr off len) = Some (off, off + len - 1)"
proof -
  have b: "sub64 (add64 off len) 1 = off + len - 1"
    using assms by (simp add: add64_exact sub64_exact)
  have "\<forall>c \<in> set (to_string off). c \<noteq> CHR ''-''"
    using to_string_digits [of off] digit_not_sign by blast
  then have "first_index (\<lambda>c. c = CHR ''-'') (to_string off @ CHR ''-'' # to_string (off + len - 1))
      = Some (length (to_string off))"
    by (intro first_index_append) auto
  then show ?thesis
    using assms b by (simp add: parse_range_def range_expr_def Let_def stoull_to_string)
qed

definition demo_response :: "nat \<Rightarrow> (string \<Rightarrow> string option) \<Rightarrow> response" where
  "demo_response st hs =
     \<lparr>status = st, resp_url = '''', body = '''', reason = '''', request_error = '''',
      success = (st < 300), cancelled = False, hdrs = hs\<rparr>"

text \<open>
  The server: a redirect, then the range in two chunks, with an ETag; 404 for anything else. A
  first attempt sends one chunk and breaks off.
\<close>

definition demo_answer :: "bytes \<Rightarrow> string \<Rightarrow> nat \<Rightarrow> nat \<Rightarrow> attempt list" where
  "demo_answer content tag a b =
     (let len = Suc b - a; data = slice content a len;
          r = demo_response 206 [''ETag'' \<mapsto> tag, ''Content-Length'' \<mapsto> to_string len]
      in [Attempt [RespHead r, Data (take 1 data)] (Inl (Exn ExIO ''connection reset'' None)),
          Attempt [RespHead (demo_response 302 Map.empty), RespHead r,
                   Data (take 1 data), Data (drop 1 data)] (Inr (Some r))])"

definition demo_net :: "bytes \<Rightarrow> string \<Rightarrow> transport" where
  "demo_net content tag k rq cl =
     \<lparr>attempts = (case rq_headers rq of
          [] \<Rightarrow> [Attempt [] (Inr (Some (demo_response 404 Map.empty)))]
        | hs \<Rightarrow> (case last hs of
              HInsert _ v \<Rightarrow> (case parse_range v of Some (a, b) \<Rightarrow> demo_answer content tag a b
                | None \<Rightarrow> [Attempt [] (Inr (Some (demo_response 404 Map.empty)))])
            | HSet _ _ \<Rightarrow> [Attempt [] (Inr (Some (demo_response 404 Map.empty)))])),
      client_after = cl\<rparr>"

definition demo_env :: "bytes \<Rightarrow> string \<Rightarrow> env" where
  "demo_env content tag =
     \<lparr>e_net = demo_net content tag,
      e_err_response = (\<lambda>ex. (demo_response 0 Map.empty)\<lparr>request_error := ''E'' @ ex_msg ex\<rparr>),
      e_error_data = (\<lambda>s. Exn ExHTTP (tl s) None),
      e_http_date = (\<lambda>_. ''date''), e_parse_date = (\<lambda>_. None),
      e_new_client = (\<lambda>k. k), e_elapsed = (\<lambda>_. 0)\<rparr>"

lemma demo_answer_good:
  assumes "0 < len"
  shows "good_answer content tag off len (demo_answer content tag off (off + len - 1))"
proof -
  let ?r = "demo_response 206 [''ETag'' \<mapsto> tag, ''Content-Length'' \<mapsto> to_string len]"
  let ?d = "slice content off len"
  have l: "Suc (off + len - 1) - off = len" using assms by simp
  have ats: "demo_answer content tag off (off + len - 1)
      = [Attempt [RespHead ?r, Data (take 1 ?d)] (Inl (Exn ExIO ''connection reset'' None))] @
        [Attempt (map RespHead [demo_response 302 Map.empty] @ RespHead ?r #
           map Data [take 1 ?d, drop 1 ?d]) (Inr (Some ?r))]"
    unfolding demo_answer_def Let_def l by simp
  show ?thesis unfolding good_answer_def ats
    by (intro exI [of _ "[Attempt [RespHead ?r, Data (take 1 ?d)] (Inl (Exn ExIO ''connection reset'' None))]"]
        exI [of _ "[demo_response 302 Map.empty]"] exI [of _ ?r] exI [of _ "[take 1 ?d, drop 1 ?d]"])
      (simp add: demo_response_def has_request_error_def)
qed

lemma demo_serves:
  assumes "length content < w64"
  shows "serves (demo_env content tag) url content tag"
  unfolding serves_def
proof (intro allI impI)
  fix k off len :: nat and rq :: http_request and cl hm
  assume hd: "rq_headers rq = hm @ [HInsert ''Range'' (range_expr off len)]"
    and len: "0 < len" and off: "off + len \<le> length content"
  have pr: "parse_range (range_expr off len) = Some (off, off + len - 1)"
    using range_expr_roundtrip [OF len] off assms by simp
  have ats: "attempts (e_net (demo_env content tag) k rq cl) = demo_answer content tag off (off + len - 1)"
    using hd pr by (cases hm) (simp_all add: demo_env_def demo_net_def)
  show "good_answer content tag off len (attempts (e_net (demo_env content tag) k rq cl))"
    unfolding ats by (rule demo_answer_good [OF len])
qed

section \<open>A concrete handle\<close>

definition demo_base :: http_params where
  "demo_base = \<lparr>timeout = 30, timeout_usec = 0, retries = 3, retry_wait_ms = 100,
     retry_backoff = 4, keep_alive = True, follow_location = True, override_verify_ssl = False,
     verify_ssl = True, http_proxy = '''', http_proxy_port = 0, http_proxy_username = '''',
     http_proxy_password = '''', extra_headers = [], logger = False\<rparr>"

definition demo_params :: httpfs_params where
  "demo_params = new_httpfs_params demo_base"

definition demo_flags :: open_flags where
  "demo_flags = \<lparr>of_read = True, of_write = False, of_append = False, of_create = False,
     of_overwrite = False, of_null_if_not_exists = False, of_direct_io = False, of_parallel = False\<rparr>"

definition demo_handle :: "string \<Rightarrow> nat \<Rightarrow> string \<Rightarrow> nat \<Rightarrow> hfh" where
  "demo_handle url sz tag bufsize =
     (new_handle \<lparr>fi_path = url, fi_ext = None\<rparr> demo_flags demo_params)
       \<lparr>h_length := sz, h_etag := tag, h_initialized := True,
        read_buffer := replicate bufsize (CHR 0x00)\<rparr>"

definition demo_world :: world where
  "demo_world = \<lparr>w_http = new_http_state, w_cache = None,
     w_ctx_cache = new_metadata_cache True True, w_clock = 0, w_secrets = 0\<rparr>"

lemmas demo_defs = demo_handle_def new_handle_def demo_flags_def demo_params_def demo_world_def
  demo_base_def new_httpfs_params_def http_params.defs httpfs_params.defs

lemma demo_handle_good:
  "length content < 2 ^ 63 \<Longrightarrow>
   http_good (demo_env content tag) url content tag (demo_handle url sz tag m) w"
  using demo_serves [of content tag url] by (simp add: http_good_def demo_defs Let_def)

lemma demo_handle_window: "window_ok content (demo_handle url sz tag m)"
  by (simp add: window_ok_def demo_defs slice_0)

section \<open>What the requests guarantee\<close>

text \<open>
  C2: Buffered reads over HTTP are exact. On a handle whose window is sound, against a server that
  serves the content (possibly after failed attempts and redirects), Read of n bytes at loc returns
  no error, writes exactly the content's bytes [loc, loc + n) into the caller's buffer and leaves
  the rest of it alone, moves the position behind them, and leaves a handle on which the next read
  is exact again.
\<close>

theorem http_read_exact:
  assumes "http_good e url content tag h w" and "window_ok content h"
    and "h_length h = length content" and "h_cached_file h = None"
    and "loc + n \<le> length content" and "n \<le> length dst"
  shows "\<exists>h' w'. Read e (http_ops e) n loc dst h w
            = (None, overwrite dst 0 (slice content loc n), h', w')
          \<and> file_offset h' = loc + n \<and> http_good e url content tag h' w' \<and> window_ok content h'"
  by (rule http.Read_exact [OF assms])

theorem http_read_exact_witness:
  "\<exists>h' w'. Read (demo_env ''abcdefghijklmno'' ''t'') (http_ops (demo_env ''abcdefghijklmno'' ''t''))
       3 5 ''......'' (demo_handle ''u'' 15 ''t'' 4) demo_world = (None, ''fgh...'', h', w')"
proof -
  have "http_good (demo_env ''abcdefghijklmno'' ''t'') ''u'' ''abcdefghijklmno'' ''t''
      (demo_handle ''u'' 15 ''t'' 4) demo_world" by (rule demo_handle_good) simp
  moreover have "h_length (demo_handle ''u'' 15 ''t'' 4) = length ''abcdefghijklmno''"
    "h_cached_file (demo_handle ''u'' 15 ''t'' 4) = None" by (simp_all add: demo_defs Let_def)
  ultimately show ?thesis
    using http_read_exact [of "demo_env ''abcdefghijklmno'' ''t''" "''u''" "''abcdefghijklmno''"
        "''t''" "demo_handle ''u'' 15 ''t'' 4" demo_world 5 3 "''......''"] demo_handle_window
    by (auto simp: overwrite_def slice_def)
qed

text \<open>
  C7: A successful range request fills its buffer exactly. Whatever earlier attempts and redirects
  of the transfer delivered, when RunGetRangeRequest returns a successful response into a buffer,
  the last response's body has the requested length, the buffer starts with that body, and its
  bytes from len on are unchanged; a body of another length is never reported as success.
\<close>

theorem range_request_exact:
  assumes "RunGetRangeRequest e url hm p etag auto off (Some d) len ge send h w
        = (Inr (Some r), s, cl)"
    and "\<not> has_request_error r" and "success r" and "len \<le> length d"
    and "\<And>ex. has_request_error (e_err_response e ex)"
    and "attempts (send ((base_request GET url (hm @ [HInsert ''Range'' (range_expr off len)]) p)
        \<lparr>rq_try := auto\<rparr>)) = as @ [Attempt (pre @ RespHead rh # map Data ds) oc]"
    and "status rh < 300"
  shows "length (concat ds) = len \<and> rr_dst s = Some (overwrite d 0 (concat ds))"
  by (rule RunGetRangeRequest_complete [OF assms])

definition two_attempts :: "http_request \<Rightarrow> transfer" where
  "two_attempts rq =
     \<lparr>attempts = [Attempt [RespHead (demo_response 206 Map.empty), Data ''xx''] (Inr None)] @
        [Attempt ([] @ RespHead (demo_response 206 Map.empty) # map Data [''a'', ''bc''])
           (Inr (Some (demo_response 206 Map.empty)))],
      client_after = None\<rparr>"

theorem range_request_exact_witness:
  "\<exists>s cl. RunGetRangeRequest (demo_env [] []) ''u'' [] demo_params '''' True 7 (Some ''.....'') 3
       (\<lambda>r w. (GetHTTPError r ''u'', w)) two_attempts (demo_handle ''u'' 15 '''' 4) demo_world
     = (Inr (Some (demo_response 206 Map.empty)), s, cl) \<and>
   length (concat [''a'', ''bc'']) = 3 \<and> rr_dst s = Some (overwrite ''.....'' 0 ''abc'')"
proof -
  let ?run = "RunGetRangeRequest (demo_env [] []) ''u'' [] demo_params '''' True 7 (Some ''.....'') 3
       (\<lambda>r w. (GetHTTPError r ''u'', w)) two_attempts (demo_handle ''u'' 15 '''' 4) demo_world"
  obtain s cl where run: "?run = (Inr (Some (demo_response 206 Map.empty)), s, cl)"
    by (simp add: RunGetRangeRequest_def Let_def two_attempts_def run_transfer_def run_attempt_def
        range_response_handler_def range_content_handler_def etag_mismatch_def pin_version_def
        demo_response_def has_header_def has_request_error_def overwrite_def demo_params_def
        demo_base_def new_httpfs_params_def http_params.defs httpfs_params.defs)
  have "length (concat [''a'', ''bc'']) = 3 \<and> rr_dst s = Some (overwrite ''.....'' 0 (concat [''a'', ''bc'']))"
    by (rule range_request_exact [OF run, where as = "[Attempt [RespHead (demo_response 206 Map.empty),
          Data ''xx''] (Inr None)]" and pre = "[]" and rh = "demo_response 206 Map.empty"
          and oc = "Inr (Some (demo_response 206 Map.empty))"])
      (simp_all add: two_attempts_def demo_response_def has_request_error_def demo_env_def)
  with run show ?thesis by simp
qed

text \<open>What a try_request reports of an exception, ErrorData reads back.\<close>

definition error_reported :: "env \<Rightarrow> exn \<Rightarrow> bool" where
  "error_reported e ex \<longleftrightarrow>
     has_request_error (e_err_response e ex) \<and>
     e_error_data e (request_error (e_err_response e ex)) = ex"

section \<open>A file that changed\<close>

text \<open>The request a range read sends, up to its Range header.\<close>

lemma GetRangeRequest_run:
  "\<exists>sent hm cl h2 p. GetRangeRequest e url [] off dst len h w =
     (case RunGetRangeRequest e url hm p (h_etag h) (h_auto_fallback h) off dst len
             (\<lambda>r w. MakeConsistencyAwareError r sent (h_path h) (\<lambda>r. GetHTTPError r url) w)
             (\<lambda>rq. e_net e (w_clock w) rq (Some cl)) h2 (tick w) of
        (Inl ex, s, _) \<Rightarrow> (Inl ex, rr_dst s, rr_h s, rr_w s)
      | (Inr r, s, cl') \<Rightarrow> (Inr r, rr_dst s, h_StoreClient cl' (rr_h s), rr_w s)) \<and>
     h_path h2 = h_path h \<and> h_params h2 = p \<and>
     unsafe_disable_etag_checks p = unsafe_disable_etag_checks (h_params h) \<and>
     auto_fallback_to_full_download p = auto_fallback_to_full_download (h_params h) \<and>
     (sent \<longleftrightarrow> \<not> unsafe_disable_etag_checks (h_params h) \<and>
        (IsStrongEtag (h_etag h) \<or> 0 < h_last_modified h))"
proof -
  obtain p hm2 where hm2: "AddHandleHeaders (h_params h) (AddUserAgentIfAvailable (h_params h) []) = (p, hm2)"
    by (cases "AddHandleHeaders (h_params h) (AddUserAgentIfAvailable (h_params h) [])") auto
  let ?h1 = "h\<lparr>h_params := p\<rparr>"
  obtain sent hm3 where hm3: "AddConsistencyPreconditions e ?h1 hm2 = (sent, hm3)" by fastforce
  obtain cl h2 where h2: "h_GetClient e ?h1 w = (cl, h2)" by fastforce
  obtain c where c: "h2 = ?h1\<lparr>h_clients := c\<rparr>"
    using h2 by (auto simp: h_GetClient_def split: prod.splits option.splits)
  have p: "unsafe_disable_etag_checks p = unsafe_disable_etag_checks (h_params h)"
    "auto_fallback_to_full_download p = auto_fallback_to_full_download (h_params h)"
    using hm2 by (auto simp: AddHandleHeaders_def)
  have "sent \<longleftrightarrow> \<not> unsafe_disable_etag_checks (h_params h) \<and>
        (IsStrongEtag (h_etag h) \<or> 0 < h_last_modified h)"
    using hm3 p by (auto simp: AddConsistencyPreconditions_def split: if_splits)
  then show ?thesis using hm2 hm3 h2 c p
    by (intro exI [of _ sent] exI [of _ hm3] exI [of _ cl] exI [of _ h2] exI [of _ p])
      (simp add: GetRangeRequest_def Let_def)
qed

lemma range_handlers_path:
  "h_path (rr_h s) = u \<Longrightarrow> h_path (rr_h (snd (range_response_handler p etag n r s))) = u"
  "h_path (rr_h s) = u \<Longrightarrow> h_path (rr_h (snd (range_content_handler n d s))) = u"
  by (auto simp: range_response_handler_def range_content_handler_def Let_def pin_version_def
      split: option.splits)

text \<open>
  C31: A failed precondition is reported as a changed file. When a range read sent a precondition (a
  strong ETag or a modification time is known and checks are on) and the final answer is 412, the
  read fails with the "appears to have changed" error carrying that response, and the path's entry
  is gone from the global metadata cache.
\<close>

theorem failed_precondition_reported:
  assumes "\<forall>rq cl. \<exists>as heads. attempts (e_net e (w_clock w) rq cl)
      = as @ [Attempt (map RespHead heads) (Inr (Some r))] \<and> (\<forall>p \<in> set heads. 300 \<le> status p)"
    and "status r = PreconditionFailed_412" and "\<not> has_request_error r"
    and "\<not> unsafe_disable_etag_checks (h_params h)"
    and "IsStrongEtag (h_etag h) \<or> 0 < h_last_modified h"
  shows "\<exists>d h' w'. GetRangeRequest e url [] off dst len h w
        = (Inl (Exn ExHTTP ''Remote file appears to have changed'' (Some r)), d, h', w') \<and>
     (\<forall>c. w_cache w' = Some c \<longrightarrow> md_lookup c (h_path h) = None)"
proof -
  obtain sent hm cl h2 p where g: "GetRangeRequest e url [] off dst len h w =
     (case RunGetRangeRequest e url hm p (h_etag h) (h_auto_fallback h) off dst len
             (\<lambda>r w. MakeConsistencyAwareError r sent (h_path h) (\<lambda>r. GetHTTPError r url) w)
             (\<lambda>rq. e_net e (w_clock w) rq (Some cl)) h2 (tick w) of
        (Inl ex, s, _) \<Rightarrow> (Inl ex, rr_dst s, rr_h s, rr_w s)
      | (Inr r, s, cl') \<Rightarrow> (Inr r, rr_dst s, h_StoreClient cl' (rr_h s), rr_w s))"
    and sent: "sent" using GetRangeRequest_run [of e url off dst len h w] assms(4,5) by blast
  let ?rq = "(base_request GET url (hm @ [HInsert ''Range'' (range_expr off len)]) p)
                 \<lparr>rq_try := h_auto_fallback h\<rparr>"
  obtain as heads where a: "attempts (e_net e (w_clock w) ?rq (Some cl))
      = as @ [Attempt (map RespHead heads) (Inr (Some r))]" "\<forall>p \<in> set heads. 300 \<le> status p"
    using assms(1) by blast
  let ?s = "snd (run_attempts (range_response_handler p (h_etag h) len) (range_content_handler len) as
      \<lparr>rr_h = h2, rr_w = tick w, rr_dst = dst, rr_out = 0\<rparr>)"
  have "run_attempt (range_response_handler p (h_etag h) len) (range_content_handler len)
      (Attempt (map RespHead heads) (Inr (Some r))) ?s = (Inr (Some r), ?s)"
    using run_redirects [OF a(2), of p "h_etag h" len _ "[]" ?s] by (simp add: run_attempt_def)
  then have "run_attempts (range_response_handler p (h_etag h) len) (range_content_handler len)
      (as @ [Attempt (map RespHead heads) (Inr (Some r))])
      \<lparr>rr_h = h2, rr_w = tick w, rr_dst = dst, rr_out = 0\<rparr> = (Inr (Some r), ?s)"
    by (simp add: run_attempts_append_last)
  then show ?thesis using g a(1) assms(2,3) sent
    by (auto simp: RunGetRangeRequest_def Let_def run_transfer_Inr MakeConsistencyAwareError_def
        erase_global_def md_Erase_def)
qed

definition stale_env :: env where
  "stale_env = (demo_env [] [])\<lparr>e_net := (\<lambda>k rq cl. \<lparr>attempts = [] @
     [Attempt (map RespHead [demo_response 302 Map.empty]) (Inr (Some (demo_response 412 Map.empty)))],
     client_after = cl\<rparr>)\<rparr>"

theorem failed_precondition_reported_witness:
  "\<exists>d h' w'. GetRangeRequest stale_env ''u'' [] 0 (Some ''....'') 4 (demo_handle ''u'' 9 ''tag'' 4)
       (demo_world\<lparr>w_cache := Some (md_Insert ''u'' (GetCacheEntry (demo_handle ''u'' 9 ''tag'' 4))
           (new_metadata_cache False True))\<rparr>)
     = (Inl (Exn ExHTTP ''Remote file appears to have changed'' (Some (demo_response 412 Map.empty))), d, h', w') \<and>
   (\<forall>c. w_cache w' = Some c \<longrightarrow> md_lookup c ''u'' = None)"
proof -
  let ?w = "demo_world\<lparr>w_cache := Some (md_Insert ''u'' (GetCacheEntry (demo_handle ''u'' 9 ''tag'' 4))
           (new_metadata_cache False True))\<rparr>"
  let ?h = "demo_handle ''u'' 9 ''tag'' 4"
  have "\<exists>d h' w'. GetRangeRequest stale_env ''u'' [] 0 (Some ''....'') 4 ?h ?w
     = (Inl (Exn ExHTTP ''Remote file appears to have changed'' (Some (demo_response 412 Map.empty))), d, h', w') \<and>
     (\<forall>c. w_cache w' = Some c \<longrightarrow> md_lookup c (h_path ?h) = None)"
  proof (rule failed_precondition_reported)
    show "\<forall>rq cl. \<exists>as heads. attempts (e_net stale_env (w_clock ?w) rq cl)
      = as @ [Attempt (map RespHead heads) (Inr (Some (demo_response 412 Map.empty)))] \<and>
        (\<forall>p \<in> set heads. 300 \<le> status p)"
      by (intro allI exI [of _ "[]"] exI [of _ "[demo_response 302 Map.empty]"])
        (simp add: stale_env_def demo_response_def)
  qed (simp_all add: demo_response_def has_request_error_def demo_defs Let_def IsStrongEtag_def)
  moreover have "h_path ?h = ''u''" by (simp add: demo_defs Let_def)
  ultimately show ?thesis by simp
qed

text \<open>
  A changed ETag stops the read. When the final answer to a range read carries a non-empty ETag
  that differs (up to quotes) from the handle's, checks being on, the read fails with the ETag
  error and that response, nothing of that answer reaches the caller's buffer, and the path's entry
  is gone from the global metadata cache, whether or not a full-download fallback is enabled.
\<close>

definition changed_etag :: "response \<Rightarrow> exn" where
  "changed_etag r = Exn ExHTTP ''ETag on reading file'' (Some r)"

theorem changed_etag_stops_read:
  assumes "\<forall>rq cl. \<exists>heads evs oc. attempts (e_net e (w_clock w) rq cl)
      = [Attempt (map RespHead heads @ RespHead rh # evs) oc] \<and> (\<forall>p \<in> set heads. 300 \<le> status p)"
    and "status rh < 300" and "etag_mismatch (h_params h) (h_etag h) rh"
    and "error_reported e (changed_etag rh)"
  shows "\<exists>h' w'. TryRangeRequest e (http_ops e) url off dst len h w
        = (Inl (changed_etag rh), dst, h', w') \<and>
     (\<forall>c. w_cache w' = Some c \<longrightarrow> md_lookup c (h_path h) = None)"
proof -
  obtain sent hm cl h2 p where g: "GetRangeRequest e url [] off (Some dst) len h w =
     (case RunGetRangeRequest e url hm p (h_etag h) (h_auto_fallback h) off (Some dst) len
             (\<lambda>r w. MakeConsistencyAwareError r sent (h_path h) (\<lambda>r. GetHTTPError r url) w)
             (\<lambda>rq. e_net e (w_clock w) rq (Some cl)) h2 (tick w) of
        (Inl ex, s, _) \<Rightarrow> (Inl ex, rr_dst s, rr_h s, rr_w s)
      | (Inr r, s, cl') \<Rightarrow> (Inr r, rr_dst s, h_StoreClient cl' (rr_h s), rr_w s))"
    and h2: "h_path h2 = h_path h"
      "unsafe_disable_etag_checks p = unsafe_disable_etag_checks (h_params h)"
    using GetRangeRequest_run [of e url off "Some dst" len h w] by blast
  let ?rq = "(base_request GET url (hm @ [HInsert ''Range'' (range_expr off len)]) p)
                 \<lparr>rq_try := h_auto_fallback h\<rparr>"
  let ?rh = "range_response_handler p (h_etag h) len" and ?ch = "range_content_handler len"
  obtain heads evs oc where a: "attempts (e_net e (w_clock w) ?rq (Some cl))
      = [Attempt (map RespHead heads @ RespHead rh # evs) oc]" "\<forall>p \<in> set heads. 300 \<le> status p"
    using assms(1) by blast
  let ?s0 = "\<lparr>rr_h = h2, rr_w = tick w, rr_dst = Some dst, rr_out = 0\<rparr>"
  let ?s1 = "?s0\<lparr>rr_w := erase_global (h_path h) (tick w)\<rparr>"
  have m: "etag_mismatch p (h_etag h) rh" using assms(3) h2(2) by (simp add: etag_mismatch_def)
  have "?rh rh ?s0 = (Some (changed_etag rh), ?s1)"
    using assms(2) m h2(1) by (simp add: range_response_handler_def Let_def changed_etag_def)
  then have "run_attempts ?rh ?ch [Attempt (map RespHead heads @ RespHead rh # evs) oc] ?s0
      = (Inl (changed_etag rh), ?s1)"
    using run_redirects [OF a(2), of p "h_etag h" len ?ch "RespHead rh # evs" ?s0]
    by (simp add: run_attempt_def)
  then have run: "run_transfer (e_err_response e) (h_auto_fallback h) ?rh ?ch
      (attempts (e_net e (w_clock w) ?rq (Some cl))) ?s0
      = (if h_auto_fallback h then Inr (Some (e_err_response e (changed_etag rh)))
         else Inl (changed_etag rh), ?s1)"
    using a(1) by (simp add: run_transfer_def)
  have gone: "\<forall>c. w_cache (erase_global (h_path h) (tick w)) = Some c \<longrightarrow> md_lookup c (h_path h) = None"
    by (auto simp: erase_global_def md_Erase_def)
  obtain h' where "GetRangeRequest e url [] off (Some dst) len h w
      = ((if h_auto_fallback h then Inr (Some (e_err_response e (changed_etag rh)))
          else Inl (changed_etag rh)), Some dst, h', erase_global (h_path h) (tick w))"
    using g run assms(4) by (auto simp: RunGetRangeRequest_def Let_def error_reported_def split: if_splits)
  then have "TryRangeRequest e (http_ops e) url off dst len h w
      = (Inl (changed_etag rh), dst, h', erase_global (h_path h) (tick w))"
    using assms(4) by (auto simp: TryRangeRequest_def http_ops_def error_reported_def Let_def
        RespondedWithRangeRequestNotSupported_def RANGE_NOT_SUPPORTED_def changed_etag_def split: if_splits)
  then show ?thesis using gone by blast
qed

definition new_tag_env :: env where
  "new_tag_env = (demo_env [] [])\<lparr>e_net := (\<lambda>k rq cl. \<lparr>attempts =
     [Attempt (map RespHead [] @ RespHead (demo_response 206 [''ETag'' \<mapsto> ''new'']) # [Data ''abcd''])
        (Inr None)], client_after = cl\<rparr>),
     e_err_response := (\<lambda>ex. (demo_response 0 Map.empty)\<lparr>request_error := ''E''\<rparr>),
     e_error_data := (\<lambda>_. changed_etag (demo_response 206 [''ETag'' \<mapsto> ''new'']))\<rparr>"

theorem changed_etag_stops_read_witness:
  "\<exists>h' w'. TryRangeRequest new_tag_env (http_ops new_tag_env) ''u'' 0 ''....'' 4
       (demo_handle ''u'' 9 ''old'' 4) demo_world
     = (Inl (changed_etag (demo_response 206 [''ETag'' \<mapsto> ''new''])), ''....'', h', w')"
proof -
  let ?r = "demo_response 206 [''ETag'' \<mapsto> ''new'']" and ?h = "demo_handle ''u'' 9 ''old'' 4"
  have "\<exists>h' w'. TryRangeRequest new_tag_env (http_ops new_tag_env) ''u'' 0 ''....'' 4 ?h demo_world
     = (Inl (changed_etag ?r), ''....'', h', w') \<and>
     (\<forall>c. w_cache w' = Some c \<longrightarrow> md_lookup c (h_path ?h) = None)"
  proof (rule changed_etag_stops_read)
    show "\<forall>rq cl. \<exists>heads evs oc. attempts (e_net new_tag_env (w_clock demo_world) rq cl)
      = [Attempt (map RespHead heads @ RespHead ?r # evs) oc] \<and> (\<forall>p \<in> set heads. 300 \<le> status p)"
      by (intro allI exI [of _ "[]"] exI [of _ "[Data ''abcd'']"] exI [of _ "Inr None"])
        (simp add: new_tag_env_def)
    show "etag_mismatch (h_params ?h) (h_etag ?h) ?r"
      by (simp add: etag_mismatch_def demo_defs Let_def demo_response_def has_header_def
          header_value_def StripETagQuotes_def)
    show "error_reported new_tag_env (changed_etag ?r)"
      by (simp add: error_reported_def new_tag_env_def has_request_error_def)
  qed (simp add: demo_response_def)
  then show ?thesis by blast
qed

end
