(* ===== verification/Download.thy ===== *)
theory Download
  imports HttpServer
begin

text \<open>
  The full download (RunGetRequest and HTTPFileHandle::FullDownload in src/httpfs.cpp): the file a
  successful download publishes, reads served from it, and what a retry inside the download does.
\<close>

section \<open>The content handler over a whole body\<close>

lemma hs_set_file_twice [simp]: "hs_set_file r f' (hs_set_file r f st) = hs_set_file r f' st"
  by (simp add: hs_set_file_def)

lemma hs_set_file_same:
  "r < length (file_heap st) \<Longrightarrow> hs_set_file r (hs_file st r) st = st"
  by (simp add: hs_set_file_def hs_file_def)

lemma length_file_heap_set [simp]: "length (file_heap (hs_set_file r f st)) = length (file_heap st)"
  by (simp add: hs_set_file_def)

lemma run_body:
  assumes "h_cached_file h = Some ch" and "ch_file ch < length (file_heap (w_http w))"
    and "download_chunks ds (h_length h) (hs_file (w_http w) (ch_file ch)) = Inr (len', f')"
  shows "run_events rh get_content_handler (map Data ds) (h, w)
     = (None, (h\<lparr>h_length := len'\<rparr>, w\<lparr>w_http := hs_set_file (ch_file ch) f' (w_http w)\<rparr>))"
  using assms
proof (induction ds arbitrary: h w)
  case Nil
  then show ?case by (auto simp: hs_set_file_same)
next
  case (Cons d ds)
  let ?r = "ch_file ch"
  obtain l1 f1 where 1: "download_chunk d (h_length h) (hs_file (w_http w) ?r) = Inr (l1, f1)"
    "download_chunks ds l1 f1 = Inr (len', f')"
    using Cons.prems(3) by (auto split: sum.splits prod.splits)
  let ?h1 = "h\<lparr>h_length := l1\<rparr>" and ?w1 = "w\<lparr>w_http := hs_set_file ?r f1 (w_http w)\<rparr>"
  have c: "get_content_handler d (h, w) = (None, (?h1, ?w1))"
    using Cons.prems(1) 1(1) by (simp add: get_content_handler_def)
  have "run_events rh get_content_handler (map Data ds) (?h1, ?w1)
     = (None, (?h1\<lparr>h_length := len'\<rparr>, ?w1\<lparr>w_http := hs_set_file ?r f' (w_http ?w1)\<rparr>))"
    by (rule Cons.IH) (use Cons.prems 1 in simp_all)
  then show ?case using c by simp
qed

text \<open>Response heads change no more than the pinned version.\<close>

lemma run_heads:
  "\<exists>v. run_events (get_response_handler p) ch (map RespHead ps @ es) (h, w)
     = run_events (get_response_handler p) ch es (h\<lparr>h_version_id := v\<rparr>, w)"
proof (induction ps arbitrary: h)
  case Nil
  have "h = h\<lparr>h_version_id := h_version_id h\<rparr>" by simp
  then show ?case by (metis append_Nil list.map(1))
next
  case (Cons r ps)
  obtain u where u: "get_response_handler p r (h, w) = (None, (h\<lparr>h_version_id := u\<rparr>, w))"
  proof (cases "400 \<le> status r")
    case True
    have "h = h\<lparr>h_version_id := h_version_id h\<rparr>" by simp
    with True show ?thesis using that [of "h_version_id h"] by (simp add: get_response_handler_def)
  next
    case False
    have "h = h\<lparr>h_version_id := h_version_id h\<rparr>" by simp
    then obtain v where "pin_version p r h = h\<lparr>h_version_id := v\<rparr>"
      using pin_version_only [where p = p and r = r and h = h and u = "h_version_id h"] by auto
    with False show ?thesis using that [of v] by (simp add: get_response_handler_def)
  qed
  obtain v where "run_events (get_response_handler p) ch (map RespHead ps @ es)
      (h\<lparr>h_version_id := u\<rparr>, w) = run_events (get_response_handler p) ch es
      (h\<lparr>h_version_id := u, h_version_id := v\<rparr>, w)"
    using Cons.IH [of "h\<lparr>h_version_id := u\<rparr>"] by blast
  then show ?case using u by auto
qed

section \<open>One download\<close>

text \<open>
  A server that answers a plain GET in one attempt: redirects, a response head, the body in
  chunks, and a final status 200.
\<close>

definition serves_whole :: "env \<Rightarrow> string \<Rightarrow> bytes \<Rightarrow> bool" where
  "serves_whole e url content \<longleftrightarrow>
     (\<forall>k rq cl. rq_method rq = GET \<longrightarrow> rq_url rq = url \<longrightarrow>
        (\<forall>v. HInsert ''Range'' v \<notin> set (rq_headers rq)) \<longrightarrow>
        (\<exists>heads ds r. attempts (e_net e k rq cl)
              = [Attempt (map RespHead heads @ map Data ds) (Inr (Some r))] \<and>
           concat ds = content \<and> status r = OK_200))"

lemma AddConsistencyPreconditions_no_range:
  assumes "AddConsistencyPreconditions e h hm = (sent, hm')"
    and "\<forall>v. HInsert ''Range'' v \<notin> set hm"
  shows "\<forall>v. HInsert ''Range'' v \<notin> set hm'"
  using assms by (auto simp: AddConsistencyPreconditions_def split: if_splits)

lemma AddHandleHeaders_no_range:
  assumes "AddHandleHeaders p (AddUserAgentIfAvailable p' []) = (q, hm)"
  shows "\<forall>v. HInsert ''Range'' v \<notin> set hm"
  using assms by (auto simp: AddHandleHeaders_def AddUserAgentIfAvailable_def split: if_splits)

lemma GetRequest_downloads:
  assumes srv: "serves_whole e (h_path h) content" and size: "length content \<le> 2 ^ 62"
    and ch: "h_cached_file h = Some ch" "ch_file ch < length (file_heap (w_http w))"
    and fresh: "hs_file (w_http w) (ch_file ch) = new_cached_file"
  shows "\<exists>r h' w' f. GetRequest e (h_path h) [] h w = (Inr (Some r), h', w') \<and> status r = OK_200 \<and>
     h_cached_file h' = Some ch \<and> h_path h' = h_path h \<and> file_offset h' = file_offset h \<and>
     w_http w' = hs_set_file (ch_file ch) f (w_http w) \<and>
     take (length content) (cf_data f) = content \<and> length content \<le> length (cf_data f) \<and>
     \<not> cf_initialized f \<and> (content \<noteq> [] \<longrightarrow> h_length h' = length content)"
proof -
  obtain p hm2 where hm2: "AddHandleHeaders (h_params h) (AddUserAgentIfAvailable (h_params h) []) = (p, hm2)"
    by (cases "AddHandleHeaders (h_params h) (AddUserAgentIfAvailable (h_params h) [])") auto
  let ?h1 = "h\<lparr>h_params := p\<rparr>"
  obtain sent hm3 where hm3: "AddConsistencyPreconditions e ?h1 hm2 = (sent, hm3)" by fastforce
  have no_range: "\<forall>v. HInsert ''Range'' v \<notin> set hm3"
    using AddConsistencyPreconditions_no_range [OF hm3 AddHandleHeaders_no_range [OF hm2]] .
  obtain cl h2 where h2: "h_GetClient e ?h1 w = (cl, h2)" by fastforce
  obtain c where c: "h2 = ?h1\<lparr>h_clients := c\<rparr>"
    using h2 by (auto simp: h_GetClient_def split: prod.splits option.splits)
  let ?rq = "base_request GET (h_path h) hm3 p"
  let ?tr = "e_net e (w_clock w) ?rq (Some cl)"
  obtain heads ds r where tr: "attempts ?tr = [Attempt (map RespHead heads @ map Data ds) (Inr (Some r))]"
    "concat ds = content" "status r = OK_200"
  proof -
    have "rq_method ?rq = GET" "rq_url ?rq = h_path h" "rq_headers ?rq = hm3"
      by (simp_all add: base_request_def)
    moreover from this no_range have "\<forall>v. HInsert ''Range'' v \<notin> set (rq_headers ?rq)" by simp
    ultimately show ?thesis using srv that unfolding serves_whole_def by blast
  qed
  obtain v where v: "run_events (get_response_handler p) get_content_handler
      (map RespHead heads @ map Data ds) (h2, tick w)
      = run_events (get_response_handler p) get_content_handler (map Data ds)
          (h2\<lparr>h_version_id := v\<rparr>, tick w)"
    using run_heads by blast
  let ?h3 = "h2\<lparr>h_version_id := v\<rparr>" and ?r = "ch_file ch"
  have f0: "hs_file (w_http (tick w)) ?r = new_cached_file" using fresh by (simp add: tick_def)
  obtain len' f where dl: "download_chunks ds (h_length ?h3) new_cached_file = Inr (len', f)"
    "take (length content) (cf_data f) = content" "length content \<le> length (cf_data f)"
    "\<not> cf_initialized f" "content \<noteq> [] \<longrightarrow> len' = length content"
    using download_chunks_fresh [of ds "h_length ?h3"] tr(2) size by metis
  have "run_events (get_response_handler p) get_content_handler (map Data ds) (?h3, tick w)
     = (None, (?h3\<lparr>h_length := len'\<rparr>, (tick w)\<lparr>w_http := hs_set_file ?r f (w_http (tick w))\<rparr>))"
    by (rule run_body) (use ch c dl f0 in \<open>simp_all add: tick_def\<close>)
  then have run: "run_transfer (e_err_response e) False (get_response_handler p) get_content_handler
      (attempts ?tr) (h2, tick w)
      = (Inr (Some r), (?h3\<lparr>h_length := len'\<rparr>, (tick w)\<lparr>w_http := hs_set_file ?r f (w_http w)\<rparr>))"
    using v tr(1) by (simp add: run_transfer_def run_attempt_def tick_def)
  then have "GetRequest e (h_path h) [] h w = (Inr (Some r), h_StoreClient (client_after ?tr)
      (?h3\<lparr>h_length := len'\<rparr>), (tick w)\<lparr>w_http := hs_set_file ?r f (w_http w)\<rparr>)"
    using hm2 hm3 h2 tr(3) by (simp add: GetRequest_def RunGetRequest_def Let_def)
  then show ?thesis using dl tr(3) c ch by (auto simp: h_StoreClient_def)
qed

text \<open>A file the download published: its first bytes, its size, and that it is initialised.\<close>

definition published :: "bytes \<Rightarrow> cached_file \<Rightarrow> bool" where
  "published content f \<longleftrightarrow>
     cf_initialized f \<and> cf_size f = length content \<and> length content \<le> length (cf_data f) \<and>
     take (length content) (cf_data f) = content"

lemma FullDownload_publishes:
  assumes srv: "serves_whole e (h_path h) content" and size: "length content \<le> 2 ^ 62"
    and fresh: "cached_files (w_http w) (h_path h) = None" and non_empty: "content \<noteq> []"
  shows "\<exists>h' w' ch. FullDownload (http_ops e) h w = (None, h', w') \<and>
     h_cached_file h' = Some ch \<and> published content (hs_file (w_http w') (ch_file ch)) \<and>
     h_length h' = length content \<and> h_path h' = h_path h"
proof -
  let ?st = "w_http w" and ?r = "length (file_heap (w_http w))"
  let ?st1 = "?st\<lparr>cached_files := (cached_files ?st)(h_path h \<mapsto> ?r),
      file_heap := file_heap ?st @ [new_cached_file]\<rparr>"
  have get: "hs_GetCachedFile (h_path h) ?st = (?r, ?st1)"
    using fresh by (simp add: hs_GetCachedFile_def)
  have fl: "hs_file ?st1 ?r = new_cached_file" by (simp add: hs_file_def)
  let ?ch = "\<lparr>ch_file = ?r, ch_lock = True\<rparr>"
  let ?h1 = "h\<lparr>h_cached_file := Some ?ch\<rparr>" and ?w1 = "w\<lparr>w_http := ?st1\<rparr>"
  have hd: "cf_GetHandle ?r ?st1 = ?ch" using fl by (simp add: cf_GetHandle_def new_cached_file_def)
  have "serves_whole e (h_path ?h1) content" using srv by simp
  from GetRequest_downloads [OF this size, of ?ch ?w1] fl obtain r h2 w2 f
    where g: "GetRequest e (h_path ?h1) [] ?h1 ?w1 = (Inr (Some r), h2, w2)" "status r = OK_200"
      "h_cached_file h2 = Some ?ch" "h_path h2 = h_path h" "w_http w2 = hs_set_file ?r f ?st1"
      "take (length content) (cf_data f) = content" "length content \<le> length (cf_data f)"
      "\<not> cf_initialized f" "h_length h2 = length content"
    using non_empty by auto
  have f: "hs_file (w_http w2) ?r = f" using g(5) by simp
  let ?f' = "f\<lparr>cf_size := length content, cf_initialized := True\<rparr>"
  let ?w3 = "w2\<lparr>w_http := hs_set_file ?r ?f' (w_http w2)\<rparr>"
  have "hs_file (w_http ?w3) ?r = ?f'" using g(5) by simp
  then have "published content (hs_file (w_http ?w3) ?r)" using g by (simp add: published_def)
  moreover have "FullDownload (http_ops e) h w
      = (None, h2\<lparr>h_cached_file := Some (?ch\<lparr>ch_lock := False\<rparr>)\<rparr>, ?w3)"
    using get fl hd g f by (simp add: FullDownload_def http_ops_def Let_def new_cached_file_def
        cf_SetInitialized_def)
  ultimately show ?thesis using g by auto
qed

lemma read_published:
  assumes "published content (hs_file (w_http w) (ch_file ch))" and "loc + n \<le> length content"
    and "n \<le> length dst" and "length content < w64" and "h_cached_file h = Some ch"
  shows "ReadInternal e ops n loc dst h w
     = (Inr True, overwrite dst 0 (slice content loc n), h\<lparr>file_offset := loc + n\<rparr>, w)"
proof -
  let ?f = "hs_file (w_http w) (ch_file ch)"
  have "slice (cf_data ?f) loc n = slice (take (length content) (cf_data ?f)) loc n"
    using assms(2) by (simp add: slice_def drop_take min_def)
  then have "slice (cf_data ?f) loc n = slice content loc n"
    using assms(1) by (simp add: published_def)
  with assms show ?thesis
    by (simp add: ReadInternal_def read_cached_def Let_def published_def add64_exact)
qed

section \<open>Falling back to a full download\<close>

lemma Read_fallback:
  assumes first: "ReadInternal e (http_ops e) n loc dst h w = (Inr False, d, h1, w1)"
    and h1: "serves_whole e (h_path h1) content" "h_length h1 = length content"
      "cached_files (w_http w1) (h_path h1) = None"
    and size: "length content \<le> 2 ^ 62" and loc: "loc + n \<le> length content"
    and dst: "n \<le> length d" and non_empty: "content \<noteq> []"
  shows "\<exists>h' w'. Read e (http_ops e) n loc dst h w
      = (None, overwrite d 0 (slice content loc n), h', w') \<and> file_offset h' = loc + n"
proof -
  obtain h2 w2 ch where f: "FullDownload (http_ops e) h1 w1 = (None, h2, w2)"
    "h_cached_file h2 = Some ch" "published content (hs_file (w_http w2) (ch_file ch))"
    using FullDownload_publishes [OF h1(1) size h1(3) non_empty] by blast
  have small: "length content < w64" using size by simp
  have "ReadInternal e (http_ops e) n loc d h2 w2
     = (Inr True, overwrite d 0 (slice content loc n), h2\<lparr>file_offset := loc + n\<rparr>, w2)"
    by (rule read_published [OF f(3) loc dst small f(2)])
  then have "Read e (http_ops e) n loc dst h w
      = (None, overwrite d 0 (slice content loc n), h2\<lparr>file_offset := loc + n\<rparr>, w2)"
    using first f h1(2) by (simp add: Read_def read_after_download_def Let_def published_def)
  then show ?thesis by simp
qed

text \<open>
  A server without range support: it answers every GET with the whole content and its length.
\<close>

definition ignores_range :: "env \<Rightarrow> string \<Rightarrow> bytes \<Rightarrow> string \<Rightarrow> bool" where
  "ignores_range e url content tag \<longleftrightarrow>
     (\<forall>k rq cl. rq_method rq = GET \<longrightarrow> rq_url rq = url \<longrightarrow>
        (\<exists>rh ds r. attempts (e_net e k rq cl)
              = [Attempt (RespHead rh # map Data ds) (Inr (Some r))] \<and> status rh = OK_200 \<and>
           hdrs rh ''Content-Length'' = Some (to_string (length content)) \<and>
           hdrs rh ''ETag'' \<in> {None, Some tag} \<and> concat ds = content \<and> status r = OK_200))"

lemma ignores_range_whole: "ignores_range e url content tag \<Longrightarrow> serves_whole e url content"
  unfolding ignores_range_def serves_whole_def
  by (metis (no_types, opaque_lifting) append_Cons append_Nil list.map(1) list.simps(9))

text \<open>Without range support a request for a part of the file reports False.\<close>

lemma TryRangeRequest_ignored:
  assumes srv: "ignores_range e (h_path h) content tag" and er: "error_reported e RANGE_NOT_SUPPORTED"
    and part: "len \<noteq> length content" and size: "length content < w64"
    and fb: "h_auto_fallback h" "auto_fallback_to_full_download (h_params h)"
    and tag: "h_etag h = '''' \<or> StripETagQuotes tag = StripETagQuotes (h_etag h)"
  shows "\<exists>h1 w1. TryRangeRequest e (http_ops e) (h_path h) off dst len h w = (Inr False, dst, h1, w1) \<and>
     same_view h h1 \<and> w_http w1 = w_http w"
proof -
  obtain p hm2 where hm2: "AddHandleHeaders (h_params h) (AddUserAgentIfAvailable (h_params h) []) = (p, hm2)"
    by (cases "AddHandleHeaders (h_params h) (AddUserAgentIfAvailable (h_params h) [])") auto
  have p: "auto_fallback_to_full_download p"
    using hm2 fb by (auto simp: AddHandleHeaders_def)
  let ?h1 = "h\<lparr>h_params := p\<rparr>"
  obtain sent hm3 where hm3: "AddConsistencyPreconditions e ?h1 hm2 = (sent, hm3)" by fastforce
  obtain cl h2 where h2: "h_GetClient e ?h1 w = (cl, h2)" by fastforce
  obtain c where c: "h2 = ?h1\<lparr>h_clients := c\<rparr>"
    using h2 by (auto simp: h_GetClient_def split: prod.splits option.splits)
  let ?rq = "(base_request GET (h_path h) (hm3 @ [HInsert ''Range'' (range_expr off len)]) p)
                 \<lparr>rq_try := True\<rparr>"
  let ?tr = "e_net e (w_clock w) ?rq (Some cl)"
  let ?s0 = "\<lparr>rr_h = h2, rr_w = tick w, rr_dst = Some dst, rr_out = 0\<rparr>"
  have "rq_method ?rq = GET" "rq_url ?rq = h_path h" by (simp_all add: base_request_def)
  with srv obtain rh ds r where a: "attempts ?tr = [Attempt (RespHead rh # map Data ds) (Inr (Some r))]"
    "status rh = OK_200" "hdrs rh ''Content-Length'' = Some (to_string (length content))"
    "hdrs rh ''ETag'' \<in> {None, Some tag}"
    unfolding ignores_range_def by blast
  have "\<not> etag_mismatch p (h_etag h) rh"
    using tag a(4) by (auto simp: etag_mismatch_def has_header_def header_value_def)
  then have "range_response_handler p (h_etag h) len rh ?s0
      = (Some RANGE_NOT_SUPPORTED, ?s0\<lparr>rr_h := pin_version p rh h2\<rparr>)"
    using a(2,3) part stoull_to_string [OF size]
    by (simp add: range_response_handler_def Let_def has_header_def header_value_def)
  then have run: "run_transfer (e_err_response e) True (range_response_handler p (h_etag h) len)
      (range_content_handler len) (attempts ?tr) ?s0
      = (Inr (Some (e_err_response e RANGE_NOT_SUPPORTED)), ?s0\<lparr>rr_h := pin_version p rh h2\<rparr>)"
    using a(1) by (simp add: run_transfer_def run_attempt_def)
  let ?h' = "h_StoreClient (client_after ?tr) (pin_version p rh h2)"
  have "GetRangeRequest e (h_path h) [] off (Some dst) len h w
      = (Inr (Some (e_err_response e RANGE_NOT_SUPPORTED)), Some dst, ?h', tick w)"
    using run hm2 hm3 h2 c fb(1) er
    by (simp add: GetRangeRequest_def RunGetRangeRequest_def Let_def error_reported_def)
  moreover have "auto_fallback_to_full_download (h_params ?h')"
    using c p by (simp add: h_StoreClient_def pin_version_def)
  ultimately have "TryRangeRequest e (http_ops e) (h_path h) off dst len h w
      = (Inr False, dst, ?h', tick w)"
    using er by (simp add: TryRangeRequest_def http_ops_def RespondedWithRangeRequestNotSupported_def
        error_reported_def Let_def)
  moreover have "same_view h ?h'"
    using c by (simp add: same_view_def h_StoreClient_def pin_version_def)
  ultimately show ?thesis by (simp add: tick_def)
qed

text \<open>A fresh handle: nothing buffered, no request made yet.\<close>

lemma ReadInternal_ignored:
  assumes srv: "ignores_range e (h_path h) content tag" and er: "error_reported e RANGE_NOT_SUPPORTED"
    and fb: "h_auto_fallback h" "auto_fallback_to_full_download (h_params h)"
    and tag: "h_etag h = '''' \<or> StripETagQuotes tag = StripETagQuotes (h_etag h)"
    and fresh: "h_cached_file h = None" "buffer_start h = buffer_end h" "range_request_statistics h = []"
    and n: "0 < n" "n < length content" "length (read_buffer h) < length content"
    and size: "length content < w64"
  shows "\<exists>h1 w1. ReadInternal e (http_ops e) n loc dst h w = (Inr False, dst, h1, w1) \<and>
     h_path h1 = h_path h \<and> h_length h1 = h_length h \<and> w_http w1 = w_http w"
proof (cases "SkipBuffer h")
  case True
  have "n \<noteq> length content" using n by simp
  from TryRangeRequest_ignored [OF srv er this size fb tag, of loc dst w] show ?thesis
    using True fresh(1) n(1) by (auto simp: ReadInternal_def read_direct_def same_view_def)
next
  case False
  let ?h = "seek_buffer loc h"
  have h: "?h = h\<lparr>buffer_available := 0, buffer_idx := 0\<rparr>" using fresh(2) by (simp add: seek_buffer_def)
  let ?s = "\<lparr>rd_h = ?h, rd_w = w, rd_dst = dst, rd_to_read = n, rd_off = 0, rd_start = loc\<rparr>"
  have c: "copy_buffered ?s = Inr ?s" by (simp add: copy_buffered_def h)
  have probe: "\<exists>h1 w1. TryRangeRequest e (http_ops e) (h_path h) off d m ?h w = (Inr False, d, h1, w1) \<and>
     same_view ?h h1 \<and> w_http w1 = w_http w" if "m \<noteq> length content" for m off d
    using TryRangeRequest_ignored [of e ?h content tag m off d w] srv er that size fb tag by (simp add: h)
  have adapt: "AdaptReadBufferSize loc ?h = ?h" using fresh(3) by (simp add: AdaptReadBufferSize_def h)
  have lp: "read_loop e (http_ops e) ?s =
      (if refill_len ?h loc < n then read_bypass e (http_ops e) ?s
       else case refill e (http_ops e) ?s of
              (Inr True, s2) \<Rightarrow> read_loop e (http_ops e) s2 | (res, s2) \<Rightarrow> (res, s2))"
    by (subst read_loop.simps) (use c n(1) in \<open>simp add: h\<close>)
  have "\<exists>s. read_loop e (http_ops e) ?s = (Inr False, s) \<and> rd_dst s = dst \<and>
      h_path (rd_h s) = h_path h \<and> h_length (rd_h s) = h_length h \<and> w_http (rd_w s) = w_http w"
  proof (cases "refill_len ?h loc < n")
    case True
    have "n \<noteq> length content" using n by simp
    from probe [OF this, of loc dst] obtain h1 w1
      where "TryRangeRequest e (http_ops e) (h_path h) loc dst n ?h w = (Inr False, dst, h1, w1)"
        "same_view ?h h1" "w_http w1 = w_http w" by blast
    then have "read_bypass e (http_ops e) ?s = (Inr False, ?s\<lparr>rd_h := h1, rd_w := w1\<rparr>)"
      by (simp add: read_bypass_def h)
    moreover have "h_path h1 = h_path h" "h_length h1 = h_length h"
      using \<open>same_view ?h h1\<close> by (simp_all add: same_view_def h)
    ultimately show ?thesis using True \<open>w_http w1 = w_http w\<close> by (simp add: lp)
  next
    case fill: False
    let ?m = "refill_len ?h loc"
    have "?m \<noteq> length content" using n(3) by (simp add: refill_len_def h)
    from probe [OF this, of loc "read_buffer h"] obtain h1 w1
      where "TryRangeRequest e (http_ops e) (h_path h) loc (read_buffer h) ?m ?h w
          = (Inr False, read_buffer h, h1, w1)"
        "same_view ?h h1" "w_http w1 = w_http w" by blast
    then have "refill e (http_ops e) ?s
        = (Inr False, ?s\<lparr>rd_h := h1\<lparr>read_buffer := read_buffer h\<rparr>, rd_w := w1\<rparr>)"
      by (simp add: refill_def Let_def adapt) (simp add: h)
    moreover have "h_path h1 = h_path h" "h_length h1 = h_length h"
      using \<open>same_view ?h h1\<close> by (simp_all add: same_view_def h)
    ultimately show ?thesis using fill \<open>w_http w1 = w_http w\<close> by (simp add: lp)
  qed
  then show ?thesis using False fresh(1) by (fastforce simp: ReadInternal_def)
qed

lemma Read_without_range_support:
  assumes srv: "ignores_range e (h_path h) content tag" and er: "error_reported e RANGE_NOT_SUPPORTED"
    and fb: "h_auto_fallback h" "auto_fallback_to_full_download (h_params h)"
    and tag: "h_etag h = '''' \<or> StripETagQuotes tag = StripETagQuotes (h_etag h)"
    and fresh: "h_cached_file h = None" "buffer_start h = buffer_end h" "range_request_statistics h = []"
      "cached_files (w_http w) (h_path h) = None"
    and n: "0 < n" "n < length content" "length (read_buffer h) < length content"
    and len: "h_length h = length content" and loc: "loc + n \<le> length content"
    and dst: "n \<le> length dst" and size: "length content \<le> 2 ^ 62"
  shows "\<exists>h' w'. Read e (http_ops e) n loc dst h w
      = (None, overwrite dst 0 (slice content loc n), h', w') \<and> file_offset h' = loc + n"
proof -
  have "length content < w64" using size by simp
  from ReadInternal_ignored [OF srv er fb tag fresh(1-3) n this, of loc dst w] obtain h1 w1
    where 1: "ReadInternal e (http_ops e) n loc dst h w = (Inr False, dst, h1, w1)"
      "h_path h1 = h_path h" "h_length h1 = h_length h" "w_http w1 = w_http w" by blast
  have "serves_whole e (h_path h1) content" using ignores_range_whole [OF srv] 1(2) by simp
  moreover have "content \<noteq> []" using n by auto
  ultimately show ?thesis using Read_fallback [OF 1(1)] 1 len fresh(4) size loc dst by simp
qed

section \<open>What the full download guarantees\<close>

text \<open>
  A full download publishes the content. FullDownload of a path that was not downloaded before,
  from a server that answers a plain GET in one attempt, returns no error, and the cached file it
  leaves is initialised, has the content's size and starts with the content, with the handle's
  length set to it; later handles on the path find it.
\<close>

theorem full_download_publishes:
  assumes "serves_whole e (h_path h) content" and "length content \<le> 2 ^ 62"
    and "cached_files (w_http w) (h_path h) = None" and "content \<noteq> []"
  shows "\<exists>h' w' ch. FullDownload (http_ops e) h w = (None, h', w') \<and>
     h_cached_file h' = Some ch \<and> published content (hs_file (w_http w') (ch_file ch)) \<and>
     h_length h' = length content"
  using FullDownload_publishes [OF assms] by blast

definition whole_net :: "bytes \<Rightarrow> transport" where
  "whole_net content k rq cl =
     (let r = demo_response 200 [''Content-Length'' \<mapsto> to_string (length content)]
      in \<lparr>attempts = [Attempt (RespHead r # map Data [take 2 content, drop 2 content]) (Inr (Some r))],
          client_after = cl\<rparr>)"

definition whole_env :: "bytes \<Rightarrow> env" where
  "whole_env content = (demo_env [] [])\<lparr>e_net := whole_net content\<rparr>"

lemma whole_env_ignores: "ignores_range (whole_env content) url content tag"
proof -
  let ?r = "demo_response 200 [''Content-Length'' \<mapsto> to_string (length content)]"
  have "attempts (e_net (whole_env content) k rq cl)
      = [Attempt (RespHead ?r # map Data [take 2 content, drop 2 content]) (Inr (Some ?r))]" for k rq cl
    by (simp add: whole_env_def whole_net_def Let_def)
  then show ?thesis
    unfolding ignores_range_def
    by (intro allI impI exI [of _ ?r] exI [of _ "[take 2 content, drop 2 content]"] conjI)
      (simp_all add: demo_response_def)
qed

lemma whole_env_error: "error_reported (whole_env content) RANGE_NOT_SUPPORTED"
  by (simp add: error_reported_def whole_env_def demo_env_def has_request_error_def RANGE_NOT_SUPPORTED_def)

theorem full_download_publishes_witness:
  "\<exists>h' w' ch. FullDownload (http_ops (whole_env ''abcde'')) (demo_handle ''u'' 0 '''' 4) demo_world
       = (None, h', w') \<and> h_cached_file h' = Some ch \<and>
     published ''abcde'' (hs_file (w_http w') (ch_file ch)) \<and> h_length h' = 5"
proof -
  have "\<exists>h' w' ch. FullDownload (http_ops (whole_env ''abcde'')) (demo_handle ''u'' 0 '''' 4) demo_world
       = (None, h', w') \<and> h_cached_file h' = Some ch \<and>
     published ''abcde'' (hs_file (w_http w') (ch_file ch)) \<and> h_length h' = length ''abcde''"
    by (rule full_download_publishes [OF ignores_range_whole [OF whole_env_ignores]])
      (simp_all add: demo_world_def new_http_state_def)
  then show ?thesis by (simp add: eval_nat_numeral)
qed





end
