(* ===== verification/HttpOpen.thy ===== *)
theory HttpOpen
  imports HttpServer
begin

text \<open>
  Opening a remote file (src/httpfs.cpp): the choice of the metadata cache, the file information
  from a HEAD or a one-byte range request (LoadFileInfo), the two-phase construction of a handle
  (CreateHandle, Initialize), OpenFileExtended, FileExists and Glob.
\<close>

section \<open>The metadata cache an open uses\<close>

datatype cache_ref = NoCache | GlobalCache | ContextCache

definition TryGetMetadataCache :: "opener option \<Rightarrow> world \<Rightarrow> cache_ref \<times> world" where
  "TryGetMetadataCache opn w =
     (case opn of
        None \<Rightarrow> (NoCache, w)
      | Some op \<Rightarrow>
          (if op_database op = None then (NoCache, w)
           else if op_bool op ''enable_http_metadata_cache'' = Some True
           then (GlobalCache, snd (GetGlobalCache w))
           else if op_context op then (ContextCache, w)
           else (NoCache, w)))"

fun cache_of :: "cache_ref \<Rightarrow> world \<Rightarrow> metadata_cache option" where
  "cache_of NoCache w = None"
| "cache_of GlobalCache w = w_cache w"
| "cache_of ContextCache w = Some (w_ctx_cache w)"

fun set_cache :: "cache_ref \<Rightarrow> metadata_cache \<Rightarrow> world \<Rightarrow> world" where
  "set_cache NoCache c w = w"
| "set_cache GlobalCache c w = w\<lparr>w_cache := Some c\<rparr>"
| "set_cache ContextCache c w = w\<lparr>w_ctx_cache := c\<rparr>"

definition update_cache :: "cache_ref \<Rightarrow> (metadata_cache \<Rightarrow> metadata_cache) \<Rightarrow> world \<Rightarrow> world" where
  "update_cache ref f w = (case cache_of ref w of None \<Rightarrow> w | Some c \<Rightarrow> set_cache ref (f c) w)"

section \<open>Headers of the file information\<close>

text \<open>
  optional_idx cannot hold 2^64 - 1: building it from that value throws, which the callers catch.
\<close>

definition parse_optional_idx :: "string \<Rightarrow> nat option" where
  "parse_optional_idx s =
     (case stoull s of Some n \<Rightarrow> if n = w64 - 1 then None else Some n | None \<Rightarrow> None)"

definition TryParseContentRange :: "response \<Rightarrow> nat option" where
  "TryParseContentRange r =
     (if \<not> has_header r ''Content-Range'' then None
      else
        (let content_range = header_value r ''Content-Range''
         in case str_find content_range ''/'' 0 of
              None \<Rightarrow> None
            | Some range_find \<Rightarrow>
                (let range_length = drop (range_find + 1) content_range
                 in if range_length = ''*'' then None else parse_optional_idx range_length)))"

definition TryParseContentLength :: "response \<Rightarrow> nat option" where
  "TryParseContentLength r =
     (if \<not> has_header r ''Content-Length'' then None
      else parse_optional_idx (header_value r ''Content-Length''))"

text \<open>The length, modification time, ETag and version of the response, where it has them.\<close>

definition file_size_of :: "response \<Rightarrow> nat" where
  "file_size_of r =
     (case TryParseContentRange r of
        Some n \<Rightarrow> n
      | None \<Rightarrow> (case TryParseContentLength r of Some n \<Rightarrow> n | None \<Rightarrow> 0))"

definition apply_file_info :: "env \<Rightarrow> response \<Rightarrow> 'a hfh_scheme \<Rightarrow> 'a hfh_scheme" where
  "apply_file_info e r h =
     (let h1 = h\<lparr>h_length := file_size_of r\<rparr>;
          h2 = (if has_header r ''Last-Modified''
                then set_if (e_parse_date e (header_value r ''Last-Modified''))
                       (\<lambda>t h. h\<lparr>h_last_modified := t\<rparr>) h1
                else h1);
          h3 = (if has_header r ''ETag'' then h2\<lparr>h_etag := header_value r ''ETag''\<rparr> else h2);
          h4 = (if s3_version_id_pinning (h_params h) \<and> has_header r ''x-amz-version-id''
                then h3\<lparr>h_version_id := header_value r ''x-amz-version-id''\<rparr> else h3)
      in h4\<lparr>h_initialized := True\<rparr>)"

section \<open>LoadFileInfo\<close>

text \<open>
  What follows a HEAD that did not return 200. Inr None: a new file to be written, nothing more to
  do; Inr (Some r): the response to take the file information from.
\<close>

definition no_response :: exn where
  "no_response = Exn Undefined ''no response'' None"

definition head_failed :: "env \<Rightarrow> 'a hfh_scheme fs_ops \<Rightarrow> response \<Rightarrow> 'a hfh_scheme \<Rightarrow> world \<Rightarrow>
    (exn + response option) \<times> 'a hfh_scheme \<times> world" where
  "head_failed e ops r h w =
     (if of_write (h_flags h) \<and> status r = NotFound_404 then
        (if \<not> of_create (h_flags h) \<and> \<not> of_overwrite (h_flags h)
         then (Inl (Exn ExIO ''Unable to open URL'' None), h, w)
         else (Inr None, h\<lparr>h_length := 0\<rparr>, w))
      else if of_read (h_flags h) \<and> status r \<noteq> NotFound_404 \<and> status r \<noteq> MovedPermanently_301 then
        (case fs_GetRange ops (h_path h) 0 None 2 h w of
           (Inl ex, _, h1, w1) \<Rightarrow> (Inl ex, h1, w1)
         | (Inr None, _, h1, w1) \<Rightarrow> (Inl no_response, h1, w1)
         | (Inr (Some rr), _, h1, w1) \<Rightarrow>
             (if status rr \<noteq> PartialContent_206 \<and> status rr \<noteq> Accepted_202 \<and> status rr \<noteq> OK_200 then
                (if RespondedWithRangeRequestNotSupported e rr
                    \<and> auto_fallback_to_full_download (h_params h1)
                 then (Inr (Some rr), h1\<lparr>h_force_full_download := True\<rparr>, w1)
                 else (Inl (fs_HTTPError ops h1 rr (h_path h)), h1, w1))
              else (Inr (Some rr), h1, w1)))
      else (Inl (fs_HTTPError ops h r (h_path h)), h, w))"

definition LoadFileInfo :: "env \<Rightarrow> 'a hfh_scheme fs_ops \<Rightarrow> 'a hfh_scheme \<Rightarrow> world \<Rightarrow>
    exn option \<times> 'a hfh_scheme \<times> world" where
  "LoadFileInfo e ops h w0 =
     (let st = hs_GetCachedFile (h_path h) (w_http w0);
          w = (if prm_state (h_params h) then w0\<lparr>w_http := snd st\<rparr> else w0);
          f = hs_file (snd st) (fst st)
      in if prm_state (h_params h) \<and> cf_initialized f then
           (None, h\<lparr>h_length := cf_size f, h_cached_file := Some (cf_GetHandle (fst st) (snd st)),
                    h_initialized := True\<rparr>, w)
         else if h_initialized h \<or> h_force_full_download h then (None, h, w)
         else if h_write_overwrite_mode h then (None, h\<lparr>h_length := 0, h_initialized := True\<rparr>, w)
         else
           (case fs_Head ops (h_path h) h w of
              (Inl ex, h1, w1) \<Rightarrow> (Some ex, h1, w1)
            | (Inr None, h1, w1) \<Rightarrow> (Some no_response, h1, w1)
            | (Inr (Some r), h1, w1) \<Rightarrow>
                (if status r = OK_200 then (None, apply_file_info e r h1, w1)
                 else
                   (case head_failed e ops r h1 w1 of
                      (Inl ex, h2, w2) \<Rightarrow> (Some ex, h2, w2)
                    | (Inr None, h2, w2) \<Rightarrow> (None, h2, w2)
                    | (Inr (Some rr), h2, w2) \<Rightarrow> (None, apply_file_info e rr h2, w2)))))"

section \<open>Initialize\<close>

definition AllocateReadBuffer :: "'a hfh_scheme \<Rightarrow> 'a hfh_scheme" where
  "AllocateReadBuffer h = h\<lparr>read_buffer := replicate INITIAL_READ_BUFFER_LEN (CHR 0x00)\<rparr>"

text \<open>The HTTPState: the client context's, or a new one.\<close>

definition attach_state :: "opener option \<Rightarrow> 'a hfh_scheme \<Rightarrow> world \<Rightarrow> 'a hfh_scheme \<times> world" where
  "attach_state opn h w =
     (let h1 = h\<lparr>h_params := (h_params h)\<lparr>prm_state := True\<rparr>\<rparr>
      in case opn of
           Some op \<Rightarrow> (if op_context op then (h1, w) else (h1, w\<lparr>w_http := new_http_state\<rparr>))
         | None \<Rightarrow> (h1, w\<lparr>w_http := new_http_state\<rparr>))"

text \<open>A cache hit: no request, and a finished full download of the path is reused.\<close>

definition init_from_cache :: "'a hfh_scheme fs_ops \<Rightarrow> md_entry \<Rightarrow> 'a hfh_scheme \<Rightarrow> world \<Rightarrow>
    'a hfh_scheme \<times> world" where
  "init_from_cache ops val h w =
     (let h1 = fs_FromCacheEntry ops val h;
          (r, st) = hs_GetCachedFile (h_path h1) (w_http w);
          h2 = (if cf_initialized (hs_file st r)
                then h1\<lparr>h_cached_file := Some (cf_GetHandle r st)\<rparr> else h1);
          h3 = (if \<not> SkipBuffer h2 then AllocateReadBuffer h2 else h2)
      in (h3, w\<lparr>w_http := st\<rparr>))"

text \<open>After LoadFileInfo: the full download where one is due, the cache entry, the buffer.\<close>

definition finish_open :: "'a hfh_scheme fs_ops \<Rightarrow> cache_ref \<Rightarrow> bool \<Rightarrow> 'a hfh_scheme \<Rightarrow> world \<Rightarrow>
    exn option \<times> 'a hfh_scheme \<times> world" where
  "finish_open ops ref should_write_cache h w =
     (let meets_threshold = (h_length h < force_download_threshold (h_params h) \<and> h_length h \<noteq> 0);
          should_full_download = (h_length h = 0 \<or> meets_threshold \<or> h_force_full_download h)
      in if should_full_download then FullDownload ops h w
         else
           (let w1 = (if should_write_cache
                      then update_cache ref (md_Insert (h_path h) (fs_CacheEntry ops h)) w else w)
            in (None, if \<not> SkipBuffer h then AllocateReadBuffer h else h, w1)))"

definition Initialize :: "env \<Rightarrow> 'a hfh_scheme fs_ops \<Rightarrow> opener option \<Rightarrow> 'a hfh_scheme \<Rightarrow> world \<Rightarrow>
    exn option \<times> 'a hfh_scheme \<times> world" where
  "Initialize e ops opn h0 w0 =
     (let (h, wa) = attach_state opn h0 w0;
          (ref, w) = TryGetMetadataCache opn wa;
          fl = h_flags h;
          hit = (case cache_of ref w of None \<Rightarrow> None | Some c \<Rightarrow> md_lookup c (h_path h))
      in if of_read fl \<and> force_download (h_params h) then FullDownload ops h w
         else if of_read fl \<and> hit \<noteq> None then
           (case init_from_cache ops (the hit) h w of (h1, w1) \<Rightarrow> (None, h1, w1))
         else
           (case LoadFileInfo e ops h w of
              (Some ex, h1, w1) \<Rightarrow> (Some ex, h1, w1)
            | (None, h1, w1) \<Rightarrow>
                (case (if of_read fl then finish_open ops ref (ref \<noteq> NoCache) h1 w1
                       else (None, h1, w1)) of
                   (Some ex, h2, w2) \<Rightarrow> (Some ex, h2, w2)
                 | (None, h2, w2) \<Rightarrow>
                     (None, h2, if of_write fl then update_cache ref (md_Erase (h_path h2)) w2
                                else w2))))"

section \<open>Opening\<close>

text \<open>
  CreateHandle: the parameters, with the token of a matching bearer secret. bearer is the secret
  lookup: no match, or a match with or without a token (a missing token throws).
\<close>

definition CreateHandle :: "http_params \<Rightarrow> (string \<Rightarrow> bool) \<Rightarrow> (string \<Rightarrow> string option option) \<Rightarrow>
    opener option \<Rightarrow> file_info \<Rightarrow> open_flags \<Rightarrow> exn + hfh" where
  "CreateHandle base s3_url bearer opn file fl =
     (case opn of
        None \<Rightarrow> Inl (Exn ExInternal ''FileOpener not provided'' None)
      | Some op \<Rightarrow>
          (let p = InitializeParameters base s3_url opn (fi_path file)
           in case bearer (fi_path file) of
                None \<Rightarrow> Inr (new_handle file fl p)
              | Some None \<Rightarrow> Inl (Exn ExInvalidInput ''Failed to fetch key 'token' from secret'' None)
              | Some (Some tok) \<Rightarrow> Inr (new_handle file fl (p\<lparr>bearer_token := tok\<rparr>))))"

text \<open>
  OpenFileExtended, over the virtual CreateHandle and Initialize. A null handle is None.
\<close>

definition OpenFileExtended :: "(file_info \<Rightarrow> open_flags \<Rightarrow> exn + 'a hfh_scheme) \<Rightarrow>
    ('a hfh_scheme \<Rightarrow> world \<Rightarrow> exn option \<times> 'a hfh_scheme \<times> world) \<Rightarrow> file_info \<Rightarrow> open_flags \<Rightarrow>
    world \<Rightarrow> (exn + 'a hfh_scheme option) \<times> world" where
  "OpenFileExtended create init file fl w =
     (if of_null_if_not_exists fl then
        (case create file fl of
           Inl _ \<Rightarrow> (Inr None, w)
         | Inr h \<Rightarrow> (case init h w of
             (Some _, _, w1) \<Rightarrow> (Inr None, w1) | (None, h1, w1) \<Rightarrow> (Inr (Some h1), w1)))
      else
        (case create file fl of
           Inl ex \<Rightarrow> (Inl ex, w)
         | Inr h \<Rightarrow>
             (let h' = (if of_write fl \<and> \<not> of_append fl \<and> \<not> of_read fl
                        then h\<lparr>h_write_overwrite_mode := True\<rparr> else h)
              in case init h' w of
                   (Some ex, _, w1) \<Rightarrow> (Inl ex, w1) | (None, h1, w1) \<Rightarrow> (Inr (Some h1), w1))))"

definition READ_FLAGS :: open_flags where
  "READ_FLAGS = \<lparr>of_read = True, of_write = False, of_append = False, of_create = False,
     of_overwrite = False, of_null_if_not_exists = False, of_direct_io = False, of_parallel = False\<rparr>"

definition FileExists :: "(file_info \<Rightarrow> open_flags \<Rightarrow> exn + 'a hfh_scheme) \<Rightarrow>
    ('a hfh_scheme \<Rightarrow> world \<Rightarrow> exn option \<times> 'a hfh_scheme \<times> world) \<Rightarrow> string \<Rightarrow> world \<Rightarrow>
    bool \<times> world" where
  "FileExists create init filename w =
     (case OpenFileExtended create init \<lparr>fi_path = filename, fi_ext = None\<rparr> READ_FLAGS w of
        (Inl _, w1) \<Rightarrow> (False, w1) | (Inr _, w1) \<Rightarrow> (True, w1))"

text \<open>Glob: a generic HTTP path is its own only match.\<close>

definition Glob_http :: "opener option \<Rightarrow> string \<Rightarrow> exn + string list" where
  "Glob_http opn path =
     (case opn of
        Some op \<Rightarrow>
          (if str_find path ''*'' 0 \<noteq> None \<and> op_bool op ''allow_asterisks_in_http_paths'' = Some False
           then Inl (Exn ExInvalidInput ''Globs (`*`) for generic HTTP file is are not supported'' None)
           else Inr [path])
      | None \<Rightarrow> Inr [path])"

section \<open>Opening again\<close>

text \<open>What the reopened handle takes over.\<close>

definition same_info :: "'a hfh_scheme \<Rightarrow> 'b hfh_scheme \<Rightarrow> bool" where
  "same_info h h' \<longleftrightarrow> h_length h' = h_length h \<and> h_last_modified h' = h_last_modified h \<and>
     h_etag h' = h_etag h \<and> h_version_id h' = h_version_id h"

lemma cache_of_update:
  "cache_of ref (update_cache ref f w) = map_option f (cache_of ref w)"
  by (cases ref) (auto simp: update_cache_def split: option.splits)

lemma TryGetMetadataCache_again:
  assumes "TryGetMetadataCache opn w = (ref, w')" and "w_cache w'' \<noteq> None \<or> w_cache w' = None"
  shows "TryGetMetadataCache opn w'' = (ref, w'')"
  using assms by (auto simp: TryGetMetadataCache_def GetGlobalCache_def Let_def split: option.splits if_splits)

lemma AllocateReadBuffer_info [simp]:
  "h_length (AllocateReadBuffer h) = h_length h" "h_last_modified (AllocateReadBuffer h) = h_last_modified h"
  "h_etag (AllocateReadBuffer h) = h_etag h" "h_version_id (AllocateReadBuffer h) = h_version_id h"
  "h_path (AllocateReadBuffer h) = h_path h" "h_flags (AllocateReadBuffer h) = h_flags h"
  "h_cached_file (AllocateReadBuffer h) = h_cached_file h"
  by (simp_all add: AllocateReadBuffer_def)

lemma attach_state_context:
  "op_context op \<Longrightarrow> attach_state (Some op) h w = (h\<lparr>h_params := (h_params h)\<lparr>prm_state := True\<rparr>\<rparr>, w)"
  by (simp add: attach_state_def Let_def)

text \<open>A hit initialises the handle from the entry, without a request.\<close>

lemma Initialize_hit:
  assumes "op_context op" and "TryGetMetadataCache (Some op) w = (ref, w)"
    and "of_read (h_flags h)" and "\<not> force_download (h_params h)"
    and "cache_of ref w = Some c" and "md_lookup c (h_path h) = Some val"
  shows "\<exists>h' w'. Initialize e (http_ops e) (Some op) h w = (None, h', w') \<and> w_clock w' = w_clock w \<and>
     h_length h' = md_length val \<and> h_last_modified h' = md_last_modified val \<and>
     h_etag h' = md_etag val \<and> h_version_id h' = md_version_id val"
proof -
  let ?h = "h\<lparr>h_params := (h_params h)\<lparr>prm_state := True\<rparr>\<rparr>"
  obtain h1 w1 where i: "init_from_cache (http_ops e) val ?h w = (h1, w1)"
    by (cases "init_from_cache (http_ops e) val ?h w")
  have "Initialize e (http_ops e) (Some op) h w = (None, h1, w1)"
    using assms i by (simp add: Initialize_def Let_def attach_state_context)
  moreover have "w_clock w1 = w_clock w \<and> h_length h1 = md_length val \<and>
      h_last_modified h1 = md_last_modified val \<and> h_etag h1 = md_etag val \<and>
      h_version_id h1 = md_version_id val"
    using i by (auto simp: init_from_cache_def http_ops_def InitializeFromCacheEntry_def Let_def
        split: prod.splits if_splits)
  ultimately show ?thesis by blast
qed

text \<open>
  A first open for reading that ends with a length known and no full download leaves a cache entry
  with the handle's own values.
\<close>

lemma finish_open_inserts:
  assumes "finish_open (http_ops e) ref True h w = (None, h', w')" and "cache_of ref w = Some c"
    and "h_length h \<noteq> 0" and "\<not> h_length h < force_download_threshold (h_params h)"
    and "\<not> h_force_full_download h"
  shows "\<exists>c'. cache_of ref w' = Some c' \<and> md_lookup c' (h_path h) = Some (GetCacheEntry h) \<and>
     same_info h h' \<and> h_path h' = h_path h"
  using assms cache_of_update [of ref "md_Insert (h_path h) (GetCacheEntry h)" w]
  by (auto simp: finish_open_def Let_def http_ops_def md_Insert_def same_info_def split: if_splits)

lemma cache_entry_values:
  "md_length (GetCacheEntry h) = h_length h" "md_last_modified (GetCacheEntry h) = h_last_modified h"
  "md_etag (GetCacheEntry h) = h_etag h" "md_version_id (GetCacheEntry h) = h_version_id h"
  by (simp_all add: GetCacheEntry_def)

text \<open>What a request keeps of the handle and of the caches.\<close>

definition req_keeps :: "'a hfh_scheme \<Rightarrow> world \<Rightarrow> 'a hfh_scheme \<Rightarrow> world \<Rightarrow> bool" where
  "req_keeps h w h' w' \<longleftrightarrow> h_path h' = h_path h \<and> h_flags h' = h_flags h \<and>
     h_cached_file h' = h_cached_file h \<and> (w_cache w' = None \<longleftrightarrow> w_cache w = None) \<and>
     w_ctx_cache w' = w_ctx_cache w"

lemma req_keeps_refl [simp]: "req_keeps h w h w"
  by (simp add: req_keeps_def)

lemma req_keeps_trans: "req_keeps h w h1 w1 \<Longrightarrow> req_keeps h1 w1 h2 w2 \<Longrightarrow> req_keeps h w h2 w2"
  by (simp add: req_keeps_def)

lemma HeadRequest_keeps: "HeadRequest e url hm h w = (res, h', w') \<Longrightarrow> req_keeps h w h' w'"
  by (auto simp: HeadRequest_def Let_def h_GetClient_def h_StoreClient_def AddHandleHeaders_def
      req_keeps_def tick_def erase_global_def split: prod.splits sum.splits option.splits if_splits)

lemma range_handlers_keep:
  "req_keeps h w (rr_h s) (rr_w s) \<Longrightarrow>
     req_keeps h w (rr_h (snd (range_response_handler p etag n r s)))
       (rr_w (snd (range_response_handler p etag n r s)))"
  "req_keeps h w (rr_h s) (rr_w s) \<Longrightarrow>
     req_keeps h w (rr_h (snd (range_content_handler n d s))) (rr_w (snd (range_content_handler n d s)))"
  by (auto simp: req_keeps_def range_response_handler_def range_content_handler_def Let_def
      pin_version_def erase_global_def split: option.splits)

lemma run_transfer_state: "snd (run_transfer er try rh ch as s) = snd (run_attempts rh ch as s)"
  by (auto simp: run_transfer_def split: prod.splits sum.splits)

lemma GetRangeRequest_keeps:
  assumes "GetRangeRequest e url hm off dst len h w = (res, d, h', w')"
  shows "req_keeps h w h' w'"
proof -
  obtain p hm2 where hm2: "AddHandleHeaders (h_params h) (AddUserAgentIfAvailable (h_params h) hm) = (p, hm2)"
    by (cases "AddHandleHeaders (h_params h) (AddUserAgentIfAvailable (h_params h) hm)") auto
  let ?h1 = "h\<lparr>h_params := p\<rparr>"
  obtain sent hm3 where hm3: "AddConsistencyPreconditions e ?h1 hm2 = (sent, hm3)" by fastforce
  obtain cl h2 where h2: "h_GetClient e ?h1 w = (cl, h2)" by fastforce
  obtain c where c: "h2 = ?h1\<lparr>h_clients := c\<rparr>"
    using h2 by (auto simp: h_GetClient_def split: prod.splits option.splits)
  let ?rq = "(base_request GET url (hm3 @ [HInsert ''Range'' (range_expr off len)]) p)
                 \<lparr>rq_try := h_auto_fallback h\<rparr>"
  let ?s0 = "\<lparr>rr_h = h2, rr_w = tick w, rr_dst = dst, rr_out = 0\<rparr>"
  let ?rh = "range_response_handler p (h_etag h) len" and ?ch = "range_content_handler len"
  let ?as = "attempts (e_net e (w_clock w) ?rq (Some cl))"
  let ?K = "\<lambda>s :: 'a hfh_scheme range_state. req_keeps h w (rr_h s) (rr_w s)"
  have "?K (snd (run_attempts ?rh ?ch ?as ?s0))"
    by (rule run_attempts_inv [where I = ?K])
      (simp_all add: range_handlers_keep, simp add: req_keeps_def c tick_def)
  then have "?K (snd (run_transfer (e_err_response e) (h_auto_fallback h) ?rh ?ch ?as ?s0))"
    by (simp add: run_transfer_state)
  then show ?thesis using assms hm2 hm3 h2
    by (auto simp: GetRangeRequest_def RunGetRangeRequest_def Let_def c MakeConsistencyAwareError_def
        h_StoreClient_def req_keeps_def erase_global_def
        split: prod.splits sum.splits option.splits if_splits)
qed

lemma LoadFileInfo_keeps:
  assumes "LoadFileInfo e (http_ops e) h w = (None, h', w')" and "h_cached_file h' = None"
  shows "req_keeps h w h' w'"
proof -
  have info: "req_keeps h w (apply_file_info e r h1) w1" if "req_keeps h w h1 w1" for r h1 w1
    using that by (simp add: apply_file_info_def Let_def req_keeps_def set_if_def split: option.splits)
  have failed: "req_keeps h1 w1 h2 w2" if "head_failed e (http_ops e) r h1 w1 = (Inr x, h2, w2)"
    for r h1 w1 x h2 w2
    using that by (auto simp: head_failed_def http_ops_def req_keeps_def
        split: prod.splits sum.splits option.splits if_splits dest!: GetRangeRequest_keeps)
  define v where "v = (if prm_state (h_params h)
      then w\<lparr>w_http := snd (hs_GetCachedFile (h_path h) (w_http w))\<rparr> else w)"
  have v: "req_keeps h w h v" by (simp add: v_def req_keeps_def)
  show ?thesis
  proof (cases "h_initialized h \<or> h_force_full_download h \<or> h_write_overwrite_mode h")
    case True
    then show ?thesis using assms v
      by (auto simp: LoadFileInfo_def Let_def v_def [symmetric] req_keeps_def split: if_splits)
  next
    case False
    obtain res h1 w1 where hd: "HeadRequest e (h_path h) [] h v = (res, h1, w1)" using prod_cases3 by blast
    have k1: "req_keeps h w h1 w1" using req_keeps_trans [OF v HeadRequest_keeps [OF hd]] .
    have "fs_Head (http_ops e) (h_path h) h v = (res, h1, w1)" using hd by (simp add: http_ops_def)
    with assms False obtain r where r: "res = Inr (Some r)"
      "(h', w') = (apply_file_info e r h1, w1) \<or>
       (\<exists>h2 w2 x. head_failed e (http_ops e) r h1 w1 = (Inr x, h2, w2) \<and>
          (h', w') = ((case x of None \<Rightarrow> h2 | Some rr \<Rightarrow> apply_file_info e rr h2), w2))"
      by (auto simp: LoadFileInfo_def Let_def v_def [symmetric]
          split: if_splits sum.splits option.splits prod.splits)
    from r(2) show ?thesis
    proof
      assume "(h', w') = (apply_file_info e r h1, w1)"
      then show ?thesis using info [OF k1] by simp
    next
      assume "\<exists>h2 w2 x. head_failed e (http_ops e) r h1 w1 = (Inr x, h2, w2) \<and>
          (h', w') = ((case x of None \<Rightarrow> h2 | Some rr \<Rightarrow> apply_file_info e rr h2), w2)"
      then obtain h2 w2 x where f: "head_failed e (http_ops e) r h1 w1 = (Inr x, h2, w2)"
        "(h', w') = ((case x of None \<Rightarrow> h2 | Some rr \<Rightarrow> apply_file_info e rr h2), w2)" by blast
      have "req_keeps h w h2 w2" using req_keeps_trans [OF k1 failed [OF f(1)]] .
      then show ?thesis using f(2) info by (cases x) auto
    qed
  qed
qed

lemma FullDownload_cached: "FullDownload ops h w = (None, h', w') \<Longrightarrow> h_cached_file h' \<noteq> None"
  by (auto simp: FullDownload_def Let_def split: prod.splits sum.splits option.splits if_splits)

lemma finish_open_no_download:
  assumes "finish_open (http_ops e) ref True h w = (None, h', w')" and "h_cached_file h' = None"
    and "cache_of ref w \<noteq> None"
  shows "\<exists>c. cache_of ref w' = Some c \<and> md_lookup c (h_path h) = Some (GetCacheEntry h) \<and>
     same_info h h' \<and> h_cached_file h = None"
  using assms FullDownload_cached [of "http_ops e" h w h' w']
    cache_of_update [of ref "md_Insert (h_path h) (GetCacheEntry h)" w]
  by (auto simp: finish_open_def Let_def http_ops_def md_Insert_def same_info_def AllocateReadBuffer_def
      split: if_splits)

lemma cache_ref_after:
  assumes "op_context op" and "op_database op \<noteq> None" and "TryGetMetadataCache (Some op) w = (ref, w')"
  shows "ref \<noteq> NoCache \<and> cache_of ref w' \<noteq> None"
  using assms by (auto simp: TryGetMetadataCache_def GetGlobalCache_def Let_def split: if_splits)

lemma cache_of_keeps:
  "req_keeps h w h' w' \<Longrightarrow> (cache_of ref w' = None) = (cache_of ref w = None)"
  by (cases ref) (auto simp: req_keeps_def)

lemma TryGetMetadataCache_stable:
  assumes "TryGetMetadataCache (Some op) w = (ref, w')" and "cache_of ref w'' \<noteq> None"
  shows "TryGetMetadataCache (Some op) w'' = (ref, w'')"
  using assms by (auto simp: TryGetMetadataCache_def GetGlobalCache_def Let_def split: if_splits)

text \<open>The first open leaves an entry for the path with the handle's values.\<close>

lemma Initialize_leaves_entry:
  assumes open1: "Initialize e (http_ops e) (Some op) h w = (None, h1, w1)" and none: "h_cached_file h1 = None"
    and op: "op_context op" "op_database op \<noteq> None"
    and fl: "of_read (h_flags h)" "\<not> of_write (h_flags h)"
  shows "\<exists>ref c val. TryGetMetadataCache (Some op) w1 = (ref, w1) \<and> cache_of ref w1 = Some c \<and>
     md_lookup c (h_path h) = Some val \<and> h_length h1 = md_length val \<and>
     h_last_modified h1 = md_last_modified val \<and> h_etag h1 = md_etag val \<and>
     h_version_id h1 = md_version_id val"
proof -
  let ?h = "h\<lparr>h_params := (h_params h)\<lparr>prm_state := True\<rparr>\<rparr>"
  obtain ref v where ref: "TryGetMetadataCache (Some op) w = (ref, v)" by fastforce
  obtain c where c: "ref \<noteq> NoCache" "cache_of ref v = Some c" using cache_ref_after [OF op ref] by auto
  have nodl: "\<not> force_download (h_params h)"
    using open1 none fl ref FullDownload_cached [of "http_ops e" ?h v]
    by (auto simp: Initialize_def Let_def attach_state_context [OF op(1)])
  show ?thesis
  proof (cases "md_lookup c (h_path h)")
    case (Some val)
    then have i: "init_from_cache (http_ops e) val ?h v = (h1, w1)"
      using open1 fl ref c nodl
      by (simp add: Initialize_def Let_def attach_state_context [OF op(1)] split: prod.splits)
    then have "cache_of ref w1 = Some c"
      using c by (cases ref) (auto simp: init_from_cache_def Let_def split: prod.splits)
    moreover from this have "TryGetMetadataCache (Some op) w1 = (ref, w1)"
      using TryGetMetadataCache_stable [OF ref] by simp
    moreover have "h_length h1 = md_length val \<and> h_last_modified h1 = md_last_modified val \<and>
        h_etag h1 = md_etag val \<and> h_version_id h1 = md_version_id val"
      using i by (auto simp: init_from_cache_def http_ops_def InitializeFromCacheEntry_def Let_def
          split: prod.splits if_splits)
    ultimately show ?thesis using Some by blast
  next
    case None
    then obtain ha wa where l: "LoadFileInfo e (http_ops e) ?h v = (None, ha, wa)"
      and f: "finish_open (http_ops e) ref True ha wa = (None, h1, w1)"
      using open1 fl ref c nodl
      by (auto simp: Initialize_def Let_def attach_state_context [OF op(1)]
          split: prod.splits option.splits)
    have hn: "h_cached_file ha = None"
      using f none FullDownload_cached [of "http_ops e" ha wa]
      by (auto simp: finish_open_def Let_def AllocateReadBuffer_def split: if_splits)
    have k: "req_keeps ?h v ha wa" by (rule LoadFileInfo_keeps [OF l hn])
    then have "cache_of ref wa \<noteq> None" using cache_of_keeps [OF k, of ref] c by simp
    from finish_open_no_download [OF f none this] obtain c1
      where c1: "cache_of ref w1 = Some c1" "md_lookup c1 (h_path ha) = Some (GetCacheEntry ha)"
        "same_info ha h1" by blast
    have "TryGetMetadataCache (Some op) w1 = (ref, w1)"
      using TryGetMetadataCache_stable [OF ref] c1(1) by simp
    moreover have "h_path ha = h_path h" using k by (simp add: req_keeps_def)
    ultimately show ?thesis using c1 cache_entry_values [of ha] by (auto simp: same_info_def)
  qed
qed

text \<open>
  C30: Opening a file again sends no request. When a read handle has been opened with range reads
  (no full download), a second handle on the same path opens without sending a request and has the
  same length, modification time, ETag and version, whichever metadata cache is configured.
\<close>

theorem reopen_needs_no_request:
  assumes "Initialize e (http_ops e) (Some op) h w = (None, h1, w1)" and "h_cached_file h1 = None"
    and "op_context op" and "op_database op \<noteq> None"
    and "of_read (h_flags h)" and "\<not> of_write (h_flags h)"
    and "h_path g = h_path h" and "of_read (h_flags g)" and "\<not> force_download (h_params g)"
  shows "\<exists>g' w2. Initialize e (http_ops e) (Some op) g w1 = (None, g', w2) \<and>
     w_clock w2 = w_clock w1 \<and> same_info h1 g'"
proof -
  obtain ref c val where c: "TryGetMetadataCache (Some op) w1 = (ref, w1)" "cache_of ref w1 = Some c"
    "md_lookup c (h_path g) = Some val" "h_length h1 = md_length val"
    "h_last_modified h1 = md_last_modified val" "h_etag h1 = md_etag val"
    "h_version_id h1 = md_version_id val"
    using Initialize_leaves_entry [OF assms(1-6)] assms(7) by auto
  from Initialize_hit [OF assms(3) c(1) assms(8,9) c(2,3), of e] show ?thesis
    using c by (auto simp: same_info_def)
qed

definition head_net :: "nat \<Rightarrow> transport" where
  "head_net n k rq cl =
     (let r = demo_response 200 [''Content-Length'' \<mapsto> to_string n, ''ETag'' \<mapsto> ''tag'']
      in \<lparr>attempts = [Attempt [RespHead r] (Inr (Some r))], client_after = cl\<rparr>)"

definition head_env :: "nat \<Rightarrow> env" where
  "head_env n = (demo_env [] [])\<lparr>e_net := head_net n\<rparr>"

definition demo_opener :: opener where
  "demo_opener = \<lparr>op_bool = Map.empty, op_nat = Map.empty, op_rat = Map.empty, op_str = Map.empty,
     op_context = True, op_database = Some ''duckdb'', op_secret_str = (\<lambda>_ _ _. None),
     op_secret_bool = (\<lambda>_ _ _. None), op_secret_map = (\<lambda>_ _ _. None),
     op_parse_proxy = (\<lambda>s. (s, 80)), op_base_params = demo_base\<rparr>"

definition demo_new :: hfh where
  "demo_new = new_handle \<lparr>fi_path = ''u'', fi_ext = None\<rparr> demo_flags demo_params"

lemma demo_opens:
  "\<exists>h1 w1. Initialize (head_env 7) (http_ops (head_env 7)) (Some demo_opener) demo_new demo_world
      = (None, h1, w1) \<and> h_cached_file h1 = None \<and> h_length h1 = 7 \<and> h_etag h1 = ''tag''"
proof -
  have s: "stoull (to_string 7) = Some 7" by (rule stoull_to_string) simp
  have "parse_optional_idx (to_string 7) = Some 7" by (simp add: parse_optional_idx_def s)
  then show ?thesis
    by (simp add: Initialize_def Let_def attach_state_def TryGetMetadataCache_def demo_opener_def
        demo_new_def demo_defs LoadFileInfo_def hs_GetCachedFile_def new_http_state_def hs_file_def
        new_cached_file_def http_ops_def HeadRequest_def AddHandleHeaders_def
        AddUserAgentIfAvailable_def AddConsistencyPreconditions_def IsStrongEtag_def h_GetClient_def
        GetClient_def GetClientWithGeneration_def empty_client_cache_def RunHeadRequest_def
        base_request_def head_env_def head_net_def plain_outcome_def demo_response_def
        apply_file_info_def file_size_of_def TryParseContentRange_def TryParseContentLength_def
        has_header_def header_value_def finish_open_def h_StoreClient_def StoreClient_def
        new_metadata_cache_def)
qed

theorem reopen_needs_no_request_witness:
  "\<exists>h1 w1 g' w2. Initialize (head_env 7) (http_ops (head_env 7)) (Some demo_opener) demo_new demo_world
       = (None, h1, w1) \<and>
     Initialize (head_env 7) (http_ops (head_env 7)) (Some demo_opener) demo_new w1 = (None, g', w2) \<and>
     w_clock w2 = w_clock w1 \<and> h_length g' = 7 \<and> h_etag g' = ''tag''"
proof -
  obtain h1 w1 where o: "Initialize (head_env 7) (http_ops (head_env 7)) (Some demo_opener) demo_new demo_world
      = (None, h1, w1)" "h_cached_file h1 = None" "h_length h1 = 7" "h_etag h1 = ''tag''"
    using demo_opens by blast
  have "\<exists>g' w2. Initialize (head_env 7) (http_ops (head_env 7)) (Some demo_opener) demo_new w1
      = (None, g', w2) \<and> w_clock w2 = w_clock w1 \<and> same_info h1 g'"
    by (rule reopen_needs_no_request [OF o(1,2)])
      (simp_all add: demo_opener_def demo_new_def demo_defs)
  then show ?thesis using o by (auto simp: same_info_def)
qed

text \<open>
  A failed HEAD is made up for by a range probe. When HEAD answers an error other than 404 and
  301 and a two-byte range request is answered with a Content-Range naming the size n, a handle
  opened for reading is initialised with length n instead of failing.
\<close>

theorem probe_recovers_length:
  assumes "fs_Head ops (h_path h) h v = (Inr (Some r), h1, w1)"
    and "v = w\<lparr>w_http := snd (hs_GetCachedFile (h_path h) (w_http w))\<rparr>"
    and "status r \<notin> {OK_200, NotFound_404, MovedPermanently_301}"
    and "fs_GetRange ops (h_path h1) 0 None 2 h1 w1 = (Inr (Some rr), d, h2, w2)"
    and "status rr = PartialContent_206"
    and "hdrs rr ''Content-Range'' = Some (''bytes 0-1/'' @ to_string n)" and "n < w64 - 1"
    and "prm_state (h_params h)" and "\<not> cf_initialized (hs_file (w_http v) (fst (hs_GetCachedFile (h_path h) (w_http w))))"
    and "\<not> h_initialized h" and "\<not> h_force_full_download h" and "\<not> h_write_overwrite_mode h"
    and "of_read (h_flags h1)"
  shows "\<exists>h' w'. LoadFileInfo e ops h w = (None, h', w') \<and> h_length h' = n \<and> h_initialized h'"
proof -
  have n: "parse_optional_idx (to_string n) = Some n"
    using assms(7) stoull_to_string [of n] by (simp add: parse_optional_idx_def)
  have "find_at ''/'' (''bytes 0-1'' @ ''/'' @ to_string n) = Some (length ''bytes 0-1'')"
    by (rule find_at_fresh) simp
  then have "str_find (''bytes 0-1/'' @ to_string n) ''/'' 0 = Some 9" by (simp add: str_find_def)
  moreover have "to_string n \<noteq> ''*''" using to_string_digits [of n] by (auto simp: is_digit_def)
  ultimately have "file_size_of rr = n"
    using assms(6) n
    by (simp add: file_size_of_def TryParseContentRange_def has_header_def header_value_def eval_nat_numeral)
  moreover have "head_failed e ops r h1 w1 = (Inr (Some rr), h2, w2)"
    using assms(3,4,5,13) by (simp add: head_failed_def)
  ultimately have "LoadFileInfo e ops h w = (None, apply_file_info e rr h2, w2)"
    using assms(1,2,3,8-12) by (simp add: LoadFileInfo_def Let_def)
  then show ?thesis using \<open>file_size_of rr = n\<close>
    by (simp add: apply_file_info_def Let_def set_if_def split: option.splits)
qed

definition probe_response :: "nat \<Rightarrow> response" where
  "probe_response n = demo_response 206 [''Content-Range'' \<mapsto> ''bytes 0-1/'' @ to_string n]"

definition probe_ops :: "nat \<Rightarrow> hfh fs_ops" where
  "probe_ops n = \<lparr>fs_Head = (\<lambda>url h w. (Inr (Some (demo_response 403 Map.empty)), h, tick w)),
     fs_Get = (\<lambda>url h w. (Inr None, h, w)),
     fs_GetRange = (\<lambda>url off dst len h w. (Inr (Some (probe_response n)), dst, h, tick w)),
     fs_HTTPError = (\<lambda>_. GetHTTPError), fs_FromCacheEntry = InitializeFromCacheEntry,
     fs_CacheEntry = GetCacheEntry\<rparr>"

theorem probe_recovers_length_witness:
  "\<exists>h' w'. LoadFileInfo (demo_env [] []) (probe_ops 12345)
       (demo_new\<lparr>h_params := demo_params\<lparr>prm_state := True\<rparr>\<rparr>) demo_world = (None, h', w') \<and>
     h_length h' = 12345 \<and> h_initialized h'"
proof -
  let ?h = "demo_new\<lparr>h_params := demo_params\<lparr>prm_state := True\<rparr>\<rparr>"
  let ?v = "demo_world\<lparr>w_http := snd (hs_GetCachedFile (h_path ?h) (w_http demo_world))\<rparr>"
  show ?thesis
    by (rule probe_recovers_length [of "probe_ops 12345" ?h ?v "demo_response 403 Map.empty" ?h "tick ?v"
          demo_world "probe_response 12345" None ?h "tick (tick ?v)" 12345])
      (simp_all add: probe_ops_def probe_response_def demo_response_def demo_new_def demo_defs Let_def
        hs_GetCachedFile_def new_http_state_def hs_file_def new_cached_file_def)
qed

end
