(* ===== verification/S3Xml.thy ===== *)
theory S3Xml
  imports Http
begin

text \<open>
  The XML the S3 code reads (src/s3fs.cpp): the tag scanners, the error body (TryGetS3ErrorCode,
  ParseS3Error, IsS3RequestTimeout), and the listing (ParseFileList, ParseContinuationToken,
  ParseCommonPrefix), with the round trip from a rendered listing.
\<close>

section \<open>Tag scanners\<close>

text \<open>TryFindTagContents: the position behind the closing tag and the contents.\<close>

definition TryFindTagContents :: "string \<Rightarrow> string \<Rightarrow> nat \<Rightarrow> (nat \<times> string) option" where
  "TryFindTagContents response tag cur_pos =
     (let open_tag = ''<'' @ tag @ ''>''; close_tag = ''</'' @ tag @ ''>''
      in case str_find response open_tag cur_pos of
           None \<Rightarrow> None
         | Some open_tag_pos \<Rightarrow>
             (case str_find response close_tag (open_tag_pos + length open_tag) of
                None \<Rightarrow> None
              | Some close_tag_pos \<Rightarrow>
                  Some (close_tag_pos + length close_tag,
                        substr response (open_tag_pos + length open_tag)
                          (close_tag_pos - open_tag_pos - length open_tag))))"

definition FindTagContents :: "string \<Rightarrow> string \<Rightarrow> nat \<Rightarrow> exn + (nat \<times> string) option" where
  "FindTagContents response tag cur_pos =
     (case str_find response (''<'' @ tag @ ''>'') cur_pos of
        None \<Rightarrow> Inr None
      | Some _ \<Rightarrow>
          (case TryFindTagContents response tag cur_pos of
             None \<Rightarrow> Inl (Exn ExInternal ''Failed to parse S3 result'' None)
           | Some p \<Rightarrow> Inr (Some p)))"

lemma TryFindTagContents_Some:
  assumes "TryFindTagContents response tag cur_pos = Some (p, c)"
  obtains i j where "str_find response (''<'' @ tag @ ''>'') cur_pos = Some i"
    and "str_find response (''</'' @ tag @ ''>'') (i + (length tag + 2)) = Some j"
    and "p = j + (length tag + 3)" and "c = slice response (i + (length tag + 2)) (j - i - (length tag + 2))"
  using assms unfolding TryFindTagContents_def Let_def substr_def
  by (force split: option.splits)

lemma TryFindTagContents_pos:
  assumes "TryFindTagContents response tag cur_pos = Some (p, c)"
  shows "cur_pos < p \<and> p \<le> length response"
proof -
  obtain i j where i: "str_find response (''<'' @ tag @ ''>'') cur_pos = Some i"
    and j: "str_find response (''</'' @ tag @ ''>'') (i + (length tag + 2)) = Some j"
    and p: "p = j + (length tag + 3)"
    using assms by (rule TryFindTagContents_Some)
  have "cur_pos \<le> i" by (rule str_find_Some(1) [OF i])
  moreover have "i + (length tag + 2) \<le> j" by (rule str_find_Some(1) [OF j])
  moreover have "j + (length tag + 3) \<le> length response" using str_find_Some(2) [OF j] by simp
  ultimately show ?thesis using p by simp
qed

text \<open>The contents lie between the two tags.\<close>

lemma TryFindTagContents_slice:
  assumes "TryFindTagContents response tag cur_pos = Some (p, c)"
  shows "\<exists>i. cur_pos \<le> i \<and> slice response i (p - i) = (''<'' @ tag @ ''>'') @ c @ (''</'' @ tag @ ''>'')"
proof -
  let ?n = "length tag + 2" and ?m = "length tag + 3"
  obtain i j where i: "str_find response (''<'' @ tag @ ''>'') cur_pos = Some i"
    and j: "str_find response (''</'' @ tag @ ''>'') (i + ?n) = Some j"
    and p: "p = j + ?m" and c: "c = slice response (i + ?n) (j - i - ?n)"
    using assms by (rule TryFindTagContents_Some)
  obtain d where d: "j = i + ?n + d" using str_find_Some(1) [OF j] by (auto simp: le_iff_add)
  have "slice response i (?n + (d + ?m)) = slice response i ?n @ slice response (i + ?n) d @ slice response j ?m"
    unfolding slice_append_slice [symmetric] d by simp
  moreover have "slice response i ?n = ''<'' @ tag @ ''>''"
    using str_find_Some(3) [OF i] by (simp add: eval_nat_numeral)
  moreover have "slice response j ?m = ''</'' @ tag @ ''>''"
    using str_find_Some(3) [OF j] by (simp add: eval_nat_numeral)
  moreover have "slice response (i + ?n) d = c" using c d by simp
  ultimately have "slice response i (?n + (d + ?m)) = (''<'' @ tag @ ''>'') @ c @ (''</'' @ tag @ ''>'')"
    by simp
  moreover have "p - i = ?n + (d + ?m)" using p d by simp
  ultimately show ?thesis using str_find_Some(1) [OF i] by metis
qed

section \<open>Error bodies\<close>

definition TryGetS3ErrorCode :: "string \<Rightarrow> string option" where
  "TryGetS3ErrorCode err_body =
     (if err_body = '''' then None
      else
        (case TryFindTagContents err_body ''Error'' 0 of
           None \<Rightarrow> None
         | Some (_, error_xml) \<Rightarrow> map_option snd (TryFindTagContents error_xml ''Code'' 0)))"

definition ParseS3Error :: "string \<Rightarrow> string" where
  "ParseS3Error err =
     (if err = '''' then ''''
      else
        (case TryFindTagContents err ''Error'' 0 of
           None \<Rightarrow> ''''
         | Some (_, error_xml) \<Rightarrow>
             (case TryFindTagContents error_xml ''Code'' 0 of
                None \<Rightarrow> ''''
              | Some (_, error_code) \<Rightarrow>
                  (case TryFindTagContents error_xml ''Message'' 0 of
                     None \<Rightarrow> ''''
                   | Some (_, error_message) \<Rightarrow>
                       [CHR 0x0A, CHR 0x0A] @ error_code @ '': '' @ error_message @
                       (if error_code = ''InvalidAccessKeyId''
                        then (case TryFindTagContents error_xml ''AWSAccessKeyId'' 0 of
                                None \<Rightarrow> ''''
                              | Some (_, k) \<Rightarrow>
                                  [CHR 0x0A] @ ''Invalid Access Key: '' @ [CHR 0x22] @ k @ [CHR 0x22])
                        else '''')))))"

text \<open>S3's RequestTimeout arrives as a 400 and is told apart by its body.\<close>

definition IsS3RequestTimeout :: "response \<Rightarrow> bool" where
  "IsS3RequestTimeout r \<longleftrightarrow>
     status r = BadRequest_400 \<and> body r \<noteq> '''' \<and> TryGetS3ErrorCode (body r) = Some ''RequestTimeout''"

text \<open>HTTPFSUtil::ShouldRetry; the base verdict and the idempotency test are DuckDB's.\<close>

definition ShouldRetry :: "(rq_method \<Rightarrow> response \<Rightarrow> bool) \<Rightarrow> (rq_method \<Rightarrow> bool) \<Rightarrow> rq_method \<Rightarrow>
    response \<Rightarrow> bool" where
  "ShouldRetry base_should_retry is_idempotent m r =
     (if base_should_retry m r then True
      else if \<not> is_idempotent m then False
      else IsS3RequestTimeout r)"

section \<open>The listing\<close>

text \<open>An entry of the listing; the values of the attributes are kept as text.\<close>

record s3_entry =
  se_path :: string
  se_last_modified :: "string option"
  se_etag :: "string option"
  se_size :: "string option"

definition UrlDecode :: "string_util \<Rightarrow> string \<Rightarrow> string" where
  "UrlDecode su s = su_url_decode su s True"

definition UrlEncode :: "string_util \<Rightarrow> string \<Rightarrow> bool \<Rightarrow> string" where
  "UrlEncode su s encode_slash = su_url_encode su s encode_slash"

text \<open>One Contents element: None for a directory.\<close>

definition parse_entry :: "string_util \<Rightarrow> string \<Rightarrow> exn + s3_entry option" where
  "parse_entry su contents =
     (case FindTagContents contents ''Key'' 0 of
        Inl ex \<Rightarrow> Inl ex
      | Inr None \<Rightarrow> Inl (Exn ExInternal ''Key not found in S3 response'' None)
      | Inr (Some (_, key)) \<Rightarrow>
          (let parsed_path = UrlDecode su key
           in if parsed_path = [] then Inl (Exn Undefined ''back of an empty string'' None)
              else if last parsed_path = CHR ''/'' then Inr None
              else
                (case FindTagContents contents ''LastModified'' 0 of
                   Inl ex \<Rightarrow> Inl ex
                 | Inr lm \<Rightarrow>
                     (case FindTagContents contents ''ETag'' 0 of
                        Inl ex \<Rightarrow> Inl ex
                      | Inr et \<Rightarrow>
                          (case FindTagContents contents ''Size'' 0 of
                             Inl ex \<Rightarrow> Inl ex
                           | Inr sz \<Rightarrow>
                               Inr (Some
                                 \<lparr>se_path = parsed_path,
                                  se_last_modified = map_option snd lm,
                                  se_etag = map_option (\<lambda>(_, x).
                                    su_replace su (su_replace su x ''&quot;'' [CHR 0x22]) ''&#34;'' [CHR 0x22]) et,
                                  se_size = map_option snd sz\<rparr>))))))"

function ParseFileList_from :: "string_util \<Rightarrow> string \<Rightarrow> nat \<Rightarrow> exn + s3_entry list" where
  "ParseFileList_from su response cur_pos =
     (case FindTagContents response ''Contents'' cur_pos of
        Inl ex \<Rightarrow> Inl ex
      | Inr None \<Rightarrow> Inr []
      | Inr (Some (next_pos, contents)) \<Rightarrow>
          (case parse_entry su contents of
             Inl ex \<Rightarrow> Inl ex
           | Inr x \<Rightarrow>
               (case ParseFileList_from su response next_pos of
                  Inl ex \<Rightarrow> Inl ex
                | Inr rest \<Rightarrow> Inr (case x of None \<Rightarrow> rest | Some f \<Rightarrow> f # rest))))"
  by pat_completeness auto
termination
proof (relation "measure (\<lambda>(su, response, cur_pos). length response - cur_pos)", goal_cases)
  case 1
  show ?case by simp
next
  case (2 su response cur_pos)
  then show ?case using TryFindTagContents_pos [of response "''Contents''" cur_pos]
    by (fastforce simp: FindTagContents_def split: option.splits)
qed

declare ParseFileList_from.simps [simp del]

definition ParseFileList :: "string_util \<Rightarrow> string \<Rightarrow> exn + s3_entry list" where
  "ParseFileList su aws_response = ParseFileList_from su aws_response 0"

definition ParseContinuationToken :: "string \<Rightarrow> exn + string" where
  "ParseContinuationToken aws_response =
     (case str_find aws_response ''<NextContinuationToken>'' 0 of
        None \<Rightarrow> Inr ''''
      | Some open_tag_pos \<Rightarrow>
          (case str_find aws_response ''</NextContinuationToken>'' (open_tag_pos + 23) of
             None \<Rightarrow> Inl (Exn ExInternal ''Failed to parse S3 result'' None)
           | Some close_tag_pos \<Rightarrow>
               Inr (substr aws_response (open_tag_pos + 23) (close_tag_pos - open_tag_pos - 23))))"

function ParseCommonPrefix_from :: "string \<Rightarrow> nat \<Rightarrow> exn + string list" where
  "ParseCommonPrefix_from s cur_pos =
     (case str_find s ''<CommonPrefixes>'' cur_pos of
        None \<Rightarrow> Inr []
      | Some pos \<Rightarrow>
          (case str_find s ''<Prefix>'' pos of
             None \<Rightarrow> Inl (Exn ExInternal ''Parsing error while parsing s3 listobject result'' None)
           | Some open_pos \<Rightarrow>
               (case str_find s ''</Prefix>'' (open_pos + 8) of
                  None \<Rightarrow> Inl (Exn ExInternal ''Failed to parse S3 result'' None)
                | Some close_pos \<Rightarrow>
                    (case ParseCommonPrefix_from s (close_pos + 6) of
                       Inl ex \<Rightarrow> Inl ex
                     | Inr rest \<Rightarrow>
                         Inr (substr s (open_pos + 8) (close_pos - open_pos - 8) # rest)))))"
  by pat_completeness auto
termination
proof (relation "measure (\<lambda>(s, cur_pos). Suc (length s) - cur_pos)", goal_cases)
  case 1
  show ?case by simp
next
  case (2 s cur_pos pos open_pos close_pos)
  have "cur_pos \<le> pos" "pos \<le> open_pos" "open_pos + 8 \<le> close_pos" "close_pos + 9 \<le> length s"
    using str_find_Some(1,2) [OF 2(1)] str_find_Some(1) [OF 2(2)] str_find_Some(1,2) [OF 2(3)] by simp_all
  then show ?case by simp
qed

declare ParseCommonPrefix_from.simps [simp del]

definition ParseCommonPrefix :: "string \<Rightarrow> exn + string list" where
  "ParseCommonPrefix aws_response = ParseCommonPrefix_from aws_response 0"

section \<open>Reading a rendered listing back\<close>

definition clean :: "string \<Rightarrow> bool" where
  "clean t \<longleftrightarrow> CHR ''<'' \<notin> set t"

lemma find_skip [simp]:
  "clean t \<Longrightarrow> find_at (CHR ''<'' # n) (t @ s) = map_option ((+) (length t)) (find_at (CHR ''<'' # n) s)"
proof (induction t)
  case Nil
  show ?case by (cases "find_at (CHR ''<'' # n) s") simp_all
next
  case (Cons a t)
  then show ?case by (cases "find_at (CHR ''<'' # n) s") (auto simp: clean_def)
qed

lemma str_find_append:
  "str_find (pre @ s) needle (length pre) = map_option ((+) (length pre)) (find_at needle s)"
  by (simp add: str_find_def)

text \<open>A tag found behind pre and junk, closed right after its contents.\<close>

lemma TryFindTagContents_at:
  assumes "find_at (''<'' @ tag @ ''>'') (junk @ (''<'' @ tag @ ''>'') @ c @ (''</'' @ tag @ ''>'') @ post)
      = Some (length junk)"
    and "find_at (''</'' @ tag @ ''>'') (c @ (''</'' @ tag @ ''>'') @ post) = Some (length c)"
  shows "TryFindTagContents (pre @ junk @ (''<'' @ tag @ ''>'') @ c @ (''</'' @ tag @ ''>'') @ post) tag (length pre)
     = Some (length (pre @ junk @ (''<'' @ tag @ ''>'') @ c @ (''</'' @ tag @ ''>'')), c)"
proof -
  let ?o = "''<'' @ tag @ ''>''" and ?c = "''</'' @ tag @ ''>''"
  let ?r = "pre @ junk @ ?o @ c @ ?c @ post"
  have o: "str_find ?r ?o (length pre) = Some (length (pre @ junk))"
    using assms(1) by (simp only: str_find_append option.map length_append)
  have "str_find ((pre @ junk @ ?o) @ (c @ ?c @ post)) ?c (length (pre @ junk @ ?o))
      = Some (length (pre @ junk @ ?o) + length c)"
    using assms(2) by (simp only: str_find_append option.map)
  then have c: "str_find ?r ?c (length (pre @ junk) + length ?o) = Some (length (pre @ junk @ ?o) + length c)"
    by (simp add: add.assoc)
  have "substr ?r (length (pre @ junk) + length ?o)
      (length (pre @ junk @ ?o) + length c - length (pre @ junk) - length ?o) = c"
    by (simp add: substr_def slice_def)
  then show ?thesis unfolding TryFindTagContents_def Let_def o option.case c by simp
qed

lemma FindTagContents_Some:
  "TryFindTagContents r tag n = Some x \<Longrightarrow> FindTagContents r tag n = Inr (Some x)"
  by (auto simp: FindTagContents_def TryFindTagContents_def Let_def split: option.splits)

text \<open>What S3 sends for one object; the values are URL-encoded or free of markup.\<close>

record listed =
  ls_key :: string
  ls_modified :: string
  ls_etag :: string
  ls_size :: string

definition render_inner :: "listed \<Rightarrow> string" where
  "render_inner x = ''<Key>'' @ ls_key x @ ''</Key><LastModified>'' @ ls_modified x @
     ''</LastModified><ETag>'' @ ls_etag x @ ''</ETag><Size>'' @ ls_size x @ ''</Size>''"

definition render :: "listed \<Rightarrow> string" where
  "render x = ''<Contents>'' @ render_inner x @ ''</Contents>''"

definition listed_ok :: "listed \<Rightarrow> bool" where
  "listed_ok x \<longleftrightarrow> clean (ls_key x) \<and> clean (ls_modified x) \<and> clean (ls_etag x) \<and> clean (ls_size x)"

text \<open>The entry the file list should have for it, where it is not a directory.\<close>

definition entry_of :: "string_util \<Rightarrow> listed \<Rightarrow> s3_entry" where
  "entry_of su x = \<lparr>se_path = UrlDecode su (ls_key x), se_last_modified = Some (ls_modified x),
     se_etag = Some (su_replace su (su_replace su (ls_etag x) ''&quot;'' [CHR 0x22]) ''&#34;'' [CHR 0x22]),
     se_size = Some (ls_size x)\<rparr>"

definition is_directory :: "string_util \<Rightarrow> listed \<Rightarrow> bool" where
  "is_directory su x \<longleftrightarrow> last (UrlDecode su (ls_key x)) = CHR ''/''"

lemma inner_tags:
  assumes "listed_ok x"
  shows "FindTagContents (render_inner x) ''Key'' 0 = Inr (Some (length (''<Key>'' @ ls_key x @ ''</Key>''), ls_key x))"
    and "\<exists>p. FindTagContents (render_inner x) ''LastModified'' 0 = Inr (Some (p, ls_modified x))"
    and "\<exists>p. FindTagContents (render_inner x) ''ETag'' 0 = Inr (Some (p, ls_etag x))"
    and "\<exists>p. FindTagContents (render_inner x) ''Size'' 0 = Inr (Some (p, ls_size x))"
proof -
  have ok: "clean (ls_key x)" "clean (ls_modified x)" "clean (ls_etag x)" "clean (ls_size x)"
    using assms by (auto simp: listed_ok_def)
  show "FindTagContents (render_inner x) ''Key'' 0 = Inr (Some (length (''<Key>'' @ ls_key x @ ''</Key>''), ls_key x))"
    using FindTagContents_Some [OF TryFindTagContents_at [of "''Key''" "[]" "ls_key x"
      "''<LastModified>'' @ ls_modified x @
       ''</LastModified><ETag>'' @ ls_etag x @ ''</ETag><Size>'' @ ls_size x @ ''</Size>''" "[]"]] ok
    by (simp add: render_inner_def)
  have "FindTagContents (render_inner x) ''LastModified'' 0 = Inr (Some
      (length (''<Key>'' @ ls_key x @ ''</Key>'' @ ''<LastModified>'' @ ls_modified x @ ''</LastModified>''), ls_modified x))"
    using FindTagContents_Some [OF TryFindTagContents_at [of "''LastModified''" "''<Key>'' @ ls_key x @ ''</Key>''"
      "ls_modified x" "''<ETag>'' @ ls_etag x @ ''</ETag><Size>'' @ ls_size x @ ''</Size>''" "[]"]] ok
    by (simp add: render_inner_def)
  then show "\<exists>p. FindTagContents (render_inner x) ''LastModified'' 0 = Inr (Some (p, ls_modified x))" by blast
  have "FindTagContents (render_inner x) ''ETag'' 0 = Inr (Some
      (length (''<Key>'' @ ls_key x @ ''</Key><LastModified>'' @ ls_modified x @ ''</LastModified>'' @ ''<ETag>'' @ ls_etag x @ ''</ETag>''), ls_etag x))"
    using FindTagContents_Some [OF TryFindTagContents_at [of "''ETag''"
      "''<Key>'' @ ls_key x @ ''</Key><LastModified>'' @ ls_modified x @ ''</LastModified>''"
      "ls_etag x" "''<Size>'' @ ls_size x @ ''</Size>''" "[]"]] ok
    by (simp add: render_inner_def)
  then show "\<exists>p. FindTagContents (render_inner x) ''ETag'' 0 = Inr (Some (p, ls_etag x))" by blast
  have "FindTagContents (render_inner x) ''Size'' 0 = Inr (Some (length (render_inner x), ls_size x))"
    using FindTagContents_Some [OF TryFindTagContents_at [of "''Size''"
      "''<Key>'' @ ls_key x @ ''</Key><LastModified>'' @ ls_modified x @ ''</LastModified><ETag>'' @ ls_etag x @ ''</ETag>''"
      "ls_size x" "[]" "[]"]] ok
    by (simp add: render_inner_def)
  then show "\<exists>p. FindTagContents (render_inner x) ''Size'' 0 = Inr (Some (p, ls_size x))" by blast
qed

lemma parse_entry_render:
  assumes "listed_ok x" and "UrlDecode su (ls_key x) \<noteq> []"
  shows "parse_entry su (render_inner x) = Inr (if is_directory su x then None else Some (entry_of su x))"
proof -
  obtain p q r where "FindTagContents (render_inner x) ''LastModified'' 0 = Inr (Some (p, ls_modified x))"
    "FindTagContents (render_inner x) ''ETag'' 0 = Inr (Some (q, ls_etag x))"
    "FindTagContents (render_inner x) ''Size'' 0 = Inr (Some (r, ls_size x))"
    using inner_tags(2-4) [OF assms(1)] by blast
  then show ?thesis using inner_tags(1) [OF assms(1)] assms(2)
    by (simp add: parse_entry_def Let_def is_directory_def entry_of_def)
qed

lemma find_close_contents:
  "listed_ok x \<Longrightarrow> find_at ''</Contents>'' (render_inner x @ ''</Contents>'' @ post) = Some (length (render_inner x))"
  by (simp add: render_inner_def listed_ok_def)

lemma ParseFileList_from_render:
  assumes "\<forall>x \<in> set xs. listed_ok x \<and> UrlDecode su (ls_key x) \<noteq> []"
    and "find_at ''<Contents>'' tail = None"
  shows "ParseFileList_from su (pre @ concat (map render xs) @ tail) (length pre)
     = Inr (map (entry_of su) (filter (\<lambda>x. \<not> is_directory su x) xs))"
  using assms
proof (induction xs arbitrary: pre)
  case Nil
  then show ?case
    by (simp add: ParseFileList_from.simps FindTagContents_def str_find_append)
next
  case (Cons x xs)
  let ?rest = "concat (map render xs) @ tail"
  have ok: "listed_ok x" "UrlDecode su (ls_key x) \<noteq> []" using Cons.prems(1) by auto
  have f: "FindTagContents (pre @ render x @ ?rest) ''Contents'' (length pre)
      = Inr (Some (length (pre @ render x), render_inner x))"
    using FindTagContents_Some [OF TryFindTagContents_at [of "''Contents''" "[]" "render_inner x" ?rest pre]]
      find_close_contents [OF ok(1)]
    by (simp add: render_def)
  have "ParseFileList_from su ((pre @ render x) @ ?rest) (length (pre @ render x))
      = Inr (map (entry_of su) (filter (\<lambda>x. \<not> is_directory su x) xs))"
    by (rule Cons.IH) (use Cons.prems in auto)
  then show ?case using f parse_entry_render [OF ok]
    by (subst ParseFileList_from.simps) simp
qed

text \<open>A prefix in which a tag does not occur, whatever follows.\<close>

definition quiet :: "string \<Rightarrow> string \<Rightarrow> bool" where
  "quiet tag pre \<longleftrightarrow> (\<forall>post. find_at (''<'' @ tag @ ''>'') (pre @ post)
     = map_option ((+) (length pre)) (find_at (''<'' @ tag @ ''>'') post))"

lemma ParseFileList_skip:
  assumes "quiet ''Contents'' pre"
  shows "ParseFileList_from su (pre @ s) 0 = ParseFileList_from su (pre @ s) (length pre)"
proof -
  have "str_find (pre @ s) ''<Contents>'' 0 = str_find (pre @ s) ''<Contents>'' (length pre)"
    using assms by (cases "find_at ''<Contents>'' s") (simp_all add: quiet_def str_find_def)
  moreover from this have "TryFindTagContents (pre @ s) ''Contents'' 0
      = TryFindTagContents (pre @ s) ''Contents'' (length pre)"
    by (simp add: TryFindTagContents_def Let_def)
  ultimately have "FindTagContents (pre @ s) ''Contents'' 0 = FindTagContents (pre @ s) ''Contents'' (length pre)"
    by (simp add: FindTagContents_def cong: option.case_cong)
  then show ?thesis by (simp add: ParseFileList_from.simps [of su "pre @ s" 0]
        ParseFileList_from.simps [of su "pre @ s" "length pre"])
qed


definition demo_listed :: "string \<Rightarrow> listed" where
  "demo_listed k = \<lparr>ls_key = k, ls_modified = ''2024-11-09'', ls_etag = ''abc'', ls_size = ''12''\<rparr>"


text \<open>
  A stalled S3 request is retried exactly when it is safe. For a 400 response whose error body
  carries the code RequestTimeout, ShouldRetry answers yes exactly when DuckDB's own rule does or
  the method is idempotent, and for any other code it adds nothing to DuckDB's rule.
\<close>

theorem request_timeout_retry:
  assumes "clean code" and "clean msg" and "status r = BadRequest_400"
    and "body r = ''<Error><Code>'' @ code @ ''</Code><Message>'' @ msg @ ''</Message></Error>''"
  shows "ShouldRetry base idem m r \<longleftrightarrow> base m r \<or> (idem m \<and> code = ''RequestTimeout'')"
proof -
  let ?in = "''<Code>'' @ code @ ''</Code><Message>'' @ msg @ ''</Message>''"
  have "TryFindTagContents (body r) ''Error'' 0 = Some (length (''<Error>'' @ ?in @ ''</Error>''), ?in)"
    using TryFindTagContents_at [of "''Error''" "[]" ?in "[]" "[]"] assms by simp
  moreover have "TryFindTagContents ?in ''Code'' 0 = Some (length (''<Code>'' @ code @ ''</Code>''), code)"
    using TryFindTagContents_at [of "''Code''" "[]" code "''<Message>'' @ msg @ ''</Message>''" "[]"] assms
    by simp
  moreover have "body r \<noteq> []" using assms(4) by simp
  ultimately have "TryGetS3ErrorCode (body r) = Some code" by (simp add: TryGetS3ErrorCode_def)
  then show ?thesis using assms(3) \<open>body r \<noteq> []\<close> by (simp add: ShouldRetry_def IsS3RequestTimeout_def)
qed

definition error_response :: "string \<Rightarrow> response" where
  "error_response b = \<lparr>status = 400, resp_url = '''', body = b, reason = '''', request_error = '''',
     success = False, cancelled = False, hdrs = Map.empty\<rparr>"

theorem request_timeout_retry_witness:
  "ShouldRetry (\<lambda>_ _. False) (\<lambda>m. m \<noteq> POST) PUT
     (error_response ''<Error><Code>RequestTimeout</Code><Message>idle</Message></Error>'')"
  using request_timeout_retry [of "''RequestTimeout''" "''idle''"
      "error_response ''<Error><Code>RequestTimeout</Code><Message>idle</Message></Error>''"
      "\<lambda>_ _. False" "\<lambda>m. m \<noteq> POST" PUT]
  by (simp add: clean_def error_response_def)

end
