(* ===== verification/S3Auth.thy ===== *)
theory S3Auth
  imports S3Xml HttpParams
begin

text \<open>
  S3 authentication parameters and URLs (src/s3fs.cpp): reading the parameters from secrets,
  settings and the URL's query, the endpoint and region rules, S3UrlParse and the HTTP URL of a
  request, and the upload configuration.
\<close>

section \<open>The parameters and the endpoint\<close>

record s3_auth =
  region :: string
  access_key_id :: string
  secret_access_key :: string
  session_token :: string
  endpoint :: string
  kms_key_id :: string
  url_style :: string
  use_ssl :: bool
  s3_url_compatibility_mode :: bool
  requester_pays :: bool
  oauth2_bearer_token :: string

definition new_s3_auth :: s3_auth where
  "new_s3_auth = \<lparr>region = '''', access_key_id = '''', secret_access_key = '''',
     session_token = '''', endpoint = '''', kms_key_id = '''', url_style = '''', use_ssl = True,
     s3_url_compatibility_mode = False, requester_pays = False, oauth2_bearer_token = ''''\<rparr>"

definition EndpointIsAWS :: "string_util \<Rightarrow> string \<Rightarrow> bool" where
  "EndpointIsAWS su ep \<longleftrightarrow>
     ep = '''' \<or> su_starts_with su ep ''s3.'' \<and> su_ends_with su ep ''.amazonaws.com''"

definition InitializeEndpoint :: "string_util \<Rightarrow> s3_auth \<Rightarrow> s3_auth" where
  "InitializeEndpoint su a =
     (if \<not> EndpointIsAWS su (endpoint a) then a
      else if region a = '''' \<and> access_key_id a = '''' then a\<lparr>endpoint := ''s3.amazonaws.com''\<rparr>
      else
        (let a1 = (if region a = '''' then a\<lparr>region := ''us-east-1''\<rparr> else a)
         in a1\<lparr>endpoint := ''s3.'' @ region a1 @ ''.amazonaws.com''\<rparr>))"

definition SetRegion :: "string_util \<Rightarrow> string \<Rightarrow> s3_auth \<Rightarrow> s3_auth" where
  "SetRegion su new_region a = InitializeEndpoint su (a\<lparr>region := new_region\<rparr>)"

section \<open>Reading the parameters\<close>

text \<open>
  The KeyValueSecretReader of DuckDB for a path: the value of a secret key or, failing that, a
  setting, with the scope it was found in (None: not found; a value may be NULL), and the value of
  a secret key alone. sr_use_env is the setting enable_global_s3_configuration.
\<close>

datatype setting_scope = SECRET | GLOBAL | LOCAL

record s3_reader =
  sr_str :: "string \<Rightarrow> string \<Rightarrow> string option \<times> setting_scope option"
  sr_bool :: "string \<Rightarrow> string \<Rightarrow> bool option \<times> setting_scope option"
  sr_secret :: "string \<Rightarrow> string option"
  sr_use_env :: bool

text \<open>TryGetSecretKeyOrSetting: the new value and the scope.\<close>

definition pick :: "s3_reader \<Rightarrow> 'v option \<times> setting_scope option \<Rightarrow> 'v \<Rightarrow> 'v" where
  "pick sr found old =
     (case found of
        (None, _) \<Rightarrow> old
      | (Some v, sc) \<Rightarrow> if sc = Some GLOBAL \<and> \<not> sr_use_env sr then old else v)"

definition get_str :: "s3_reader \<Rightarrow> string \<Rightarrow> string \<Rightarrow> string \<Rightarrow> string" where
  "get_str sr key setting old = pick sr (sr_str sr key setting) old"

definition get_bool :: "s3_reader \<Rightarrow> string \<Rightarrow> string \<Rightarrow> bool \<Rightarrow> bool" where
  "get_bool sr key setting old = pick sr (sr_bool sr key setting) old"

text \<open>For GCS the endpoint and the URL style are fixed unless a secret sets them.\<close>

definition gcs_defaults :: "s3_reader \<Rightarrow> s3_auth \<Rightarrow> s3_auth" where
  "gcs_defaults sr a =
     (let a1 = (if endpoint a = '''' \<or> snd (sr_str sr ''endpoint'' ''s3_endpoint'') \<noteq> Some SECRET
                then a\<lparr>endpoint := ''storage.googleapis.com''\<rparr> else a);
          a2 = (if url_style a1 = '''' \<or> snd (sr_str sr ''url_style'' ''s3_url_style'') \<noteq> Some SECRET
                then a1\<lparr>url_style := ''path''\<rparr> else a1)
      in set_if (sr_secret sr ''bearer_token'') (\<lambda>x a. a\<lparr>oauth2_bearer_token := x\<rparr>) a2)"

definition is_gcs_path :: "string_util \<Rightarrow> string \<Rightarrow> bool" where
  "is_gcs_path su path \<longleftrightarrow> su_starts_with su path ''gcs://'' \<or> su_starts_with su path ''gs://''"

definition ReadFrom :: "string_util \<Rightarrow> s3_reader \<Rightarrow> string \<Rightarrow> s3_auth" where
  "ReadFrom su sr file_path =
     (let a = new_s3_auth\<lparr>
            region := get_str sr ''region'' ''s3_region'' '''',
            access_key_id := get_str sr ''key_id'' ''s3_access_key_id'' '''',
            secret_access_key := get_str sr ''secret'' ''s3_secret_access_key'' '''',
            session_token := get_str sr ''session_token'' ''s3_session_token'' '''',
            use_ssl := get_bool sr ''use_ssl'' ''s3_use_ssl'' True,
            kms_key_id := get_str sr ''kms_key_id'' ''s3_kms_key_id'' '''',
            s3_url_compatibility_mode :=
              get_bool sr ''s3_url_compatibility_mode'' ''s3_url_compatibility_mode'' False,
            requester_pays := get_bool sr ''requester_pays'' ''s3_requester_pays'' False,
            endpoint := get_str sr ''endpoint'' ''s3_endpoint'' '''',
            url_style := get_str sr ''url_style'' ''s3_url_style'' ''''\<rparr>
      in InitializeEndpoint su (if is_gcs_path su file_path then gcs_defaults sr a else a))"

text \<open>ReadFrom on an opener: without one, the default parameters.\<close>

definition ReadFromOpener :: "string_util \<Rightarrow> s3_reader option \<Rightarrow> string \<Rightarrow> s3_auth" where
  "ReadFromOpener su sr file_path =
     (case sr of None \<Rightarrow> new_s3_auth | Some r \<Rightarrow> ReadFrom su r file_path)"

section \<open>Query parameters\<close>

text \<open>GetQueryParam: take a parameter out of the parsed query (an unordered_map).\<close>

definition GetQueryParam :: "string \<Rightarrow> (string \<Rightarrow> s3_auth \<Rightarrow> s3_auth) \<Rightarrow>
    s3_auth \<times> (string \<times> string) list \<Rightarrow> s3_auth \<times> (string \<times> string) list" where
  "GetQueryParam key upd s =
     (case map_of (snd s) key of
        None \<Rightarrow> s
      | Some v \<Rightarrow> (upd v (fst s), AList.delete key (snd s)))"

definition GetBoolParam :: "string \<Rightarrow> (bool \<Rightarrow> s3_auth \<Rightarrow> s3_auth) \<Rightarrow>
    s3_auth \<times> (string \<times> string) list \<Rightarrow> exn + s3_auth \<times> (string \<times> string) list" where
  "GetBoolParam key upd s =
     (case map_of (snd s) key of
        None \<Rightarrow> Inr s
      | Some v \<Rightarrow>
          (if v = ''true'' then Inr (upd True (fst s), AList.delete key (snd s))
           else if v = ''false'' then Inr (upd False (fst s), AList.delete key (snd s))
           else Inl (Exn ExIO ''Incorrect setting found'' None)))"

definition take_string_params :: "s3_auth \<times> (string \<times> string) list \<Rightarrow>
    s3_auth \<times> (string \<times> string) list" where
  "take_string_params s =
     GetQueryParam ''s3_url_style'' (\<lambda>v a. a\<lparr>url_style := v\<rparr>)
     (GetQueryParam ''s3_endpoint'' (\<lambda>v a. a\<lparr>endpoint := v\<rparr>)
     (GetQueryParam ''s3_session_token'' (\<lambda>v a. a\<lparr>session_token := v\<rparr>)
     (GetQueryParam ''s3_secret_access_key'' (\<lambda>v a. a\<lparr>secret_access_key := v\<rparr>)
     (GetQueryParam ''s3_access_key_id'' (\<lambda>v a. a\<lparr>access_key_id := v\<rparr>)
     (GetQueryParam ''s3_region'' (\<lambda>v a. a\<lparr>region := v\<rparr>) s)))))"

text \<open>parse_get is HTTPUtil::ParseGetParameters.\<close>

definition ReadQueryParams :: "(string \<Rightarrow> (string \<times> string) list) \<Rightarrow> string \<Rightarrow> s3_auth \<Rightarrow>
    exn + s3_auth" where
  "ReadQueryParams parse_get url_query_param a =
     (if url_query_param = '''' then Inr a
      else
        (case GetBoolParam ''s3_use_ssl'' (\<lambda>v a. a\<lparr>use_ssl := v\<rparr>)
                (take_string_params (a, parse_get url_query_param)) of
           Inl ex \<Rightarrow> Inl ex
         | Inr s \<Rightarrow>
             (case GetBoolParam ''s3_requester_pays'' (\<lambda>v a. a\<lparr>requester_pays := v\<rparr>) s of
                Inl ex \<Rightarrow> Inl ex
              | Inr (a1, rest) \<Rightarrow>
                  (if rest \<noteq> [] then Inl (Exn ExIO ''Invalid query parameters found'' None)
                   else Inr a1))))"

section \<open>URLs\<close>

definition s3_prefixes :: "string list" where
  "s3_prefixes = [''s3://'', ''s3a://'', ''s3n://'', ''gcs://'', ''gs://'', ''r2://'']"

fun first_prefix :: "string_util \<Rightarrow> string \<Rightarrow> string list \<Rightarrow> string" where
  "first_prefix su low [] = ''''"
| "first_prefix su low (p # ps) = (if su_starts_with su low p then p else first_prefix su low ps)"

definition TryGetPrefix :: "string_util \<Rightarrow> string \<Rightarrow> string" where
  "TryGetPrefix su url = first_prefix su (su_lower su url) s3_prefixes"

definition GetPrefix :: "string_util \<Rightarrow> string \<Rightarrow> exn + string" where
  "GetPrefix su url =
     (let p = TryGetPrefix su url
      in if p = '''' then Inl (Exn ExIO ''URL needs to start with s3://, gcs:// or r2://'' None) else Inr p)"

record parsed_s3_url =
  u_http_proto :: string
  u_prefix :: string
  u_host :: string
  u_bucket :: string
  u_key :: string
  u_path :: string
  u_query_param :: string
  u_trimmed :: string

text \<open>The key with its leading slash, the query and the trimmed URL.\<close>

definition split_query :: "string \<Rightarrow> nat \<Rightarrow> bool \<Rightarrow> string \<times> string \<times> string" where
  "split_query url slash_pos compat_mode =
     (if compat_mode then (drop slash_pos url, '''', url)
      else
        (case find_first_of url ''?'' of
           None \<Rightarrow> (drop slash_pos url, '''', url)
         | Some question_pos \<Rightarrow>
             (let q = drop (question_pos + 1) url
              in (if q \<noteq> '''' \<and> slash_pos \<le> question_pos
                  then substr url slash_pos (question_pos - slash_pos) else drop slash_pos url,
                  q, take question_pos url))))"

text \<open>Host and path of the endpoint, and what the URL style adds of the bucket.\<close>

definition host_and_path :: "s3_auth \<Rightarrow> string \<Rightarrow> string \<times> string" where
  "host_and_path a bucket =
     (let (host, path) =
        (case find_first_of (endpoint a) ''/'' of
           Some sub_path_pos \<Rightarrow> (take sub_path_pos (endpoint a), drop sub_path_pos (endpoint a))
         | None \<Rightarrow> (endpoint a, ''''))
      in if url_style a = ''vhost'' \<or> url_style a = ''virtual'' \<or> url_style a = ''''
         then (bucket @ ''.'' @ host, path)
         else if url_style a = ''path'' then (host, path @ ''/'' @ bucket)
         else (host, path))"

definition S3UrlParse :: "string_util \<Rightarrow> string \<Rightarrow> s3_auth \<Rightarrow> exn + parsed_s3_url" where
  "S3UrlParse su url a =
     (case GetPrefix su url of
        Inl ex \<Rightarrow> Inl ex
      | Inr pfx \<Rightarrow>
          (let prefix_end_pos = (case str_find url ''//'' 0 of Some i \<Rightarrow> i + 2 | None \<Rightarrow> 1)
           in case str_find url ''/'' prefix_end_pos of
                None \<Rightarrow> Inl (Exn ExIO ''URL needs to contain a slash after the host'' None)
              | Some slash_pos \<Rightarrow>
                  (let bucket = substr url prefix_end_pos (slash_pos - prefix_end_pos)
                   in if bucket = '''' then Inl (Exn ExIO ''URL needs to contain a bucket name'' None)
                      else
                        (let (key, query, trimmed) = split_query url slash_pos (s3_url_compatibility_mode a)
                         in if key = '''' then Inl (Exn ExIO ''URL needs to contain key'' None)
                            else
                              (let (host, path) = host_and_path a bucket
                               in Inr \<lparr>u_http_proto = (if use_ssl a then ''https://'' else ''http://''),
                                       u_prefix = pfx, u_host = host, u_bucket = bucket,
                                       u_key = tl key, u_path = path @ key,
                                       u_query_param = query, u_trimmed = trimmed\<rparr>)))))"

definition GetHTTPUrl :: "string_util \<Rightarrow> parsed_s3_url \<Rightarrow> string \<Rightarrow> string" where
  "GetHTTPUrl su u http_query_string =
     u_http_proto u @ u_host u @ UrlEncode su (u_path u) False @
     (if http_query_string \<noteq> '''' then ''?'' @ http_query_string else '''')"

definition GetS3BucketPath :: "parsed_s3_url \<Rightarrow> string" where
  "GetS3BucketPath u =
     (let bucket_path = take (length (u_path u) - length (u_key u)) (u_path u)
      in if bucket_path = '''' then ''/'' else bucket_path)"

text \<open>ReadS3AuthParams: secrets and settings, then the URL's query.\<close>

definition ReadS3AuthParams :: "string_util \<Rightarrow> (string \<Rightarrow> (string \<times> string) list) \<Rightarrow>
    (string \<Rightarrow> s3_reader option) \<Rightarrow> string \<Rightarrow> exn + s3_auth" where
  "ReadS3AuthParams su parse_get reader path =
     (let a = ReadFromOpener su (reader path) path
      in case S3UrlParse su path a of
           Inl ex \<Rightarrow> Inl ex
         | Inr u \<Rightarrow> ReadQueryParams parse_get (u_query_param u) a)"

text \<open>
  CanHandleFile multiplies six rfind results modulo 2^64; a miss is npos = 2^64 - 1.
\<close>

definition rfind_at_start :: "string \<Rightarrow> string \<Rightarrow> nat" where
  "rfind_at_start s needle = (if prefix needle s then 0 else w64 - 1)"

definition CanHandleFile_s3 :: "string \<Rightarrow> bool" where
  "CanHandleFile_s3 fpath \<longleftrightarrow>
     mul64 (mul64 (mul64 (mul64 (mul64 (rfind_at_start fpath ''s3://'') (rfind_at_start fpath ''s3a://''))
       (rfind_at_start fpath ''s3n://'')) (rfind_at_start fpath ''gcs://''))
       (rfind_at_start fpath ''gs://'')) (rfind_at_start fpath ''r2://'') = 0"

section \<open>The upload configuration and the environment\<close>

record s3_config =
  max_file_size :: nat
  max_parts_per_file :: nat
  max_upload_threads :: nat

definition ReadConfig :: "(string \<Rightarrow> nat) \<Rightarrow> opener \<Rightarrow> s3_config" where
  "ReadConfig parse_memory_limit op =
     \<lparr>max_file_size = (case op_str op ''s3_uploader_max_filesize'' of
        Some v \<Rightarrow> parse_memory_limit v | None \<Rightarrow> 800000000000),
      max_parts_per_file = (case op_nat op ''s3_uploader_max_parts_per_file'' of
        Some v \<Rightarrow> v | None \<Rightarrow> 10000),
      max_upload_threads = (case op_nat op ''s3_uploader_thread_limit'' of
        Some v \<Rightarrow> v | None \<Rightarrow> 50)\<rparr>"

datatype option_value = OBool bool | OStr string

type_synonym db_options = "string \<rightharpoonup> option_value"

definition SetExtensionOptionValue :: "string_util \<Rightarrow> (string \<Rightarrow> string option) \<Rightarrow> string \<Rightarrow> string \<Rightarrow>
    db_options \<Rightarrow> db_options" where
  "SetExtensionOptionValue su getenv key env_var config =
     (case getenv env_var of
        None \<Rightarrow> config
      | Some evar \<Rightarrow>
          config(key \<mapsto> (if su_lower su evar = ''false'' then OBool False
                         else if su_lower su evar = ''true'' then OBool True else OStr evar)))"

definition SetAll :: "string_util \<Rightarrow> (string \<Rightarrow> string option) \<Rightarrow> db_options \<Rightarrow> db_options" where
  "SetAll su getenv config =
     fold (\<lambda>(key, env_var). SetExtensionOptionValue su getenv key env_var)
       [(''s3_region'', ''AWS_DEFAULT_REGION''), (''s3_region'', ''AWS_REGION''),
        (''s3_access_key_id'', ''AWS_ACCESS_KEY_ID''),
        (''s3_secret_access_key'', ''AWS_SECRET_ACCESS_KEY''),
        (''s3_session_token'', ''AWS_SESSION_TOKEN''), (''s3_endpoint'', ''DUCKDB_S3_ENDPOINT''),
        (''s3_use_ssl'', ''DUCKDB_S3_USE_SSL''), (''s3_kms_key_id'', ''DUCKDB_S3_KMS_KEY_ID''),
        (''s3_requester_pays'', ''DUCKDB_S3_REQUESTER_PAYS'')] config"

section \<open>Endpoint and region\<close>

text \<open>An AWS endpoint is the one of the region; the legacy endpoint needs no region or key.\<close>

definition endpoint_ok :: "string_util \<Rightarrow> s3_auth \<Rightarrow> bool" where
  "endpoint_ok su a \<longleftrightarrow>
     \<not> EndpointIsAWS su (endpoint a) \<or>
     endpoint a = ''s3.'' @ region a @ ''.amazonaws.com'' \<or>
     (endpoint a = ''s3.amazonaws.com'' \<and> region a = '''' \<and> access_key_id a = '''')"

lemma InitializeEndpoint_ok: "endpoint_ok su (InitializeEndpoint su a)"
  by (simp add: endpoint_ok_def InitializeEndpoint_def Let_def)

lemma InitializeEndpoint_idem:
  assumes "starts_ends_ok su"
  shows "InitializeEndpoint su (InitializeEndpoint su a) = InitializeEndpoint su a"
proof -
  have "suffix ''.amazonaws.com'' (''s3.'' @ r @ ''.amazonaws.com'')" for r
    unfolding suffix_def by (intro exI [of _ "''s3.'' @ r"]) simp
  then have "EndpointIsAWS su (''s3.'' @ r @ ''.amazonaws.com'')" for r
    using assms by (simp add: EndpointIsAWS_def starts_with_ok ends_with_ok)
  moreover have "suffix ''.amazonaws.com'' ''s3.amazonaws.com''"
    unfolding suffix_def by (intro exI [of _ "''s3''"]) simp
  then have "EndpointIsAWS su ''s3.amazonaws.com''"
    using assms by (simp add: EndpointIsAWS_def starts_with_ok ends_with_ok)
  ultimately show ?thesis by (auto simp: InitializeEndpoint_def Let_def)
qed

lemma SetRegion_ok: "endpoint_ok su (SetRegion su r a)"
  by (simp add: SetRegion_def InitializeEndpoint_ok)

lemma ReadFrom_ok: "endpoint_ok su (ReadFrom su sr path)"
  by (simp add: ReadFrom_def Let_def InitializeEndpoint_ok)


text \<open>
  A region in the URL's query leaves the endpoint behind. ReadQueryParams takes s3_region from
  the query without recomputing the endpoint: the parameters then name the query's region r with the
  AWS endpoint of the configured region.
\<close>

theorem query_region_keeps_endpoint:
  assumes "parse_get query = [(''s3_region'', r)]" and "query \<noteq> ''''"
    and "endpoint a = ''s3.'' @ region a @ ''.amazonaws.com''"
  shows "\<exists>a'. ReadQueryParams parse_get query a = Inr a' \<and> region a' = r \<and>
     endpoint a' = ''s3.'' @ region a @ ''.amazonaws.com''"
  using assms by (simp add: ReadQueryParams_def take_string_params_def GetQueryParam_def GetBoolParam_def)

theorem query_region_keeps_endpoint_witness:
  "\<exists>a'. ReadQueryParams (\<lambda>_. [(''s3_region'', ''eu-west-1'')]) ''s3_region=eu-west-1''
       (SetRegion ref_su ''us-east-1'' new_s3_auth) = Inr a' \<and> region a' = ''eu-west-1'' \<and>
     endpoint a' = ''s3.us-east-1.amazonaws.com'' \<and> \<not> endpoint_ok ref_su a'"
proof -
  let ?a = "SetRegion ref_su ''us-east-1'' new_s3_auth"
  have a: "endpoint ?a = ''s3.us-east-1.amazonaws.com''" "region ?a = ''us-east-1''"
    by (simp_all add: SetRegion_def InitializeEndpoint_def EndpointIsAWS_def new_s3_auth_def)
  then have "\<exists>a'. ReadQueryParams (\<lambda>_. [(''s3_region'', ''eu-west-1'')]) ''s3_region=eu-west-1'' ?a = Inr a' \<and>
      region a' = ''eu-west-1'' \<and> endpoint a' = ''s3.'' @ region ?a @ ''.amazonaws.com''"
    by (intro query_region_keeps_endpoint) simp_all
  then obtain a' where a': "ReadQueryParams (\<lambda>_. [(''s3_region'', ''eu-west-1'')]) ''s3_region=eu-west-1'' ?a = Inr a'"
    "region a' = ''eu-west-1''" "endpoint a' = ''s3.us-east-1.amazonaws.com''" using a(2) by auto
  moreover have "suffix ''.amazonaws.com'' ''s3.us-east-1.amazonaws.com''"
    unfolding suffix_def by (intro exI [of _ "''s3.us-east-1''"]) simp
  ultimately show ?thesis
    by (simp add: endpoint_ok_def EndpointIsAWS_def ref_su_def)
qed

section \<open>Which URLs are S3 URLs\<close>

lemma rfind_product:
  "mul64 (if p then 0 else w64 - 1) (if q then 0 else w64 - 1) = (if p \<or> q then 0 else 1)"
  "mul64 (if p then 0 else 1) (if q then 0 else w64 - 1) = (if p \<or> q then 0 else w64 - 1)"
  by (simp_all add: mul64_def)

text \<open>
  Multiplying six positions is a prefix test. CanHandleFile's product of rfind results, computed
  modulo 2^64 with misses equal to 2^64 - 1, is zero exactly for paths that start with one of the
  six S3 prefixes: the wrap-around never makes it zero.
\<close>

theorem can_handle_is_prefix_test:
  "CanHandleFile_s3 fpath \<longleftrightarrow> list_ex (\<lambda>p. prefix p fpath) s3_prefixes"
  unfolding CanHandleFile_s3_def rfind_at_start_def rfind_product s3_prefixes_def by auto

section \<open>Parsing an S3 URL\<close>

lemma first_index_skip:
  "(\<forall>x \<in> set xs. \<not> p x) \<Longrightarrow> first_index p (xs @ ys) = map_option ((+) (length xs)) (first_index p ys)"
proof (induction xs)
  case Nil
  show ?case by (cases "first_index p ys") simp_all
next
  case (Cons x xs)
  then show ?case by (cases "first_index p ys") auto
qed

lemma find_slash:
  "CHR ''/'' \<notin> set b \<Longrightarrow> find_at ''/'' (b @ CHR ''/'' # k) = Some (length b)"
  by (induction b) auto

lemma prefix_cases:
  assumes "list_ex ((=) p) s3_prefixes"
  shows "p = ''s3://'' \<or> p = ''s3a://'' \<or> p = ''s3n://'' \<or> p = ''gcs://'' \<or> p = ''gs://'' \<or> p = ''r2://''"
  using assms by (auto simp: s3_prefixes_def)

lemma TryGetPrefix_of:
  assumes "list_ex ((=) p) s3_prefixes" and "starts_ends_ok su" and "lower_ok su"
  shows "TryGetPrefix su (p @ s) = p"
  using prefix_cases [OF assms(1)] assms(2,3)
  by (elim disjE) (simp_all add: TryGetPrefix_def s3_prefixes_def starts_with_ok lower_ok_map lower_char_def)

lemma find_double_slash:
  assumes "list_ex ((=) p) s3_prefixes"
  shows "str_find (p @ s) ''//'' 0 = Some (length p - 2)"
  using prefix_cases [OF assms] by (elim disjE) (simp_all add: str_find_def)

definition with_query :: "string \<Rightarrow> string" where
  "with_query q = (if q = '''' then '''' else ''?'' @ q)"

lemma split_query_of:
  assumes "CHR ''?'' \<notin> set (pre @ key)"
  shows "split_query (pre @ key @ with_query q) (length pre) False = (key, q, pre @ key)"
proof (cases "q = ''''")
  case True
  have "find_first_of (pre @ key) ''?'' = None"
    using assms by (auto simp: find_first_of_def first_index_None)
  then show ?thesis using True by (simp add: split_query_def with_query_def)
next
  case False
  have "find_first_of ((pre @ key) @ CHR ''?'' # q) ''?'' = Some (length (pre @ key))"
    unfolding find_first_of_def by (rule first_index_append) (use assms in auto)
  then show ?thesis using False by (simp add: split_query_def with_query_def substr_def slice_def)
qed

text \<open>
  C33: S3 URLs are taken apart faithfully. For prefix, bucket, key and optional query (the bucket
  without a slash, no question mark before the query, URL compatibility mode off), S3UrlParse
  returns exactly these parts with the URL trimmed of its query; the path ends with the key, and
  GetS3BucketPath is the path without it.
\<close>

theorem s3_url_parse_parts:
  assumes "list_ex ((=) p) s3_prefixes" and "starts_ends_ok su" and "lower_ok su"
    and "bucket \<noteq> ''''" and "CHR ''/'' \<notin> set bucket" and "CHR ''?'' \<notin> set (bucket @ key)"
    and "\<not> s3_url_compatibility_mode a"
  shows "\<exists>u. S3UrlParse su (p @ bucket @ ''/'' @ key @ with_query q) a = Inr u \<and>
     u_prefix u = p \<and> u_bucket u = bucket \<and> u_key u = key \<and> u_query_param u = q \<and>
     u_trimmed u = p @ bucket @ ''/'' @ key \<and>
     (u_host u, u_path u) = (fst (host_and_path a bucket), snd (host_and_path a bucket) @ ''/'' @ key) \<and>
     GetS3BucketPath u @ key = u_path u"
proof -
  let ?url = "p @ bucket @ ''/'' @ key @ with_query q"
  have p2: "2 \<le> length p" using prefix_cases [OF assms(1)] by auto
  have "str_find (p @ (bucket @ ''/'' @ key @ with_query q)) ''//'' 0 = Some (length p - 2)"
    by (rule find_double_slash [OF assms(1)])
  then have ds: "(case str_find ?url ''//'' 0 of Some i \<Rightarrow> i + 2 | None \<Rightarrow> 1) = length p"
    using p2 by simp
  have "str_find ?url ''/'' (length p) = Some (length p + length bucket)"
    using find_slash [OF assms(5)] by (simp add: str_find_def)
  moreover have "substr ?url (length p) (length bucket) = bucket" by (simp add: substr_def slice_def)
  moreover have "CHR ''?'' \<notin> set ((p @ bucket) @ ''/'' @ key)"
    using prefix_cases [OF assms(1)] assms(6) by auto
  from split_query_of [OF this, of q]
  have "split_query ?url (length p + length bucket) False = (''/'' @ key, q, p @ bucket @ ''/'' @ key)"
    by simp
  moreover have "GetPrefix su ?url = Inr p"
    using TryGetPrefix_of [OF assms(1-3)] p2 by (auto simp: GetPrefix_def)
  moreover obtain host path where hp: "host_and_path a bucket = (host, path)" by fastforce
  ultimately show ?thesis using assms(4,7) ds
    by (simp add: S3UrlParse_def Let_def GetS3BucketPath_def)
qed

theorem s3_url_parse_parts_witness:
  "\<exists>u. S3UrlParse ref_su ''s3://bkt/d/f.csv?s3_region=x'' (SetRegion ref_su ''eu'' new_s3_auth) = Inr u \<and>
     u_bucket u = ''bkt'' \<and> u_key u = ''d/f.csv'' \<and> u_query_param u = ''s3_region=x''"
proof -
  let ?a = "SetRegion ref_su ''eu'' new_s3_auth"
  have "\<not> s3_url_compatibility_mode ?a"
    by (simp add: SetRegion_def InitializeEndpoint_def Let_def new_s3_auth_def)
  then have "\<exists>u. S3UrlParse ref_su (''s3://'' @ ''bkt'' @ ''/'' @ ''d/f.csv'' @ with_query ''s3_region=x'') ?a = Inr u \<and>
     u_prefix u = ''s3://'' \<and> u_bucket u = ''bkt'' \<and> u_key u = ''d/f.csv'' \<and> u_query_param u = ''s3_region=x'' \<and>
     u_trimmed u = ''s3://'' @ ''bkt'' @ ''/'' @ ''d/f.csv'' \<and>
     (u_host u, u_path u) = (fst (host_and_path ?a ''bkt''), snd (host_and_path ?a ''bkt'') @ ''/'' @ ''d/f.csv'') \<and>
     GetS3BucketPath u @ ''d/f.csv'' = u_path u"
    by (intro s3_url_parse_parts) (simp_all add: s3_prefixes_def)
  then show ?thesis by (auto simp: with_query_def)
qed

end
