(* ===== verification/S3Sign.thy ===== *)
theory S3Sign
  imports S3Auth "HOL-Library.Char_ord" "HOL-Library.List_Lexorder"
begin

text \<open>
  Request signing: the hash helpers of src/hash_functions.cpp and CreateS3Header of src/s3fs.cpp
  (AWS signature version 4), with the proof that the signature covers the headers the request is
  sent with. The hashes themselves are mbedtls functions, hence parameters.
\<close>

section \<open>Hashes\<close>

record crypto =
  c_sha256 :: "bytes \<Rightarrow> bytes"
  c_hmac :: "bytes \<Rightarrow> bytes \<Rightarrow> bytes"

text \<open>Both yield the 32 bytes of a hash_bytes; \<open>c_hmac secret message\<close>.\<close>

definition crypto_ok :: "crypto \<Rightarrow> bool" where
  "crypto_ok c \<longleftrightarrow> (\<forall>x. length (c_sha256 c x) = 32) \<and> (\<forall>k m. length (c_hmac c k m) = 32)"

definition hex_digits :: string where
  "hex_digits = ''0123456789abcdef''"

text \<open>hex256: two digits for each byte.\<close>

fun hex256 :: "bytes \<Rightarrow> string" where
  "hex256 [] = []"
| "hex256 (p # ps) =
     hex_digits ! (drop_bit 4 (of_char p) mod 16) # hex_digits ! (of_char p mod 16) # hex256 ps"

lemma length_hex256 [simp]: "length (hex256 bs) = 2 * length bs"
  by (induction bs rule: hex256.induct) simp_all

lemma distinct_hex_digits: "distinct hex_digits"
  by code_simp

lemma hex_digit_eq:
  "i < 16 \<Longrightarrow> j < 16 \<Longrightarrow> hex_digits ! i = hex_digits ! j \<longleftrightarrow> i = j"
  by (rule nth_eq_iff_index_eq [OF distinct_hex_digits]) (simp_all add: hex_digits_def)

lemma hex_byte_eq:
  fixes p q :: char
  assumes "hex_digits ! (drop_bit 4 (of_char p) mod 16) = hex_digits ! (drop_bit 4 (of_char q) mod 16)"
    and "hex_digits ! (of_char p mod 16) = hex_digits ! (of_char q mod 16)"
  shows "p = q"
proof -
  have hi: "(of_char c :: nat) div 16 mod 16 = of_char c div 16" for c :: char
  proof -
    have "(of_char c :: nat) < 256" by simp
    then have "(of_char c :: nat) div 16 < 16" by (simp only: less_mult_imp_div_less)
    then show ?thesis by simp
  qed
  have "(of_char p :: nat) div 16 = of_char q div 16" "(of_char p :: nat) mod 16 = of_char q mod 16"
    using assms hi [of p] hi [of q] by (simp_all add: hex_digit_eq drop_bit_eq_div)
  then have "(of_char p :: nat) = of_char q" by (metis div_mult_mod_eq)
  then show ?thesis by simp
qed

lemma hex256_inj: "hex256 xs = hex256 ys \<Longrightarrow> xs = ys"
proof (induction xs arbitrary: ys)
  case Nil
  then show ?case by (cases ys) simp_all
next
  case (Cons x xs)
  then obtain y zs where ys: "ys = y # zs" by (cases ys) simp_all
  from Cons.prems have "x = y" unfolding ys hex256.simps list.inject by (elim conjE hex_byte_eq)
  moreover from Cons.prems have "hex256 xs = hex256 zs" unfolding ys hex256.simps list.inject by blast
  ultimately show ?case using Cons.IH ys by blast
qed

definition GetPayloadHash :: "crypto \<Rightarrow> bytes \<Rightarrow> string" where
  "GetPayloadHash c buffer = (if 0 < length buffer then hex256 (c_sha256 c buffer) else '''')"

section \<open>CreateS3Header\<close>

definition EMPTY_PAYLOAD_HASH :: string where
  "EMPTY_PAYLOAD_HASH = ''e3b0c44298fc1c149afbf4c8996fb92427ae41e4649b934ca495991b7852b855''"

abbreviation (input) NL :: string where "NL \<equiv> [CHR 0x0A]"

text \<open>Whether SSE-KMS headers are sent.\<close>

definition uses_sse_kms :: "s3_auth \<Rightarrow> string \<Rightarrow> string \<Rightarrow> bool" where
  "uses_sse_kms a req_method query \<longleftrightarrow>
     kms_key_id a \<noteq> '''' \<and> (req_method = ''POST'' \<or> req_method = ''PUT'') \<and>
     str_find query ''uploadId'' 0 = None"

text \<open>The three texts built in step: the header writes, the signed header names and the request.\<close>

definition signed_header_writes ::
    "string \<Rightarrow> s3_auth \<Rightarrow> bool \<Rightarrow> string \<Rightarrow> string \<Rightarrow> string \<Rightarrow> string \<Rightarrow> headers" where
  "signed_header_writes host a sse datetime payload_hash content_type content_md5 =
     [HSet ''Host'' host, HSet ''x-amz-date'' datetime, HSet ''x-amz-content-sha256'' payload_hash] @
     (if session_token a \<noteq> '''' then [HSet ''x-amz-security-token'' (session_token a)] else []) @
     (if sse then [HSet ''x-amz-server-side-encryption'' ''aws:kms'',
                   HSet ''x-amz-server-side-encryption-aws-kms-key-id'' (kms_key_id a)] else []) @
     (if requester_pays a then [HSet ''x-amz-request-payer'' ''requester''] else []) @
     (if content_md5 \<noteq> '''' then [HSet ''content-md5'' content_md5] else []) @
     (if content_type \<noteq> '''' \<and> content_type \<noteq> ''application/octet-stream''
      then [HSet ''content-type'' content_type] else [])"

definition signed_headers_text :: "s3_auth \<Rightarrow> bool \<Rightarrow> string \<Rightarrow> string \<Rightarrow> string" where
  "signed_headers_text a sse content_type content_md5 =
     (if content_md5 \<noteq> '''' then ''content-md5;'' else '''') @
     (if content_type \<noteq> '''' then ''content-type;'' else '''') @
     ''host;x-amz-content-sha256;x-amz-date'' @
     (if requester_pays a then '';x-amz-request-payer'' else '''') @
     (if session_token a \<noteq> '''' then '';x-amz-security-token'' else '''') @
     (if sse then '';x-amz-server-side-encryption;x-amz-server-side-encryption-aws-kms-key-id'' else '''')"

definition canonical_request_text ::
    "string_util \<Rightarrow> string \<Rightarrow> string \<Rightarrow> string \<Rightarrow> string \<Rightarrow> s3_auth \<Rightarrow> bool \<Rightarrow> string \<Rightarrow> string \<Rightarrow>
     string \<Rightarrow> string \<Rightarrow> string" where
  "canonical_request_text su url query host req_method a sse datetime payload_hash content_type
       content_md5 =
     req_method @ NL @ UrlEncode su url False @ NL @ query @
     (if content_md5 \<noteq> '''' then NL @ ''content-md5:'' @ content_md5 else '''') @
     (if content_type \<noteq> '''' then NL @ ''content-type:'' @ content_type else '''') @
     NL @ ''host:'' @ host @ NL @ ''x-amz-content-sha256:'' @ payload_hash @
     NL @ ''x-amz-date:'' @ datetime @
     (if requester_pays a then NL @ ''x-amz-request-payer:requester'' else '''') @
     (if session_token a \<noteq> '''' then NL @ ''x-amz-security-token:'' @ session_token a else '''') @
     (if sse then NL @ ''x-amz-server-side-encryption:aws:kms'' @
                  NL @ ''x-amz-server-side-encryption-aws-kms-key-id:'' @ kms_key_id a else '''') @
     NL @ NL @ signed_headers_text a sse content_type content_md5 @ NL @ payload_hash"

text \<open>The chain of keys, and the signature of a string.\<close>

definition signing_key :: "crypto \<Rightarrow> s3_auth \<Rightarrow> string \<Rightarrow> string \<Rightarrow> bytes" where
  "signing_key c a date service =
     c_hmac c (c_hmac c (c_hmac c (c_hmac c (''AWS4'' @ secret_access_key a) date) (region a)) service)
       ''aws4_request''"

definition credential_scope :: "s3_auth \<Rightarrow> string \<Rightarrow> string \<Rightarrow> string" where
  "credential_scope a date service = date @ ''/'' @ region a @ ''/'' @ service @ ''/aws4_request''"

text \<open>now is the current time in the two formats, used when no time is passed.\<close>

definition CreateS3Header ::
    "string_util \<Rightarrow> crypto \<Rightarrow> string \<times> string \<Rightarrow> string \<Rightarrow> string \<Rightarrow> string \<Rightarrow> string \<Rightarrow> string \<Rightarrow>
     s3_auth \<Rightarrow> string \<Rightarrow> string \<Rightarrow> string \<Rightarrow> string \<Rightarrow> string \<Rightarrow> headers" where
  "CreateS3Header su c now url query host service req_method a date_now datetime_now payload_hash
       content_type content_md5 =
     (if secret_access_key a = '''' \<and> access_key_id a = '''' then [HSet ''Host'' host]
      else
        (let payload = (if payload_hash = '''' then EMPTY_PAYLOAD_HASH else payload_hash);
             (date, datetime) = (if datetime_now = '''' then now else (date_now, datetime_now));
             sse = uses_sse_kms a req_method query;
             writes = signed_header_writes host a sse datetime payload content_type content_md5;
             request = canonical_request_text su url query host req_method a sse datetime payload
                         content_type content_md5;
             string_to_sign = ''AWS4-HMAC-SHA256'' @ NL @ datetime @ NL @ credential_scope a date service
                                @ NL @ hex256 (c_sha256 c request)
         in writes @
            [HSet ''Authorization''
               (''AWS4-HMAC-SHA256 Credential='' @ access_key_id a @ ''/'' @ credential_scope a date service
                 @ '', SignedHeaders='' @ signed_headers_text a sse content_type content_md5
                 @ '', Signature='' @ hex256 (c_hmac c (signing_key c a date service) string_to_sign))]))"

section \<open>The signature covers the request's headers\<close>

text \<open>The headers under signature, by name and value, in the order of the canonical request.\<close>

definition signed_pairs ::
    "string \<Rightarrow> s3_auth \<Rightarrow> bool \<Rightarrow> string \<Rightarrow> string \<Rightarrow> string \<Rightarrow> string \<Rightarrow> (string \<times> string) list" where
  "signed_pairs host a sse datetime payload content_type content_md5 =
     (if content_md5 \<noteq> '''' then [(''content-md5'', content_md5)] else []) @
     (if content_type \<noteq> '''' then [(''content-type'', content_type)] else []) @
     [(''host'', host), (''x-amz-content-sha256'', payload), (''x-amz-date'', datetime)] @
     (if requester_pays a then [(''x-amz-request-payer'', ''requester'')] else []) @
     (if session_token a \<noteq> '''' then [(''x-amz-security-token'', session_token a)] else []) @
     (if sse then [(''x-amz-server-side-encryption'', ''aws:kms''),
                   (''x-amz-server-side-encryption-aws-kms-key-id'', kms_key_id a)] else [])"

fun join :: "string \<Rightarrow> string list \<Rightarrow> string" where
  "join d [] = ''''"
| "join d [x] = x"
| "join d (x # y # zs) = x @ d @ join d (y # zs)"

text \<open>The layout SigV4 prescribes for a canonical request over a list of headers.\<close>

definition sigv4_canonical :: "string \<Rightarrow> string \<Rightarrow> string \<Rightarrow> (string \<times> string) list \<Rightarrow> string \<Rightarrow> string" where
  "sigv4_canonical req_method uri query pairs payload =
     req_method @ NL @ uri @ NL @ query @ NL @ concat (map (\<lambda>(k, v). k @ '':'' @ v @ NL) pairs) @ NL @
     join '';'' (map fst pairs) @ NL @ payload"

lemma signed_headers_join:
  "signed_headers_text a sse ct md5 = join '';'' (map fst (signed_pairs host a sse dt p ct md5))"
  by (simp add: signed_headers_text_def signed_pairs_def)

lemma canonical_request_sigv4:
  "canonical_request_text su url query host m a sse dt p ct md5
     = sigv4_canonical m (UrlEncode su url False) query (signed_pairs host a sse dt p ct md5) p"
  by (simp add: canonical_request_text_def sigv4_canonical_def signed_headers_join [of a sse ct md5 host dt p])
    (simp add: signed_pairs_def)

lemma signed_pairs_sorted:
  "sorted_wrt (<) (map fst (signed_pairs host a sse dt p ct md5))"
  by (simp add: signed_pairs_def less_list_code less_char_def)

lemma in_set_if: "x \<in> set (if c then xs else []) \<longleftrightarrow> c \<and> x \<in> set xs"
  by simp

lemma signed_pairs_sent:
  assumes "(k, v) \<in> set (signed_pairs host a sse dt p ct md5)"
  shows "HSet k v \<in> set (signed_header_writes host a sse dt p ct md5) \<or>
   (k = ''host'' \<and> HSet ''Host'' v \<in> set (signed_header_writes host a sse dt p ct md5)) \<or>
   (k = ''content-type'' \<and> v = ''application/octet-stream'')"
  using assms unfolding signed_pairs_def signed_header_writes_def set_append Un_iff in_set_if
      list.set insert_iff empty_iff prod.inject
  by (elim disjE conjE; simp)


lemma sent_headers_signed:
  assumes "HSet k v \<in> set (signed_header_writes host a sse dt p ct md5)"
  shows "(k, v) \<in> set (signed_pairs host a sse dt p ct md5) \<or> (k, v) = (''Host'', host)"
  using assms unfolding signed_pairs_def signed_header_writes_def set_append Un_iff in_set_if
      list.set insert_iff empty_iff prod.inject
  by (elim disjE conjE; simp)


definition authorization_text :: "crypto \<Rightarrow> s3_auth \<Rightarrow> string \<Rightarrow> string \<Rightarrow> string \<Rightarrow>
    (string \<times> string) list \<Rightarrow> string \<Rightarrow> string" where
  "authorization_text c a date datetime service pairs request =
     ''AWS4-HMAC-SHA256 Credential='' @ access_key_id a @ ''/'' @ credential_scope a date service @
     '', SignedHeaders='' @ join '';'' (map fst pairs) @ '', Signature='' @
     hex256 (c_hmac c (signing_key c a date service)
       (''AWS4-HMAC-SHA256'' @ NL @ datetime @ NL @ credential_scope a date service @ NL @
        hex256 (c_sha256 c request)))"



text \<open>
  Payload hashes identify payloads as far as SHA-256 does. GetPayloadHash is 64 hexadecimal
  digits for a non-empty buffer, and two buffers with the same text have the same SHA-256 hash;
  only the empty buffer yields no text.
\<close>

theorem payload_hash_faithful:
  assumes "crypto_ok c"
  shows "(GetPayloadHash c x = GetPayloadHash c y \<and> x \<noteq> [] \<longrightarrow> y \<noteq> [] \<and> c_sha256 c x = c_sha256 c y) \<and>
     (x \<noteq> [] \<longrightarrow> length (GetPayloadHash c x) = 64)"
proof -
  have len: "length (hex256 (c_sha256 c z)) = 64" for z using assms by (simp add: crypto_ok_def)
  have "y \<noteq> [] \<and> c_sha256 c x = c_sha256 c y" if "GetPayloadHash c x = GetPayloadHash c y" "x \<noteq> []"
  proof
    from that len [of x] show "y \<noteq> []" by (auto simp: GetPayloadHash_def simp del: length_hex256)
    with that have "hex256 (c_sha256 c x) = hex256 (c_sha256 c y)" by (simp add: GetPayloadHash_def)
    then show "c_sha256 c x = c_sha256 c y" by (rule hex256_inj)
  qed
  moreover have "length (GetPayloadHash c x) = 64" if "x \<noteq> []"
    using that len [of x] by (simp add: GetPayloadHash_def del: length_hex256)
  ultimately show ?thesis by blast
qed

definition demo_crypto :: crypto where
  "demo_crypto = \<lparr>c_sha256 = (\<lambda>x. take 32 (x @ replicate 32 CHR 0x00)),
     c_hmac = (\<lambda>k m. take 32 (k @ m @ replicate 32 CHR 0x00))\<rparr>"

theorem payload_hash_faithful_witness:
  "GetPayloadHash demo_crypto ''a'' \<noteq> GetPayloadHash demo_crypto ''b'' \<and>
   length (GetPayloadHash demo_crypto ''a'') = 64"
proof -
  have ok: "crypto_ok demo_crypto" by (auto simp: crypto_ok_def demo_crypto_def min_def)
  have "c_sha256 demo_crypto ''a'' \<noteq> c_sha256 demo_crypto ''b''"
    by (simp add: demo_crypto_def numeral_eq_Suc)
  with payload_hash_faithful [OF ok, of "''a''" "''b''"] show ?thesis by auto
qed

end
