(* ===== verification/S3Secrets.thy ===== *)
theory S3Secrets
  imports S3Auth
begin

text \<open>
  Secrets (src/create_secret_functions.cpp, CreateSecret in src/s3fs.cpp): creating S3 and
  Hugging Face secrets from options, the input that recreates a secret, and its refresh.
\<close>

section \<open>Values, secrets and inputs\<close>

text \<open>DuckDB values as far as options use them; a MAP lists the children of its entry structs.\<close>

datatype sval = VNull | VStr string | VBool bool | VMap "sval list list" | VStruct "(string \<times> sval) list"

record kv_secret =
  sec_scope :: "string list"
  sec_type :: string
  sec_provider :: string
  sec_name :: string
  sec_map :: "string \<rightharpoonup> sval"
  sec_redact :: "string set"

text \<open>The options are a case-insensitive unordered_map, listed here in iteration order.\<close>

record secret_input =
  in_type :: string
  in_provider :: string
  in_name :: string
  in_storage :: string
  in_persist :: nat
  in_replace :: bool
  in_scope :: "string list"
  in_options :: "(string \<times> sval) list"

record secret_entry =
  se_secret :: kv_secret
  se_persist :: nat
  se_storage :: string

section \<open>CREATE SECRET for S3\<close>

definition default_scope :: "string \<Rightarrow> (string list) option" where
  "default_scope ty =
     (if ty = ''s3'' then Some [''s3://'', ''s3n://'', ''s3a://'']
      else if ty = ''r2'' then Some [''r2://'']
      else if ty = ''gcs'' then Some [''gcs://'', ''gs://'']
      else if ty = ''aws'' then Some ['''']
      else None)"

definition find_option :: "string_util \<Rightarrow> string \<Rightarrow> (string \<times> sval) list \<Rightarrow> sval option" where
  "find_option su key opts = map_option snd (find (\<lambda>(k, _). su_lower su k = key) opts)"

text \<open>vs is Value::ToString (of GetValue<string>).\<close>

definition MapToStruct :: "(sval \<Rightarrow> string) \<Rightarrow> sval \<Rightarrow> exn + sval" where
  "MapToStruct vs m =
     (case m of
        VMap children \<Rightarrow>
          (if \<forall>kv \<in> set children. length kv = 2
           then Inr (VStruct (map (\<lambda>kv. (vs (kv ! 0), kv ! 1)) children))
           else Inl (Exn ExInvalidInput ''Invalid input passed to refresh_info'' None))
      | _ \<Rightarrow> Inl (Exn ExInternal ''MapValue on another type'' None))"

definition put :: "string \<Rightarrow> sval \<Rightarrow> kv_secret \<Rightarrow> kv_secret" where
  "put k v s = s\<lparr>sec_map := (sec_map s)(k \<mapsto> v)\<rparr>"

definition put_bool :: "string \<Rightarrow> sval \<Rightarrow> bool \<times> kv_secret \<Rightarrow> exn + bool \<times> kv_secret" where
  "put_bool k v st =
     (case v of VBool b \<Rightarrow> Inr (fst st, put k (VBool b) (snd st))
      | _ \<Rightarrow> Inl (Exn ExInvalidInput ''Invalid type past to secret option'' None))"

text \<open>The keys taken over as they are, as text, and as booleans.\<close>

definition raw_keys :: "string list" where
  "raw_keys = [''key_id'', ''secret'', ''http_proxy'', ''http_proxy_password'', ''http_proxy_username'',
     ''extra_http_headers'']"

definition text_keys :: "string list" where
  "text_keys = [''region'', ''session_token'', ''endpoint'', ''url_style'', ''kms_key_id'']"

definition bool_keys :: "string list" where
  "bool_keys = [''use_ssl'', ''verify_ssl'', ''url_compatibility_mode'', ''requester_pays'']"

text \<open>One option; the state is the flag refresh and the secret. opts are all the options.\<close>

definition apply_option :: "string_util \<Rightarrow> (sval \<Rightarrow> string) \<Rightarrow> string \<Rightarrow> (string \<times> sval) list \<Rightarrow>
    string \<times> sval \<Rightarrow> bool \<times> kv_secret \<Rightarrow> exn + bool \<times> kv_secret" where
  "apply_option su vs ty opts np st =
     (let name = su_lower su (fst np); v = snd np; (refresh, s) = st
      in if name \<in> set raw_keys then Inr (refresh, put name v s)
         else if name \<in> set text_keys then Inr (refresh, put name (VStr (vs v)) s)
         else if name \<in> set bool_keys then put_bool name v st
         else if name = ''account_id'' then Inr st
         else if name = ''refresh'' then
           (if refresh then Inl (Exn ExInvalidInput ''Can not set `refresh` and `refresh_info`'' None)
            else Inr (vs v = ''auto'',
                      put ''refresh_info'' (VStruct (map (\<lambda>(k, x). (su_lower su k, x)) opts))
                        (put ''refresh'' (VStr ''auto'') s)))
         else if name = ''refresh_info'' then
           (if refresh then Inl (Exn ExInvalidInput ''Can not set `refresh` and `refresh_info`'' None)
            else (case MapToStruct vs v of
                    Inl ex \<Rightarrow> Inl ex
                  | Inr info \<Rightarrow> Inr (True, put ''refresh_info'' info s)))
         else if name = ''bearer_token'' \<and> ty = ''gcs'' then
           Inr (refresh, (put ''bearer_token'' (VStr (vs v)) s)
                           \<lparr>sec_redact := insert ''bearer_token'' (sec_redact s)\<rparr>)
         else Inl (Exn ExInvalidInput ''Unknown named parameter'' None))"

fun apply_options :: "string_util \<Rightarrow> (sval \<Rightarrow> string) \<Rightarrow> string \<Rightarrow> (string \<times> sval) list \<Rightarrow>
    (string \<times> sval) list \<Rightarrow> bool \<times> kv_secret \<Rightarrow> exn + bool \<times> kv_secret" where
  "apply_options su vs ty opts [] st = Inr st"
| "apply_options su vs ty opts (np # nps) st =
     (case apply_option su vs ty opts np st of
        Inl ex \<Rightarrow> Inl ex | Inr st' \<Rightarrow> apply_options su vs ty opts nps st')"

text \<open>The secret before its options: for r2 the account id gives endpoint and style.\<close>

definition base_secret :: "string_util \<Rightarrow> (sval \<Rightarrow> string) \<Rightarrow> secret_input \<Rightarrow> string list \<Rightarrow> kv_secret" where
  "base_secret su vs inp scope =
     (let s = \<lparr>sec_scope = scope, sec_type = in_type inp, sec_provider = in_provider inp,
               sec_name = in_name inp, sec_map = Map.empty, sec_redact = {''secret'', ''session_token''}\<rparr>
      in case (if in_type inp = ''r2'' then find_option su ''account_id'' (in_options inp) else None) of
           None \<Rightarrow> s
         | Some v \<Rightarrow> put ''url_style'' (VStr ''path'')
                       (put ''endpoint'' (VStr (vs v @ ''.r2.cloudflarestorage.com'')) s))"

definition CreateSecretFunctionInternal :: "string_util \<Rightarrow> (sval \<Rightarrow> string) \<Rightarrow> secret_input \<Rightarrow>
    exn + kv_secret" where
  "CreateSecretFunctionInternal su vs inp =
     (case (if in_scope inp = [] then default_scope (in_type inp) else Some (in_scope inp)) of
        None \<Rightarrow> Inl (Exn ExInternal ''Unknown secret type found in httpfs extension'' None)
      | Some scope \<Rightarrow>
          (case apply_options su vs (in_type inp) (in_options inp) (in_options inp)
                  (False, base_secret su vs inp scope) of
             Inl ex \<Rightarrow> Inl ex | Inr (_, s) \<Rightarrow> Inr s))"

text \<open>CreateSecret of src/s3fs.cpp: a secret from parameters.\<close>

definition CreateSecret :: "string list \<Rightarrow> string \<Rightarrow> string \<Rightarrow> string \<Rightarrow> s3_auth \<Rightarrow> kv_secret" where
  "CreateSecret prefix_paths ty provider name params =
     \<lparr>sec_scope = prefix_paths, sec_type = ty, sec_provider = provider, sec_name = name,
      sec_map = [''region'' \<mapsto> VStr (region params), ''key_id'' \<mapsto> VStr (access_key_id params),
        ''secret'' \<mapsto> VStr (secret_access_key params),
        ''session_token'' \<mapsto> VStr (session_token params), ''endpoint'' \<mapsto> VStr (endpoint params),
        ''url_style'' \<mapsto> VStr (url_style params), ''use_ssl'' \<mapsto> VBool (use_ssl params),
        ''kms_key_id'' \<mapsto> VStr (kms_key_id params),
        ''s3_url_compatibility_mode'' \<mapsto> VBool (s3_url_compatibility_mode params),
        ''requester_pays'' \<mapsto> VBool (requester_pays params),
        ''bearer_token'' \<mapsto> VStr (oauth2_bearer_token params)],
      sec_redact = (if oauth2_bearer_token params \<noteq> ''''
                    then insert ''bearer_token'' {''secret'', ''session_token''}
                    else {''secret'', ''session_token''})\<rparr>"

section \<open>Refreshing a secret\<close>

text \<open>options[key] = value on the map: replace the value of an equal key, or add it.\<close>

fun set_option :: "string_util \<Rightarrow> string \<times> sval \<Rightarrow> (string \<times> sval) list \<Rightarrow> (string \<times> sval) list" where
  "set_option su (k, v) [] = [(k, v)]"
| "set_option su (k, v) ((k', v') # kvs) =
     (if su_lower su k' = su_lower su k then (k', v) # kvs else (k', v') # set_option su (k, v) kvs)"

definition GenerateRefreshSecretInfo :: "string_util \<Rightarrow> secret_entry \<Rightarrow> (string \<times> sval) list \<Rightarrow>
    secret_input" where
  "GenerateRefreshSecretInfo su e refresh_info =
     \<lparr>in_type = sec_type (se_secret e), in_provider = sec_provider (se_secret e),
      in_name = sec_name (se_secret e), in_storage = se_storage e, in_persist = se_persist e,
      in_replace = True, in_scope = sec_scope (se_secret e),
      in_options = fold (set_option su) refresh_info []\<rparr>"

definition material_keys :: "string list" where
  "material_keys = [''key_id'', ''secret'', ''session_token'', ''region'', ''endpoint'', ''kms_key_id'',
     ''url_style'', ''use_ssl'', ''url_compatibility_mode'', ''requester_pays'', ''bearer_token'',
     ''account_id'']"

definition SecretCredentialMaterialChanged :: "kv_secret \<Rightarrow> kv_secret \<Rightarrow> bool" where
  "SecretCredentialMaterialChanged old new \<longleftrightarrow> (\<exists>k \<in> set material_keys. sec_map old k \<noteq> sec_map new k)"

text \<open>
  TryRefreshS3Secret over the secret manager: sm_create is SecretManager::CreateSecret. The result
  tells whether a refresh took place; a failing refresh throws an exception of the same type.
\<close>

definition TryRefreshS3Secret :: "string_util \<Rightarrow> ('m \<Rightarrow> secret_input \<Rightarrow> exn + kv_secret \<times> 'm) \<Rightarrow>
    secret_entry \<Rightarrow> 'm \<Rightarrow> (exn + bool) \<times> 'm" where
  "TryRefreshS3Secret su sm_create e m =
     (case sec_map (se_secret e) ''refresh_info'' of
        Some (VStruct refresh_info) \<Rightarrow>
          (case sm_create m (GenerateRefreshSecretInfo su e refresh_info) of
             Inl ex \<Rightarrow> (Inl (Exn (ex_type ex) ''Exception thrown while trying to refresh secret'' None), m)
           | Inr (_, m') \<Rightarrow> (Inr True, m'))
      | Some _ \<Rightarrow> (Inl (Exn ExInternal ''StructValue on another type'' None), m)
      | None \<Rightarrow> (Inr False, m))"

section \<open>Hugging Face tokens\<close>

definition CreateBearerSecret :: "secret_input \<Rightarrow> string \<Rightarrow> exn + kv_secret" where
  "CreateBearerSecret inp token =
     (if in_scope inp = [] \<and> in_type inp \<noteq> ''huggingface''
      then Inl (Exn ExInternal ''Unknown secret type found in httpfs extension'' None)
      else Inr \<lparr>sec_scope = (if in_scope inp = [] then [''hf://''] else in_scope inp),
                sec_type = in_type inp, sec_provider = in_provider inp, sec_name = in_name inp,
                sec_map = [''token'' \<mapsto> VStr token], sec_redact = {''token''}\<rparr>)"

definition CreateBearerSecretFromConfig :: "string_util \<Rightarrow> (sval \<Rightarrow> string) \<Rightarrow> secret_input \<Rightarrow> exn + kv_secret" where
  "CreateBearerSecretFromConfig su vs inp =
     CreateBearerSecret inp
       (fold (\<lambda>(k, v) token. if su_lower su k = ''token'' then vs v else token) (in_options inp) '''')"

text \<open>read_line opens a local file and reads its first line (Inl: it throws).\<close>

definition TryReadTokenFile :: "(string \<Rightarrow> exn + string) \<Rightarrow> string \<Rightarrow> bool \<Rightarrow> exn + string" where
  "TryReadTokenFile read_line token_path fail_on_exception =
     (case read_line token_path of
        Inr line \<Rightarrow> Inr line
      | Inl _ \<Rightarrow> if \<not> fail_on_exception then Inr ''''
                 else Inl (Exn ExIO ''Failed to read token path'' None))"

definition CreateHuggingFaceSecretFromCredentialChain ::
    "string_util \<Rightarrow> (string \<Rightarrow> string option) \<Rightarrow> (string \<Rightarrow> exn + string) \<Rightarrow> secret_input \<Rightarrow>
     exn + kv_secret" where
  "CreateHuggingFaceSecretFromCredentialChain su getenv read_line inp =
     (case getenv ''HF_TOKEN'' of
        Some token \<Rightarrow> CreateBearerSecret inp token
      | None \<Rightarrow>
          (case (case getenv ''HF_TOKEN_PATH'' of
                   Some path \<Rightarrow> TryReadTokenFile read_line path True
                 | None \<Rightarrow>
                     (case getenv ''HF_HOME'' of
                        Some home \<Rightarrow> TryReadTokenFile read_line (su_join_path su home ''token'') True
                      | None \<Rightarrow> TryReadTokenFile read_line ''~/.cache/huggingface/token'' False)) of
             Inl ex \<Rightarrow> Inl ex
           | Inr token \<Rightarrow> CreateBearerSecret inp token))"

section \<open>What the options set\<close>

lemma put_simps [simp]:
  "sec_map (put k v s) = (sec_map s)(k \<mapsto> v)" "sec_redact (put k v s) = sec_redact s"
  "sec_type (put k v s) = sec_type s" "sec_scope (put k v s) = sec_scope s"
  "sec_provider (put k v s) = sec_provider s" "sec_name (put k v s) = sec_name s"
  by (simp_all add: put_def)

lemmas option_keys = raw_keys_def text_keys_def bool_keys_def

text \<open>A step keeps what it does not name: no option writes any other key.\<close>

definition written_keys :: "string set" where
  "written_keys = set raw_keys \<union> set text_keys \<union> set bool_keys \<union>
     {''refresh'', ''refresh_info'', ''bearer_token''}"

lemma apply_option_map:
  assumes "apply_option su vs ty opts np st = Inr st'" and "k \<notin> written_keys"
  shows "sec_map (snd st') k = sec_map (snd st) k"
  using assms
  by (auto simp: apply_option_def put_bool_def written_keys_def Let_def
      split: if_splits sval.splits sum.splits prod.splits)

lemma apply_options_map:
  "apply_options su vs ty opts nps st = Inr st' \<Longrightarrow> k \<notin> written_keys \<Longrightarrow>
   sec_map (snd st') k = sec_map (snd st) k"
proof (induction nps arbitrary: st)
  case Nil
  then show ?case by simp
next
  case (Cons np nps)
  then show ?case by (auto split: sum.splits dest: apply_option_map)
qed

text \<open>An option writes its own key; only refresh writes a second one.\<close>

lemma apply_option_other:
  assumes "apply_option su vs ty opts np st = Inr st'" and "su_lower su (fst np) \<noteq> k"
    and "k \<noteq> ''refresh''" and "k \<noteq> ''refresh_info''"
  shows "sec_map (snd st') k = sec_map (snd st) k"
  using assms
  by (auto simp: apply_option_def put_bool_def Let_def split: if_splits sval.splits sum.splits prod.splits)

lemma apply_options_other:
  "apply_options su vs ty opts nps st = Inr st' \<Longrightarrow> k \<notin> set (map (su_lower su \<circ> fst) nps) \<Longrightarrow>
   k \<noteq> ''refresh'' \<Longrightarrow> k \<noteq> ''refresh_info'' \<Longrightarrow> sec_map (snd st') k = sec_map (snd st) k"
proof (induction nps arbitrary: st)
  case Nil
  then show ?case by simp
next
  case (Cons np nps)
  from Cons.prems(1) obtain st1 where 1: "apply_option su vs ty opts np st = Inr st1"
    and 2: "apply_options su vs ty opts nps st1 = Inr st'" by (auto split: sum.splits)
  show ?case using Cons.IH [OF 2] apply_option_other [OF 1, of k] Cons.prems(2-4) by auto
qed

lemma apply_options_append:
  "apply_options su vs ty opts (xs @ ys) st =
     (case apply_options su vs ty opts xs st of Inl ex \<Rightarrow> Inl ex | Inr st' \<Rightarrow> apply_options su vs ty opts ys st')"
  by (induction xs arbitrary: st) (auto split: sum.splits)

lemma text_key_written:
  assumes "apply_options su vs ty opts (pre @ (n, v) # post) st = Inr st'" and "su_lower su n = k"
    and "k \<in> set text_keys" and "k \<notin> set (map (su_lower su \<circ> fst) post)"
  shows "sec_map (snd st') k = Some (VStr (vs v))"
proof -
  from assms(1) obtain st1 st2 where
    1: "apply_option su vs ty opts (n, v) st1 = Inr st2"
    and 2: "apply_options su vs ty opts post st2 = Inr st'"
    by (auto simp: apply_options_append split: sum.splits)
  have "k \<notin> set raw_keys" "k \<noteq> ''refresh''" "k \<noteq> ''refresh_info''"
    using assms(3) by (auto simp: option_keys)
  then show ?thesis using 1 apply_options_other [OF 2 assms(4)] assms(2,3)
    by (auto simp: apply_option_def Let_def split: prod.splits)
qed

text \<open>What the reader of DuckDB sees of a secret: a secret's value comes before any setting.\<close>

definition sval_str :: "sval option \<Rightarrow> string option" where
  "sval_str v = (case v of Some (VStr s) \<Rightarrow> Some s | _ \<Rightarrow> None)"

definition sval_bool :: "sval option \<Rightarrow> bool option" where
  "sval_bool v = (case v of Some (VBool b) \<Rightarrow> Some b | _ \<Rightarrow> None)"

definition reader_of :: "kv_secret \<Rightarrow> s3_reader \<Rightarrow> s3_reader" where
  "reader_of s settings =
     \<lparr>sr_str = (\<lambda>key setting. if sec_map s key \<noteq> None then (sval_str (sec_map s key), Some SECRET)
                else sr_str settings key setting),
      sr_bool = (\<lambda>key setting. if sec_map s key \<noteq> None then (sval_bool (sec_map s key), Some SECRET)
                else sr_bool settings key setting),
      sr_secret = (\<lambda>key. sval_str (sec_map s key)), sr_use_env = sr_use_env settings\<rparr>"

lemma reader_of_simps [simp]:
  "sr_use_env (reader_of s settings) = sr_use_env settings"
  "sr_str (reader_of s settings) key setting =
     (if sec_map s key \<noteq> None then (sval_str (sec_map s key), Some SECRET) else sr_str settings key setting)"
  "sr_bool (reader_of s settings) key setting =
     (if sec_map s key \<noteq> None then (sval_bool (sec_map s key), Some SECRET) else sr_bool settings key setting)"
  by (simp_all add: reader_of_def)

lemma get_str_secret: "sec_map s key = Some (VStr v) \<Longrightarrow> get_str (reader_of s settings) key setting old = v"
  by (simp add: get_str_def pick_def sval_str_def)

lemma InitializeEndpoint_keeps:
  "access_key_id (InitializeEndpoint su a) = access_key_id a"
  "secret_access_key (InitializeEndpoint su a) = secret_access_key a"
  "session_token (InitializeEndpoint su a) = session_token a"
  "s3_url_compatibility_mode (InitializeEndpoint su a) = s3_url_compatibility_mode a"
  "region a \<noteq> '''' \<Longrightarrow> region (InitializeEndpoint su a) = region a"
  by (simp_all add: InitializeEndpoint_def Let_def)

lemma gcs_defaults_keeps:
  "region (gcs_defaults sr a) = region a" "access_key_id (gcs_defaults sr a) = access_key_id a"
  "session_token (gcs_defaults sr a) = session_token a"
  "s3_url_compatibility_mode (gcs_defaults sr a) = s3_url_compatibility_mode a"
  by (simp_all add: gcs_defaults_def Let_def set_if_def split: option.splits)

lemma ReadFrom_keeps:
  "s3_url_compatibility_mode (ReadFrom su sr path) =
     get_bool sr ''s3_url_compatibility_mode'' ''s3_url_compatibility_mode'' False"
  "session_token (ReadFrom su sr path) = get_str sr ''session_token'' ''s3_session_token'' ''''"
  "get_str sr ''region'' ''s3_region'' '''' \<noteq> '''' \<Longrightarrow>
     region (ReadFrom su sr path) = get_str sr ''region'' ''s3_region'' ''''"
  by (simp_all add: ReadFrom_def Let_def InitializeEndpoint_keeps gcs_defaults_keeps)


definition demo_vs :: "sval \<Rightarrow> string" where
  "demo_vs v = (case v of VStr s \<Rightarrow> s | VBool b \<Rightarrow> (if b then ''true'' else ''false'') | _ \<Rightarrow> '''')"

definition demo_input :: "(string \<times> sval) list \<Rightarrow> secret_input" where
  "demo_input opts = \<lparr>in_type = ''s3'', in_provider = ''config'', in_name = ''s'', in_storage = ''memory'',
     in_persist = 0, in_replace = False, in_scope = [], in_options = opts\<rparr>"

definition demo_settings :: s3_reader where
  "demo_settings = \<lparr>sr_str = (\<lambda>_ _. (Some ''global'', Some GLOBAL)), sr_bool = (\<lambda>_ _. (None, None)),
     sr_secret = (\<lambda>_. None), sr_use_env = True\<rparr>"

lemmas demo_secret_defs = demo_input_def CreateSecretFunctionInternal_def default_scope_def base_secret_def
  apply_option_def Let_def option_keys put_def put_bool_def demo_vs_def

lemma demo_lower:
  "su_lower ref_su ''REGION'' = ''region''"
  "su_lower ref_su ''session_token'' = ''session_token''"
  "su_lower ref_su ''url_compatibility_mode'' = ''url_compatibility_mode''"
  "su_lower ref_su ''refresh'' = ''refresh''" "su_lower ref_su ''key_id'' = ''key_id''"
  by code_simp+


text \<open>
  The url_compatibility_mode of a secret is never used. Whatever options CREATE SECRET takes,
  the secret has no value under the key s3_url_compatibility_mode that ReadFrom asks for, so the
  parameters take the mode from the settings alone.
\<close>

theorem compatibility_option_ignored:
  assumes "CreateSecretFunctionInternal su vs inp = Inr s"
  shows "sec_map s ''s3_url_compatibility_mode'' = None \<and>
     s3_url_compatibility_mode (ReadFrom su (reader_of s settings) path) =
       get_bool settings ''s3_url_compatibility_mode'' ''s3_url_compatibility_mode'' False"
proof -
  from assms obtain scope st' where st': "apply_options su vs (in_type inp) (in_options inp)
      (in_options inp) (False, base_secret su vs inp scope) = Inr st'" "s = snd st'"
    by (auto simp: CreateSecretFunctionInternal_def split: option.splits sum.splits)
  have "sec_map s ''s3_url_compatibility_mode'' = sec_map (base_secret su vs inp scope) ''s3_url_compatibility_mode''"
    using apply_options_map [OF st'(1)] st'(2) by (simp add: written_keys_def option_keys)
  then have none: "sec_map s ''s3_url_compatibility_mode'' = None"
    by (simp add: base_secret_def Let_def split: option.splits)
  then show ?thesis by (simp add: ReadFrom_keeps get_bool_def pick_def split: option.splits prod.splits)
qed

theorem compatibility_option_ignored_witness:
  "\<exists>s. CreateSecretFunctionInternal ref_su demo_vs
       (demo_input [(''url_compatibility_mode'', VBool True)]) = Inr s \<and>
     sec_map s ''url_compatibility_mode'' = Some (VBool True) \<and>
     \<not> s3_url_compatibility_mode (ReadFrom ref_su (reader_of s demo_settings) ''s3://b/k'')"
proof -
  let ?inp = "demo_input [(''url_compatibility_mode'', VBool True)]"
  obtain s where s: "CreateSecretFunctionInternal ref_su demo_vs ?inp = Inr s"
    "sec_map s ''url_compatibility_mode'' = Some (VBool True)"
    by (simp add: demo_secret_defs demo_lower)
  with compatibility_option_ignored [OF s(1), of demo_settings "''s3://b/k''"] show ?thesis
    by (auto simp: demo_settings_def get_bool_def pick_def)
qed

section \<open>Refresh\<close>

text \<open>refresh_info is always a struct.\<close>

definition info_ok :: "kv_secret \<Rightarrow> bool" where
  "info_ok s \<longleftrightarrow> (\<forall>v. sec_map s ''refresh_info'' = Some v \<longrightarrow> (\<exists>kvs. v = VStruct kvs))"

lemma MapToStruct_struct: "MapToStruct vs m = Inr v \<Longrightarrow> \<exists>kvs. v = VStruct kvs"
  by (auto simp: MapToStruct_def split: sval.splits if_splits)

lemma apply_option_info:
  assumes "apply_option su vs ty opts np st = Inr st'" and "info_ok (snd st)"
  shows "info_ok (snd st')"
proof (cases "su_lower su (fst np) \<in> set raw_keys \<union> set text_keys \<union> set bool_keys")
  case True
  then have "su_lower su (fst np) \<noteq> ''refresh_info''" "su_lower su (fst np) \<noteq> ''refresh''"
    by (auto simp: option_keys)
  with True assms show ?thesis
    by (auto simp: apply_option_def put_bool_def info_ok_def Let_def
        split: if_splits sval.splits sum.splits prod.splits)
next
  case False
  with assms show ?thesis
    by (auto simp: apply_option_def info_ok_def Let_def dest: MapToStruct_struct
        split: if_splits sum.splits prod.splits)
qed

lemma apply_option_keeps_refresh:
  assumes "apply_option su vs ty opts np st = Inr st'"
    and "sec_map (snd st) ''refresh'' = Some (VStr ''auto'') \<and> sec_map (snd st) ''refresh_info'' \<noteq> None"
  shows "sec_map (snd st') ''refresh'' = Some (VStr ''auto'') \<and> sec_map (snd st') ''refresh_info'' \<noteq> None"
proof (cases "su_lower su (fst np) \<in> set raw_keys \<union> set text_keys \<union> set bool_keys")
  case True
  then have "su_lower su (fst np) \<noteq> ''refresh_info''" "su_lower su (fst np) \<noteq> ''refresh''"
    by (auto simp: option_keys)
  with True assms show ?thesis
    by (auto simp: apply_option_def put_bool_def Let_def
        split: if_splits sval.splits sum.splits prod.splits)
next
  case False
  with assms show ?thesis
    by (auto simp: apply_option_def Let_def split: if_splits sum.splits prod.splits)
qed

lemma apply_options_refresh:
  "apply_options su vs ty opts nps st = Inr st' \<Longrightarrow> info_ok (snd st) \<Longrightarrow>
   info_ok (snd st') \<and>
   ((\<exists>np \<in> set nps. su_lower su (fst np) = ''refresh'') \<or>
    sec_map (snd st) ''refresh'' = Some (VStr ''auto'') \<and> sec_map (snd st) ''refresh_info'' \<noteq> None \<longrightarrow>
    sec_map (snd st') ''refresh'' = Some (VStr ''auto'') \<and> sec_map (snd st') ''refresh_info'' \<noteq> None)"
proof (induction nps arbitrary: st)
  case Nil
  then show ?case by auto
next
  case (Cons np nps)
  from Cons.prems(1) obtain st1 where 1: "apply_option su vs ty opts np st = Inr st1"
    and 2: "apply_options su vs ty opts nps st1 = Inr st'" by (auto split: sum.splits)
  have "sec_map (snd st1) ''refresh'' = Some (VStr ''auto'') \<and> sec_map (snd st1) ''refresh_info'' \<noteq> None"
    if "su_lower su (fst np) = ''refresh''"
    using 1 that by (auto simp: apply_option_def option_keys Let_def split: if_splits prod.splits)
  with Cons.IH [OF 2 apply_option_info [OF 1 Cons.prems(2)]] apply_option_keeps_refresh [OF 1]
  show ?case by auto
qed

text \<open>
  Any value of the option refresh switches the refresh on. A secret created with the option
  refresh, whatever its value, is stored with refresh = auto and a refresh_info, and refreshing it
  calls the secret manager to recreate it.
\<close>

theorem any_refresh_value_enables:
  assumes "CreateSecretFunctionInternal su vs inp = Inr s"
    and "(n, v) \<in> set (in_options inp)" and "su_lower su n = ''refresh''"
  shows "sec_map s ''refresh'' = Some (VStr ''auto'') \<and>
     TryRefreshS3Secret su (\<lambda>m _. Inr (s', Suc m)) \<lparr>se_secret = s, se_persist = p, se_storage = sto\<rparr> m
       = (Inr True, Suc m)"
proof -
  from assms obtain scope st' where st': "apply_options su vs (in_type inp) (in_options inp)
      (in_options inp) (False, base_secret su vs inp scope) = Inr st'" "s = snd st'"
    by (auto simp: CreateSecretFunctionInternal_def split: option.splits sum.splits)
  have "info_ok (snd (False, base_secret su vs inp scope))"
    by (simp add: info_ok_def base_secret_def Let_def split: option.splits)
  moreover have "\<exists>np \<in> set (in_options inp). su_lower su (fst np) = ''refresh''"
    using assms(2,3) by force
  moreover note apply_options_refresh [OF st'(1)]
  ultimately
  have "info_ok s" "sec_map s ''refresh'' = Some (VStr ''auto'')" "sec_map s ''refresh_info'' \<noteq> None"
    unfolding st'(2) by auto
  then show ?thesis by (auto simp: TryRefreshS3Secret_def info_ok_def)
qed

theorem any_refresh_value_enables_witness:
  "\<exists>s. CreateSecretFunctionInternal ref_su demo_vs
       (demo_input [(''refresh'', VStr ''disabled'')]) = Inr s \<and>
     TryRefreshS3Secret ref_su (\<lambda>m _. Inr (s, Suc m))
       \<lparr>se_secret = s, se_persist = 0, se_storage = ''memory''\<rparr> 0 = (Inr True, Suc 0)"
proof -
  let ?inp = "demo_input [(''refresh'', VStr ''disabled'')]"
  obtain s where s: "CreateSecretFunctionInternal ref_su demo_vs ?inp = Inr s"
    by (simp add: demo_secret_defs demo_lower)
  have "TryRefreshS3Secret ref_su (\<lambda>m _. Inr (s, Suc m))
       \<lparr>se_secret = s, se_persist = 0, se_storage = ''memory''\<rparr> 0 = (Inr True, Suc 0)"
    using any_refresh_value_enables [OF s, of "''refresh''" "VStr ''disabled''"]
    by (auto simp: demo_input_def demo_lower)
  with s show ?thesis by blast
qed

text \<open>A refresh of a secret with stored options creates the same secret again.\<close>

abbreviation (input) lowered :: "string_util \<Rightarrow> (string \<times> sval) list \<Rightarrow> (string \<times> sval) list" where
  "lowered su opts \<equiv> map (\<lambda>(k, v). (su_lower su k, v)) opts"

definition lower_idem :: "string_util \<Rightarrow> bool" where
  "lower_idem su \<longleftrightarrow> (\<forall>x. su_lower su (su_lower su x) = su_lower su x)"

lemma lowered_twice [simp]: "lower_idem su \<Longrightarrow> lowered su (lowered su opts) = lowered su opts"
  by (auto simp: lower_idem_def)

lemma apply_option_lowered:
  assumes "lower_idem su"
  shows "apply_option su vs ty (lowered su opts) (su_lower su k, v) st = apply_option su vs ty opts (k, v) st"
proof -
  have "su_lower su (su_lower su k) = su_lower su k" using assms by (simp add: lower_idem_def)
  then show ?thesis by (simp only: apply_option_def fst_conv snd_conv lowered_twice [OF assms])
qed

lemma apply_options_lowered:
  "lower_idem su \<Longrightarrow>
   apply_options su vs ty (lowered su opts) (lowered su nps) st = apply_options su vs ty opts nps st"
proof (induction nps arbitrary: st)
  case Nil
  then show ?case by simp
next
  case (Cons np nps)
  then show ?case by (cases np) (simp add: apply_option_lowered split: sum.split)
qed

lemma set_option_fresh:
  "su_lower su k \<notin> set (map (su_lower su \<circ> fst) kvs) \<Longrightarrow> set_option su (k, v) kvs = kvs @ [(k, v)]"
  by (induction kvs) auto

lemma fold_set_option:
  "distinct (map (su_lower su \<circ> fst) (acc @ kvs)) \<Longrightarrow> fold (set_option su) kvs acc = acc @ kvs"
proof (induction kvs arbitrary: acc)
  case Nil
  then show ?case by simp
next
  case (Cons kv kvs)
  obtain k v where kv: "kv = (k, v)" by (cases kv)
  from Cons.prems kv have "set_option su kv acc = acc @ [kv]"
    by (simp add: set_option_fresh)
  then show ?case using Cons.IH [of "acc @ [kv]"] Cons.prems by simp
qed

lemma find_option_lowered:
  "lower_idem su \<Longrightarrow> find_option su key (lowered su opts) = find_option su key opts"
  by (induction opts) (auto simp: find_option_def lower_idem_def)

lemma apply_options_type:
  "apply_options su vs ty opts nps st = Inr st' \<Longrightarrow>
   sec_type (snd st') = sec_type (snd st) \<and> sec_scope (snd st') = sec_scope (snd st) \<and>
   sec_provider (snd st') = sec_provider (snd st) \<and> sec_name (snd st') = sec_name (snd st)"
proof (induction nps arbitrary: st)
  case Nil
  then show ?case by simp
next
  case (Cons np nps)
  from Cons.prems obtain st1 where 1: "apply_option su vs ty opts np st = Inr st1"
    and 2: "apply_options su vs ty opts nps st1 = Inr st'" by (auto split: sum.splits)
  have "sec_type (snd st1) = sec_type (snd st) \<and> sec_scope (snd st1) = sec_scope (snd st) \<and>
     sec_provider (snd st1) = sec_provider (snd st) \<and> sec_name (snd st1) = sec_name (snd st)"
    using 1 by (auto simp: apply_option_def put_bool_def Let_def
        split: if_splits sval.splits sum.splits prod.splits)
  with Cons.IH [OF 2] show ?case by simp
qed

lemma base_secret_fields [simp]:
  "sec_type (base_secret su vs inp scope) = in_type inp"
  "sec_scope (base_secret su vs inp scope) = scope"
  "sec_provider (base_secret su vs inp scope) = in_provider inp"
  "sec_name (base_secret su vs inp scope) = in_name inp"
  by (simp_all add: base_secret_def Let_def split: option.splits)

lemma default_scope_nonempty: "default_scope ty = Some scope \<Longrightarrow> scope \<noteq> []"
  by (auto simp: default_scope_def split: if_splits)

lemma recreate_same:
  assumes created: "CreateSecretFunctionInternal su vs inp = Inr s"
    and distinct: "distinct (map (su_lower su \<circ> fst) (in_options inp))" and idem: "lower_idem su"
  shows "CreateSecretFunctionInternal su vs (GenerateRefreshSecretInfo su
      \<lparr>se_secret = s, se_persist = p, se_storage = sto\<rparr> (lowered su (in_options inp))) = Inr s"
proof -
  let ?opts = "in_options inp"
  from created obtain scope refresh where scope: "(if in_scope inp = [] then default_scope (in_type inp)
        else Some (in_scope inp)) = Some scope"
    and st': "apply_options su vs (in_type inp) ?opts ?opts (False, base_secret su vs inp scope)
        = Inr (refresh, s)"
    by (auto simp: CreateSecretFunctionInternal_def split: option.splits sum.splits)
  have sec: "sec_type s = in_type inp" "sec_scope s = scope" "sec_provider s = in_provider inp"
    "sec_name s = in_name inp"
    using apply_options_type [OF st'] by simp_all
  have "scope \<noteq> []" using scope default_scope_nonempty by (auto split: if_splits)
  let ?inp = "GenerateRefreshSecretInfo su \<lparr>se_secret = s, se_persist = p, se_storage = sto\<rparr> (lowered su ?opts)"
  have opts: "in_options ?inp = lowered su ?opts"
  proof -
    have "map (su_lower su \<circ> fst) ([] @ lowered su ?opts) = map (su_lower su \<circ> fst) ?opts"
      using idem by (auto simp: lower_idem_def)
    then have "distinct (map (su_lower su \<circ> fst) ([] @ lowered su ?opts))" using distinct by metis
    from fold_set_option [OF this] show ?thesis by (simp add: GenerateRefreshSecretInfo_def)
  qed
  have inp: "in_type ?inp = in_type inp" "in_scope ?inp = scope" "in_provider ?inp = in_provider inp"
    "in_name ?inp = in_name inp"
    by (simp_all add: GenerateRefreshSecretInfo_def sec)
  have base: "base_secret su vs ?inp scope = base_secret su vs inp scope"
    using find_option_lowered [OF idem] by (simp add: base_secret_def inp opts)
  show ?thesis using \<open>scope \<noteq> []\<close> st' apply_options_lowered [OF idem]
    by (simp add: CreateSecretFunctionInternal_def inp base opts)
qed

lemma refresh_info_stored:
  assumes "apply_options su vs ty opts nps st = Inr st'"
    and "''refresh_info'' \<notin> set (map (su_lower su \<circ> fst) nps)"
    and "''refresh'' \<in> set (map (su_lower su \<circ> fst) nps) \<or>
      sec_map (snd st) ''refresh_info'' = Some (VStruct (lowered su opts))"
  shows "sec_map (snd st') ''refresh_info'' = Some (VStruct (lowered su opts))"
  using assms
proof (induction nps arbitrary: st)
  case Nil
  then show ?case by simp
next
  case (Cons np nps)
  from Cons.prems(1) obtain st1 where 1: "apply_option su vs ty opts np st = Inr st1"
    and 2: "apply_options su vs ty opts nps st1 = Inr st'" by (auto split: sum.splits)
  have "sec_map (snd st1) ''refresh_info'' = (if su_lower su (fst np) = ''refresh''
      then Some (VStruct (lowered su opts)) else sec_map (snd st) ''refresh_info'')"
    using 1 Cons.prems(2)
    by (auto simp: apply_option_def put_bool_def option_keys Let_def
        split: if_splits sval.splits sum.splits prod.splits)
  with Cons.IH [OF 2] Cons.prems(2,3) show ?case by auto
qed



end
