(* ===== verification/S3Retry.thy ===== *)
theory S3Retry
  imports S3Sign S3Secrets HttpServer
begin

text \<open>
  S3 requests with one-shot credential refresh and region redirect (src/s3fs.cpp): the refreshable
  parameters, reloading and refreshing credentials, the data of a request, the errors, and the retry
  loop RunS3RequestWithAuthRefresh with the contract of its arguments.
\<close>

section \<open>The environment of S3\<close>

text \<open>
  sv_reader and sv_params read secrets and settings (KeyValueSecretReader and
  InitializeParameters) as the secret manager stands (w_secrets) for a path; sv_lookup and
  sv_create are the secret manager; sv_wait is what other threads did to the secrets while this
  one waited for the refresh lock.
\<close>

record s3_env =
  sv_env :: env
  sv_su :: string_util
  sv_vs :: "sval \<Rightarrow> string"
  sv_crypto :: crypto
  sv_now :: "nat \<Rightarrow> string \<times> string"
  sv_parse_get :: "string \<Rightarrow> (string \<times> string) list"
  sv_base :: http_params
  sv_status_message :: "nat \<Rightarrow> string"
  sv_reader :: "nat \<Rightarrow> string \<Rightarrow> s3_reader option"
  sv_params :: "nat \<Rightarrow> string \<Rightarrow> httpfs_params"
  sv_lookup :: "nat \<Rightarrow> string \<Rightarrow> string \<Rightarrow> secret_entry option"
  sv_create :: "nat \<Rightarrow> secret_input \<Rightarrow> exn + kv_secret \<times> nat"
  sv_wait :: "nat \<Rightarrow> nat"

section \<open>Which failures call for a refresh or another region\<close>

text \<open>
  An HTTPException keeps its response's status, body and headers as extra info; other exceptions
  have none.
\<close>

definition IsAuthRefreshFailure :: "response \<Rightarrow> bool" where
  "IsAuthRefreshFailure r \<longleftrightarrow>
     (if status r = Unauthorized_401 \<or> status r = Forbidden_403 then True
      else if status r \<noteq> BadRequest_400 then False
      else TryGetS3ErrorCode (body r) = Some ''ExpiredToken'')"

definition IsAuthRefreshFailure_exn :: "exn \<Rightarrow> bool" where
  "IsAuthRefreshFailure_exn ex \<longleftrightarrow>
     (case ex_resp ex of
        None \<Rightarrow> False
      | Some r \<Rightarrow>
          (if to_string (status r) = ''401'' \<or> to_string (status r) = ''403'' then True
           else if to_string (status r) \<noteq> ''400'' then False
           else TryGetS3ErrorCode (body r) = Some ''ExpiredToken''))"

definition GetRegionRedirect :: "response \<Rightarrow> s3_auth \<Rightarrow> string option" where
  "GetRegionRedirect r a =
     (if status r \<noteq> MovedPermanently_301 \<and> status r \<noteq> BadRequest_400 then None
      else if \<not> has_header r ''x-amz-bucket-region'' then None
      else
        (let response_region = header_value r ''x-amz-bucket-region''
         in if response_region = '''' \<or> response_region = region a then None else Some response_region))"

definition GetRegionRedirect_exn :: "exn \<Rightarrow> s3_auth \<Rightarrow> string option" where
  "GetRegionRedirect_exn ex a =
     (case ex_resp ex of
        None \<Rightarrow> None
      | Some r \<Rightarrow>
          (if to_string (status r) \<noteq> ''301'' \<and> to_string (status r) \<noteq> ''400'' then None
           else (case hdrs r ''x-amz-bucket-region'' of
                   None \<Rightarrow> None
                 | Some new_region \<Rightarrow>
                     (if new_region = '''' \<or> new_region = region a then None else Some new_region))))"

lemma status_texts:
  "to_string 400 = ''400''" "to_string 401 = ''401''" "to_string 403 = ''403''" "to_string 301 = ''301''"
  by code_simp+

lemma exn_like_response:
  "ex_resp ex = Some r \<Longrightarrow> IsAuthRefreshFailure_exn ex = IsAuthRefreshFailure r \<and>
     GetRegionRedirect_exn ex a = GetRegionRedirect r a"
  unfolding IsAuthRefreshFailure_exn_def IsAuthRefreshFailure_def GetRegionRedirect_exn_def
    GetRegionRedirect_def status_texts [symmetric] to_string_inj
  by (simp add: has_header_def header_value_def split: option.splits)

section \<open>Comparing and refreshing parameters\<close>

definition S3AuthParamsMatch :: "s3_auth \<Rightarrow> s3_auth \<Rightarrow> bool" where
  "S3AuthParamsMatch l r \<longleftrightarrow>
     region l = region r \<and> access_key_id l = access_key_id r \<and>
     secret_access_key l = secret_access_key r \<and> session_token l = session_token r \<and>
     endpoint l = endpoint r \<and> kms_key_id l = kms_key_id r \<and> url_style l = url_style r \<and>
     use_ssl l = use_ssl r \<and> s3_url_compatibility_mode l = s3_url_compatibility_mode r \<and>
     requester_pays l = requester_pays r \<and> oauth2_bearer_token l = oauth2_bearer_token r"

lemma S3AuthParamsMatch_iff: "S3AuthParamsMatch l r \<longleftrightarrow> l = r"
  by (cases l, cases r) (simp add: S3AuthParamsMatch_def)

record s3_refreshable =
  rf_http_proxy :: string
  rf_http_proxy_port :: nat
  rf_http_proxy_username :: string
  rf_http_proxy_password :: string
  rf_extra_headers :: "(string \<times> string) list"
  rf_override_verify_ssl :: bool
  rf_verify_ssl :: bool
  rf_bearer_token :: string

definition SnapshotRefreshableHTTPParams :: "httpfs_params \<Rightarrow> s3_refreshable" where
  "SnapshotRefreshableHTTPParams p =
     \<lparr>rf_http_proxy = http_proxy p,
      rf_http_proxy_port = (if http_proxy p = '''' then 0 else http_proxy_port p),
      rf_http_proxy_username = http_proxy_username p, rf_http_proxy_password = http_proxy_password p,
      rf_extra_headers = extra_headers p, rf_override_verify_ssl = override_verify_ssl p,
      rf_verify_ssl = verify_ssl p, rf_bearer_token = bearer_token p\<rparr>"

definition ApplyRefreshableHTTPParams :: "httpfs_params \<Rightarrow> s3_refreshable \<Rightarrow> httpfs_params" where
  "ApplyRefreshableHTTPParams p src =
     p\<lparr>http_proxy := rf_http_proxy src,
       http_proxy_port := (if rf_http_proxy src = '''' then 0 else rf_http_proxy_port src),
       http_proxy_username := rf_http_proxy_username src,
       http_proxy_password := rf_http_proxy_password src,
       extra_headers := rf_extra_headers src, override_verify_ssl := rf_override_verify_ssl src,
       verify_ssl := rf_verify_ssl src, bearer_token := rf_bearer_token src,
       pre_merged_headers := False\<rparr>"

text \<open>Equality of unordered_maps ignores the order.\<close>

definition S3RefreshableHTTPParamsMatch :: "s3_refreshable \<Rightarrow> s3_refreshable \<Rightarrow> bool" where
  "S3RefreshableHTTPParamsMatch l r \<longleftrightarrow>
     rf_http_proxy l = rf_http_proxy r \<and> rf_http_proxy_port l = rf_http_proxy_port r \<and>
     rf_http_proxy_username l = rf_http_proxy_username r \<and>
     rf_http_proxy_password l = rf_http_proxy_password r \<and>
     set (rf_extra_headers l) = set (rf_extra_headers r) \<and>
     rf_override_verify_ssl l = rf_override_verify_ssl r \<and> rf_verify_ssl l = rf_verify_ssl r \<and>
     rf_bearer_token l = rf_bearer_token r"

text \<open>Applying a snapshot and taking it again gives the same values.\<close>

lemma snapshot_apply:
  "rf_http_proxy s = '''' \<longrightarrow> rf_http_proxy_port s = 0 \<Longrightarrow>
   SnapshotRefreshableHTTPParams (ApplyRefreshableHTTPParams p s) = s"
  by (cases s) (simp add: SnapshotRefreshableHTTPParams_def ApplyRefreshableHTTPParams_def)

lemma snapshot_snapshot:
  "rf_http_proxy (SnapshotRefreshableHTTPParams p) = '''' \<longrightarrow>
   rf_http_proxy_port (SnapshotRefreshableHTTPParams p) = 0"
  by (simp add: SnapshotRefreshableHTTPParams_def)

definition ReadRefreshableHTTPParams :: "s3_env \<Rightarrow> nat \<Rightarrow> string \<Rightarrow> s3_refreshable" where
  "ReadRefreshableHTTPParams e m path = SnapshotRefreshableHTTPParams (sv_params e m path)"

definition secret_types :: "string list" where
  "secret_types = [''s3'', ''r2'', ''gcs'', ''aws'']"

text \<open>Refresh every secret that matches the path; an exception stops the loop.\<close>

fun refresh_secrets :: "s3_env \<Rightarrow> string \<Rightarrow> string list \<Rightarrow> bool \<Rightarrow> nat \<Rightarrow> (exn + bool) \<times> nat" where
  "refresh_secrets e path [] done_one m = (Inr done_one, m)"
| "refresh_secrets e path (ty # tys) done_one m =
     (case sv_lookup e m path ty of
        None \<Rightarrow> refresh_secrets e path tys done_one m
      | Some entry \<Rightarrow>
          (case TryRefreshS3Secret (sv_su e) (sv_create e) entry m of
             (Inl ex, m') \<Rightarrow> (Inl ex, m')
           | (Inr b, m') \<Rightarrow> refresh_secrets e path tys (done_one \<or> b) m'))"

definition TryRefreshS3SecretForPath :: "s3_env \<Rightarrow> string \<Rightarrow> nat \<Rightarrow> (exn + bool) \<times> nat" where
  "TryRefreshS3SecretForPath e path m = refresh_secrets e path secret_types False m"

definition IsS3CredentialRefreshEnabled :: "opener option \<Rightarrow> bool" where
  "IsS3CredentialRefreshEnabled opn =
     (case opn of
        None \<Rightarrow> True
      | Some op \<Rightarrow> (case op_bool op ''httpfs_enable_credential_refresh'' of Some b \<Rightarrow> b | None \<Rightarrow> True))"

text \<open>The material in use: authentication parameters, HTTP parameters and the client cache, if any.\<close>

type_synonym material = "s3_auth \<times> httpfs_params \<times> client_cache option"

definition ReloadS3AuthMaterial :: "s3_env \<Rightarrow> nat \<Rightarrow> bool \<Rightarrow> string \<Rightarrow> s3_auth \<Rightarrow> s3_refreshable \<Rightarrow>
    bool \<Rightarrow> material \<Rightarrow> exn + bool \<times> material" where
  "ReloadS3AuthMaterial e m has_opener path request_auth request_http preserve_region mat =
     (if \<not> has_opener then Inr (False, mat)
      else
        (case mat of (a, p, cc) \<Rightarrow>
           (case ReadS3AuthParams (sv_su e) (sv_parse_get e) (sv_reader e m) path of
              Inl ex \<Rightarrow> Inl ex
            | Inr re0 \<Rightarrow>
                (let re = (if preserve_region \<and> region a \<noteq> '''' \<and> region re0 \<noteq> region a
                           then SetRegion (sv_su e) (region a) re0 else re0);
                     rp = ReadRefreshableHTTPParams e m path
                 in if S3AuthParamsMatch re request_auth \<and> S3RefreshableHTTPParamsMatch rp request_http
                    then Inr (False, mat)
                    else Inr (True, re, ApplyRefreshableHTTPParams p rp, map_option ClearClients cc)))))"

definition TryRefreshS3AuthMaterial :: "s3_env \<Rightarrow> bool \<Rightarrow> bool \<Rightarrow> string \<Rightarrow> s3_auth \<Rightarrow> s3_refreshable \<Rightarrow>
    bool \<Rightarrow> bool \<Rightarrow> material \<Rightarrow> nat \<Rightarrow> (exn + bool \<times> material) \<times> nat" where
  "TryRefreshS3AuthMaterial e has_context has_opener path request_auth request_http refresh_enabled
       preserve_region mat m =
     (let reload = (\<lambda>m. ReloadS3AuthMaterial e m has_opener path request_auth request_http
                          preserve_region mat)
      in if \<not> refresh_enabled then (Inr (False, mat), m)
         else if \<not> S3AuthParamsMatch (fst mat) request_auth \<or>
                 \<not> S3RefreshableHTTPParamsMatch (SnapshotRefreshableHTTPParams (fst (snd mat))) request_http
         then (Inr (True, mat), m)
         else if \<not> has_context then (Inr (False, mat), m)
         else (case reload m of
             Inl ex \<Rightarrow> (Inl ex, m)
           | Inr (True, mat') \<Rightarrow> (Inr (True, mat'), m)
           | Inr (False, _) \<Rightarrow>
               (let m1 = sv_wait e m
                in case reload m1 of
                     Inl ex \<Rightarrow> (Inl ex, m1)
                   | Inr (True, mat') \<Rightarrow> (Inr (True, mat'), m1)
                   | Inr (False, _) \<Rightarrow>
                       (case TryRefreshS3SecretForPath e path m1 of
                          (Inl ex, m2) \<Rightarrow> (Inl ex, m2)
                        | (Inr False, m2) \<Rightarrow> (Inr (False, mat), m2)
                        | (Inr True, m2) \<Rightarrow> (reload m2, m2)))))"

section \<open>A refresh yields something new to try\<close>

lemma ReloadS3AuthMaterial_new:
  assumes "ReloadS3AuthMaterial e m opn path ra rh keep (a, p, cc) = Inr (True, a', p', cc')"
  shows "\<not> (S3AuthParamsMatch a' ra \<and> S3RefreshableHTTPParamsMatch (SnapshotRefreshableHTTPParams p') rh) \<and>
     cc' = map_option ClearClients cc \<and> (keep \<and> region a \<noteq> '''' \<longrightarrow> region a' = region a)"
proof -
  let ?rp = "ReadRefreshableHTTPParams e m path"
  have snap: "SnapshotRefreshableHTTPParams (ApplyRefreshableHTTPParams p ?rp) = ?rp"
    unfolding ReadRefreshableHTTPParams_def by (rule snapshot_apply [OF snapshot_snapshot])
  have keeps: "region (SetRegion su r x) = r" if "r \<noteq> ''''" for su r x
    using that by (simp add: SetRegion_def InitializeEndpoint_def Let_def)
  from assms snap show ?thesis
    by (auto simp: ReloadS3AuthMaterial_def Let_def keeps split: if_splits sum.splits)
qed

text \<open>
  C15: A retry never repeats the same request. When TryRefreshS3AuthMaterial reports success, the
  material then in use differs from the material the failed request was built from; it is either
  the material already installed meanwhile, or reloaded material with a cleared client cache, and
  after a region redirect reloading keeps the redirected region.
\<close>

theorem refresh_yields_new_material:
  assumes "TryRefreshS3AuthMaterial e ctx opn path ra rh enabled keep (a, p, cc) m
     = (Inr (True, a', p', cc'), m')"
  shows "enabled \<and>
     \<not> (S3AuthParamsMatch a' ra \<and> S3RefreshableHTTPParamsMatch (SnapshotRefreshableHTTPParams p') rh) \<and>
     ((a', p', cc') = (a, p, cc) \<or> cc' = map_option ClearClients cc) \<and>
     (keep \<and> region a \<noteq> '''' \<longrightarrow> region a' = region a)"
  using assms
  by (auto simp: TryRefreshS3AuthMaterial_def Let_def dest!: ReloadS3AuthMaterial_new
      split: if_splits sum.splits prod.splits bool.splits)

section \<open>The data of one request\<close>

definition AddS3HTTPHeaders :: "httpfs_params \<Rightarrow> headers \<Rightarrow> httpfs_params \<times> headers" where
  "AddS3HTTPHeaders p hm =
     (p\<lparr>pre_merged_headers := True\<rparr>,
      (if user_agent p \<noteq> '''' then hm @ [HInsert ''User-Agent'' (user_agent p)] else hm)
        @ map (\<lambda>(k, v). HSet k v) (extra_headers p))"

record s3_request =
  rd_auth_params :: s3_auth
  rd_refreshable :: s3_refreshable
  rd_http_params :: httpfs_params
  rd_source_url :: string
  rd_http_url :: string
  rd_headers :: headers
  rd_etag :: string
  rd_auto_fallback :: bool

definition CreateS3RequestData :: "s3_env \<Rightarrow> nat \<Rightarrow> s3_auth \<Rightarrow> httpfs_params \<Rightarrow> string \<Rightarrow> string \<Rightarrow>
    string \<Rightarrow> string \<Rightarrow> string \<Rightarrow> string \<Rightarrow> exn + s3_request" where
  "CreateS3RequestData e k a p s3_url req_method query payload_hash content_type content_md5 =
     (let p1 = Clone (sv_base e) p
      in case S3UrlParse (sv_su e) s3_url a of
           Inl ex \<Rightarrow> Inl ex
         | Inr u \<Rightarrow>
             (let hm = (if is_gcs_path (sv_su e) s3_url \<and> oauth2_bearer_token a \<noteq> ''''
                        then [HSet ''Authorization'' (''Bearer '' @ oauth2_bearer_token a),
                              HSet ''Host'' (u_host u)] @
                             (if content_type \<noteq> '''' then [HSet ''Content-Type'' content_type] else [])
                        else CreateS3Header (sv_su e) (sv_crypto e) (sv_now e k) (u_path u) query
                               (u_host u) ''s3'' req_method a '''' '''' payload_hash content_type content_md5);
                  (p2, hm2) = AddS3HTTPHeaders p1 hm
              in Inr \<lparr>rd_auth_params = a, rd_refreshable = SnapshotRefreshableHTTPParams p1,
                      rd_http_params = p2, rd_source_url = s3_url,
                      rd_http_url = GetHTTPUrl (sv_su e) u query, rd_headers = hm2,
                      rd_etag = '''', rd_auto_fallback = False\<rparr>))"

section \<open>Error texts\<close>

abbreviation (input) QUOTE :: string where "QUOTE \<equiv> [CHR 0x22]"

definition GetS3BadRequestError :: "s3_auth \<Rightarrow> string \<Rightarrow> string" where
  "GetS3BadRequestError a correct_region =
     NL @ NL @ ''Bad Request - this can be caused by the S3 region being set incorrectly.'' @
     (if region a = '''' then NL @ ''* No region is provided.''
      else NL @ ''* Provided region is: '' @ QUOTE @ region a @ QUOTE) @
     (if correct_region \<noteq> '''' then NL @ ''* Correct region is: '' @ QUOTE @ correct_region @ QUOTE else '''')"

definition GetS3AuthError :: "s3_auth \<Rightarrow> string" where
  "GetS3AuthError a =
     NL @ NL @ ''Authentication Failure - this is usually caused by invalid or missing credentials.'' @
     (if secret_access_key a = '''' \<and> access_key_id a = '''' then NL @ ''* No credentials are provided.''
      else NL @ ''* Credentials are provided, but they did not work.'') @
     NL @ ''* See https://duckdb.org/docs/stable/extensions/httpfs/s3api.html''"

definition GetGCSAuthError :: "s3_auth \<Rightarrow> string" where
  "GetGCSAuthError a =
     NL @ NL @ ''Authentication Failure - GCS authentication failed.'' @
     (if oauth2_bearer_token a = '''' \<and> secret_access_key a = '''' \<and> access_key_id a = ''''
      then NL @ ''* No credentials provided.'' @
           NL @ ''* For OAuth2: CREATE SECRET (TYPE GCS, bearer_token 'your-token')'' @
           NL @ ''* For HMAC: CREATE SECRET (TYPE GCS, key_id 'key', secret 'secret')''
      else if oauth2_bearer_token a \<noteq> ''''
      then NL @ ''* Bearer token was provided but authentication failed.'' @
           NL @ ''* Ensure your OAuth2 token is valid and not expired.''
      else NL @ ''* HMAC credentials were provided but authentication failed.'' @
           NL @ ''* Ensure your HMAC key_id and secret are correct.'')"

definition GetS3Error :: "s3_env \<Rightarrow> s3_auth \<Rightarrow> response \<Rightarrow> string \<Rightarrow> exn" where
  "GetS3Error e a r url =
     (let extra_text = ParseS3Error (body r) @
            (if status r = BadRequest_400 then GetS3BadRequestError a '''' else '''') @
            (if status r = Forbidden_403 then GetS3AuthError a else '''')
      in Exn ExHTTP (''HTTP GET error reading '' @ url @ '' in region '' @ region a @ '' (HTTP '' @
           to_string (status r) @ '' '' @ sv_status_message e (status r) @ '')'' @ extra_text) (Some r))"

definition GCSError :: "s3_env \<Rightarrow> s3_auth \<Rightarrow> response \<Rightarrow> string \<Rightarrow> exn" where
  "GCSError e a r url =
     Exn ExHTTP (''HTTP error on '' @ url @ '' (HTTP '' @ to_string (status r) @ '' '' @
       sv_status_message e (status r) @ '')'' @ GetGCSAuthError a) (Some r)"

definition GetS3RequestError :: "s3_env \<Rightarrow> s3_request \<Rightarrow> response \<Rightarrow> exn" where
  "GetS3RequestError e rd r =
     (if is_gcs_path (sv_su e) (rd_source_url rd) \<and> status r = Forbidden_403
      then GCSError e (rd_auth_params rd) r (rd_http_url rd)
      else GetS3Error e (rd_auth_params rd) r (rd_http_url rd))"

section \<open>The retry loop\<close>

text \<open>
  RunS3RequestWithAuthRefreshInternal over its four function arguments, on a state they share. A
  turn ends in Again (continue, with the two one-shot flags) or Stop. An exception thrown inside
  the try block, by the request or by the refresh after an answer, reaches the handler; one thrown
  in the handler, or when the request data is made, leaves the function.
\<close>

record 's retry_ops =
  ro_create :: "'s \<Rightarrow> exn + s3_request"
  ro_request :: "s3_request \<Rightarrow> 's \<Rightarrow> (exn + response option) \<times> 's"
  ro_refresh :: "s3_auth \<Rightarrow> s3_refreshable \<Rightarrow> 's \<Rightarrow> (exn + bool) \<times> 's"
  ro_set_region :: "string \<Rightarrow> 's \<Rightarrow> 's"

datatype 's turn = Again bool bool (turn_state: 's) | Stop "exn + response option" (turn_state: 's)

definition handler_region :: "'s retry_ops \<Rightarrow> s3_request \<Rightarrow> exn \<Rightarrow> bool \<Rightarrow> bool \<Rightarrow> 's \<Rightarrow> 's turn" where
  "handler_region ops rd ex ra rr s =
     (case (if rr then None else GetRegionRedirect_exn ex (rd_auth_params rd)) of
        Some correct_region \<Rightarrow> Again ra True (ro_set_region ops correct_region s)
      | None \<Rightarrow> Stop (Inl ex) s)"

definition on_exception :: "'s retry_ops \<Rightarrow> s3_request \<Rightarrow> exn \<Rightarrow> bool \<Rightarrow> bool \<Rightarrow> 's \<Rightarrow> 's turn" where
  "on_exception ops rd ex ra rr s =
     (if \<not> ra \<and> IsAuthRefreshFailure_exn ex then
        (case ro_refresh ops (rd_auth_params rd) (rd_refreshable rd) s of
           (Inl ex2, s2) \<Rightarrow> Stop (Inl ex2) s2
         | (Inr True, s2) \<Rightarrow> Again True rr s2
         | (Inr False, s2) \<Rightarrow> handler_region ops rd ex ra rr s2)
      else handler_region ops rd ex ra rr s)"

definition answer_region :: "'s retry_ops \<Rightarrow> s3_request \<Rightarrow> response \<Rightarrow> bool \<Rightarrow> bool \<Rightarrow> 's \<Rightarrow> 's turn" where
  "answer_region ops rd r ra rr s =
     (case (if rr then None else GetRegionRedirect r (rd_auth_params rd)) of
        Some correct_region \<Rightarrow> Again ra True (ro_set_region ops correct_region s)
      | None \<Rightarrow> Stop (Inr (Some r)) s)"

definition on_answer :: "'s retry_ops \<Rightarrow> s3_request \<Rightarrow> response \<Rightarrow> bool \<Rightarrow> bool \<Rightarrow> 's \<Rightarrow> 's turn" where
  "on_answer ops rd r ra rr s =
     (if \<not> ra \<and> IsAuthRefreshFailure r then
        (case ro_refresh ops (rd_auth_params rd) (rd_refreshable rd) s of
           (Inl ex2, s2) \<Rightarrow> on_exception ops rd ex2 ra rr s2
         | (Inr True, s2) \<Rightarrow> Again True rr s2
         | (Inr False, s2) \<Rightarrow> answer_region ops rd r ra rr s2)
      else answer_region ops rd r ra rr s)"

definition retry_turn :: "'s retry_ops \<Rightarrow> bool \<Rightarrow> bool \<Rightarrow> 's \<Rightarrow> 's turn" where
  "retry_turn ops ra rr s =
     (case ro_create ops s of
        Inl ex \<Rightarrow> Stop (Inl ex) s
      | Inr rd \<Rightarrow>
          (case ro_request ops rd s of
             (Inl ex, s1) \<Rightarrow> on_exception ops rd ex ra rr s1
           | (Inr None, s1) \<Rightarrow> Stop (Inr None) s1
           | (Inr (Some r), s1) \<Rightarrow> on_answer ops rd r ra rr s1))"

text \<open>Every further turn sets one of the flags.\<close>

definition flags_left :: "bool \<Rightarrow> bool \<Rightarrow> nat" where
  "flags_left ra rr = (if ra then 0 else 1) + (if rr then 0 else 1)"

lemmas turn_defs = retry_turn_def on_answer_def on_exception_def answer_region_def handler_region_def

lemma retry_turn_flags:
  "retry_turn ops ra rr s = Again ra' rr' s' \<Longrightarrow> flags_left ra' rr' < flags_left ra rr"
  by (auto simp: turn_defs flags_left_def
      split: sum.splits prod.splits option.splits bool.splits if_splits)

function RunS3RequestWithAuthRefresh :: "'s retry_ops \<Rightarrow> bool \<Rightarrow> bool \<Rightarrow> 's \<Rightarrow>
    (exn + response option) \<times> 's" where
  "RunS3RequestWithAuthRefresh ops ra rr s =
     (case retry_turn ops ra rr s of
        Stop res s' \<Rightarrow> (res, s')
      | Again ra' rr' s' \<Rightarrow> RunS3RequestWithAuthRefresh ops ra' rr' s')"
  by pat_completeness auto
termination
  by (relation "measure (\<lambda>(ops, ra, rr, s). flags_left ra rr)") (auto dest: retry_turn_flags)

declare RunS3RequestWithAuthRefresh.simps [simp del]

text \<open>
  The contract of the four arguments: a request counts as one, the others send nothing, and all of
  them keep an invariant of the state.
\<close>

locale retry_protocol =
  fixes ops :: "'s retry_ops" and sent :: "'s \<Rightarrow> nat" and inv :: "'s \<Rightarrow> bool"
  assumes request_counts: "inv s \<Longrightarrow> ro_request ops rd s = (res, s1) \<Longrightarrow> sent s1 = Suc (sent s) \<and> inv s1"
    and refresh_silent: "inv s \<Longrightarrow> ro_refresh ops a rf s = (b, s1) \<Longrightarrow> sent s1 = sent s \<and> inv s1"
    and region_silent: "inv s \<Longrightarrow> sent (ro_set_region ops r s) = sent s \<and> inv (ro_set_region ops r s)"
begin

abbreviation (input) silent :: "'s \<Rightarrow> 's turn \<Rightarrow> bool" where
  "silent s t \<equiv> sent (turn_state t) = sent s \<and> inv (turn_state t)"

lemma handler_region_sent: "inv s \<Longrightarrow> silent s (handler_region ops rd ex ra rr s)"
  using region_silent by (auto simp: handler_region_def split: option.split)

lemma answer_region_sent: "inv s \<Longrightarrow> silent s (answer_region ops rd r ra rr s)"
  using region_silent by (auto simp: answer_region_def split: option.split)

lemma on_exception_sent:
  assumes "inv s"
  shows "silent s (on_exception ops rd ex ra rr s)"
proof -
  obtain b s2 where b: "ro_refresh ops (rd_auth_params rd) (rd_refreshable rd) s = (b, s2)" by fastforce
  have s2: "sent s2 = sent s" "inv s2" using refresh_silent [OF assms b] by simp_all
  show ?thesis
    using handler_region_sent [OF assms, of rd ex ra rr] handler_region_sent [OF s2(2), of rd ex False rr] s2 b
    by (simp add: on_exception_def split: sum.split bool.split)
qed

lemma on_answer_sent:
  assumes "inv s"
  shows "silent s (on_answer ops rd r ra rr s)"
proof -
  obtain b s2 where b: "ro_refresh ops (rd_auth_params rd) (rd_refreshable rd) s = (b, s2)" by fastforce
  have s2: "sent s2 = sent s" "inv s2" using refresh_silent [OF assms b] by simp_all
  show ?thesis
    using answer_region_sent [OF assms, of rd r ra rr] answer_region_sent [OF s2(2), of rd r False rr]
      on_exception_sent [OF s2(2), of rd _ False rr] s2 b
    by (simp add: on_answer_def split: sum.split bool.split)
qed

lemma retry_turn_sent:
  assumes "inv s"
  shows "sent (turn_state (retry_turn ops ra rr s)) \<le> Suc (sent s) \<and> inv (turn_state (retry_turn ops ra rr s))"
proof (cases "ro_create ops s")
  case (Inl ex)
  then show ?thesis using assms by (simp add: retry_turn_def)
next
  case (Inr rd)
  obtain res s1 where q: "ro_request ops rd s = (res, s1)" by fastforce
  from request_counts [OF assms q] have s1: "sent s1 = Suc (sent s)" "inv s1" by simp_all
  show ?thesis
    using on_exception_sent [OF s1(2), of rd _ ra rr] on_answer_sent [OF s1(2), of rd _ ra rr] Inr q s1
    by (simp add: retry_turn_def split: sum.split option.split)
qed

lemma bounded:
  "inv s \<Longrightarrow> RunS3RequestWithAuthRefresh ops ra rr s = (res, s1) \<Longrightarrow>
   sent s1 \<le> sent s + 1 + flags_left ra rr \<and> inv s1"
proof (induction "flags_left ra rr" arbitrary: ra rr s rule: less_induct)
  case less
  note turn = retry_turn_sent [OF less.prems(1), of ra rr]
  show ?case
  proof (cases "retry_turn ops ra rr s")
    case (Stop r s2)
    with turn less.prems(2) show ?thesis
      by (auto simp: RunS3RequestWithAuthRefresh.simps [of ops ra rr s])
  next
    case (Again ra2 rr2 s2)
    with turn have s2: "sent s2 \<le> Suc (sent s)" "inv s2" by auto
    have run: "RunS3RequestWithAuthRefresh ops ra2 rr2 s2 = (res, s1)"
      using less.prems(2) Again by (simp add: RunS3RequestWithAuthRefresh.simps [of ops ra rr s])
    have fl: "flags_left ra2 rr2 < flags_left ra rr" by (rule retry_turn_flags [OF Again])
    from less.hyps [OF fl s2(2) run] s2(1) fl show ?thesis by simp
  qed
qed

end

section \<open>A concrete environment\<close>

text \<open>
  Credentials that change: the key of version m of the secret manager is the text of m; settings and the network are the ones of the concrete server, and the secret manager moves to
  the next version when it recreates a secret.
\<close>

definition demo_reader :: "nat \<Rightarrow> s3_reader" where
  "demo_reader m =
     \<lparr>sr_str = (\<lambda>key setting.
        if key = ''key_id'' then (Some (to_string m), Some SECRET)
        else if key = ''secret'' then (Some ''SK'', Some SECRET)
        else if key = ''region'' then (Some ''eu'', Some SECRET) else (None, None)),
      sr_bool = (\<lambda>_ _. (None, None)), sr_secret = (\<lambda>_. None), sr_use_env = True\<rparr>"

definition demo_entry :: secret_entry where
  "demo_entry = \<lparr>se_secret = \<lparr>sec_scope = [''s3://''], sec_type = ''s3'', sec_provider = ''chain'',
       sec_name = ''s'', sec_map = [''refresh_info'' \<mapsto> VStruct []], sec_redact = {}\<rparr>,
     se_persist = 0, se_storage = ''memory''\<rparr>"

definition demo_s3 :: "env \<Rightarrow> s3_env" where
  "demo_s3 net =
     \<lparr>sv_env = net, sv_su = ref_su, sv_vs = demo_vs, sv_crypto = demo_crypto,
      sv_now = (\<lambda>_. (''20240101'', ''20240101T000000Z'')), sv_parse_get = (\<lambda>_. []),
      sv_base = demo_base, sv_status_message = (\<lambda>_. ''status''),
      sv_reader = (\<lambda>m _. Some (demo_reader m)), sv_params = (\<lambda>_ _. demo_params),
      sv_lookup = (\<lambda>_ _ ty. if ty = ''s3'' then Some demo_entry else None),
      sv_create = (\<lambda>m _. Inr (se_secret demo_entry, Suc m)), sv_wait = (\<lambda>m. m)\<rparr>"

definition demo_auth :: "nat \<Rightarrow> s3_auth" where
  "demo_auth m = new_s3_auth\<lparr>region := ''eu'', access_key_id := to_string m, secret_access_key := ''SK'',
     endpoint := ''s3.eu.amazonaws.com''\<rparr>"

lemma demo_ReadFrom: "ReadFrom ref_su (demo_reader m) ''s3://b/k'' = demo_auth m"
  by (simp add: ReadFrom_def Let_def get_str_def get_bool_def pick_def demo_reader_def is_gcs_path_def
      ref_su_def InitializeEndpoint_def EndpointIsAWS_def new_s3_auth_def demo_auth_def)

lemma demo_auth_key: "access_key_id (demo_auth m) = to_string m"
  by (simp add: demo_auth_def)

lemma demo_parse:
  "S3UrlParse ref_su ''s3://b/k'' (demo_auth m) = Inr \<lparr>u_http_proto = ''https://'', u_prefix = ''s3://'',
     u_host = ''b.s3.eu.amazonaws.com'', u_bucket = ''b'', u_key = ''k'', u_path = ''/k'',
     u_query_param = '''', u_trimmed = ''s3://b/k''\<rparr>"
proof -
  have "map lower_char ''s3://b/k'' = ''s3://b/k''" by code_simp
  then have "GetPrefix ref_su ''s3://b/k'' = Inr ''s3://''"
    by (simp add: GetPrefix_def TryGetPrefix_def s3_prefixes_def ref_su_def Let_def)
  moreover have "str_find ''s3://b/k'' ''//'' 0 = Some 3" "str_find ''s3://b/k'' ''/'' 5 = Some 6"
    "substr ''s3://b/k'' 5 1 = ''b''" "split_query ''s3://b/k'' 6 False = (''/k'', '''', ''s3://b/k'')"
    by code_simp+
  moreover have "find_first_of ''s3.eu.amazonaws.com'' ''/'' = None" by code_simp
  then have "host_and_path (demo_auth m) ''b'' = (''b.s3.eu.amazonaws.com'', '''')"
    by (simp add: host_and_path_def demo_auth_def new_s3_auth_def)
  moreover have "use_ssl (demo_auth m)" "\<not> s3_url_compatibility_mode (demo_auth m)"
    by (simp_all add: demo_auth_def new_s3_auth_def)
  ultimately show ?thesis by (simp add: S3UrlParse_def Let_def)
qed

lemma demo_ReadS3AuthParams:
  "ReadS3AuthParams ref_su pg (\<lambda>_. Some (demo_reader m)) ''s3://b/k'' = Inr (demo_auth m)"
  by (simp add: ReadS3AuthParams_def ReadFromOpener_def demo_ReadFrom ReadQueryParams_def demo_parse)

text \<open>With the stale credentials 0 in use and version 0 in the manager, a refresh yields version 1.\<close>

lemma demo_refresh_exact:
  "TryRefreshS3AuthMaterial (demo_s3 net) True True ''s3://b/k'' (demo_auth 0)
     (SnapshotRefreshableHTTPParams demo_params) True False (demo_auth 0, demo_params, cc) 0
       = (Inr (True, demo_auth 1, ApplyRefreshableHTTPParams demo_params
            (SnapshotRefreshableHTTPParams demo_params), map_option ClearClients cc), 1)"
proof -
  have ne: "demo_auth 0 \<noteq> demo_auth 1" by (metis demo_auth_key to_string_inj zero_neq_one)
  then show ?thesis
    by (simp add: TryRefreshS3AuthMaterial_def ReloadS3AuthMaterial_def demo_s3_def Let_def
        demo_ReadS3AuthParams S3AuthParamsMatch_iff ReadRefreshableHTTPParams_def
        S3RefreshableHTTPParamsMatch_def TryRefreshS3SecretForPath_def secret_types_def
        TryRefreshS3Secret_def demo_entry_def GenerateRefreshSecretInfo_def)
qed

theorem refresh_yields_new_material_witness:
  "\<exists>a' p' cc'. TryRefreshS3AuthMaterial (demo_s3 (demo_env [] [])) True True ''s3://b/k'' (demo_auth 0)
     (SnapshotRefreshableHTTPParams demo_params) True False (demo_auth 0, demo_params, None) 0
       = (Inr (True, a', p', cc'), 1) \<and>
     \<not> (S3AuthParamsMatch a' (demo_auth 0) \<and> S3RefreshableHTTPParamsMatch
         (SnapshotRefreshableHTTPParams p') (SnapshotRefreshableHTTPParams demo_params))"
proof -
  obtain p' cc' where r: "TryRefreshS3AuthMaterial (demo_s3 (demo_env [] [])) True True ''s3://b/k'' (demo_auth 0)
     (SnapshotRefreshableHTTPParams demo_params) True False (demo_auth 0, demo_params, None) 0
       = (Inr (True, demo_auth 1, p', cc'), 1)"
    using demo_refresh_exact by blast
  from refresh_yields_new_material [OF r] r show ?thesis by blast
qed

end
