(* ===== verification/S3Handle.thy ===== *)
theory S3Handle
  imports S3Retry
begin

text \<open>
  S3FileHandle and the requests of S3FileSystem on it (src/s3fs.cpp): the constructor, the metadata
  cache entry, the refresh of its credentials, HEAD, GET, range and DELETE over the retry loop, the
  proof that one operation sends at most three requests, and the region redirect.
\<close>

section \<open>The S3 handle and its requests\<close>

text \<open>
  S3FileHandle: its auth_params and http_params are references into the S3HTTPInput it shares with
  the upload; the refresh flags exist in both, si_ are the input's.
\<close>

record s3h = hfh +
  sh_auth :: s3_auth
  sh_config :: s3_config
  sh_context :: bool
  sh_region_redirected :: bool
  sh_refresh_enabled :: bool
  si_context :: bool
  si_region_redirected :: bool
  si_refresh_enabled :: bool

definition sh_SetRegion :: "string_util \<Rightarrow> string \<Rightarrow> 'a s3h_scheme \<Rightarrow> 'a s3h_scheme" where
  "sh_SetRegion su r h =
     h\<lparr>sh_auth := SetRegion su r (sh_auth h), sh_region_redirected := True,
       h_clients := ClearClients (h_clients h)\<rparr>"

text \<open>The constructor, without the multipart upload it makes for writing.\<close>

definition new_s3_handle :: "string_util \<Rightarrow> file_info \<Rightarrow> open_flags \<Rightarrow> httpfs_params \<Rightarrow> s3_auth \<Rightarrow>
    s3_config \<Rightarrow> exn + s3h" where
  "new_s3_handle su file fl p a cfg =
     (let h = hfh.extend ((new_handle file fl p)\<lparr>h_auto_fallback := False\<rparr>)
                (s3h.fields a cfg False False True False False True)
      in if of_read fl \<and> of_write fl then
           Inl (Exn ExNotImplemented ''Cannot open an HTTP file for both reading and writing'' None)
         else if of_append fl then
           Inl (Exn ExNotImplemented ''Cannot open an HTTP file for appending'' None)
         else Inr (case fi_ext file of
                     None \<Rightarrow> h
                   | Some info \<Rightarrow> set_if (xi_s3_region info) (sh_SetRegion su) h))"

text \<open>S3FileSystem::CreateHandle, over the secrets and settings of the opener.\<close>

definition CreateHandle_s3 :: "s3_env \<Rightarrow> nat \<Rightarrow> s3_config \<Rightarrow> file_info \<Rightarrow> open_flags \<Rightarrow> exn + s3h" where
  "CreateHandle_s3 e m cfg file fl =
     (let a = ReadFromOpener (sv_su e) (sv_reader e m (fi_path file)) (fi_path file)
      in case S3UrlParse (sv_su e) (fi_path file) a of
           Inl ex \<Rightarrow> Inl ex
         | Inr u \<Rightarrow>
             (case ReadQueryParams (sv_parse_get e) (u_query_param u) a of
                Inl ex \<Rightarrow> Inl ex
              | Inr a1 \<Rightarrow> new_s3_handle (sv_su e) file fl (sv_params e m (fi_path file)) a1 cfg))"

text \<open>Metadata cache entries carry the region.\<close>

definition sh_InitializeFromCacheEntry :: "string_util \<Rightarrow> md_entry \<Rightarrow> 'a s3h_scheme \<Rightarrow> 'a s3h_scheme" where
  "sh_InitializeFromCacheEntry su ce h =
     (let h1 = InitializeFromCacheEntry ce h
      in case md_properties ce ''s3_region'' of None \<Rightarrow> h1 | Some r \<Rightarrow> sh_SetRegion su r h1)"

definition sh_GetCacheEntry :: "'a s3h_scheme \<Rightarrow> md_entry" where
  "sh_GetCacheEntry h =
     (let ce = GetCacheEntry h
      in if region (sh_auth h) \<noteq> ''''
         then ce\<lparr>md_properties := (md_properties ce)(''s3_region'' \<mapsto> region (sh_auth h))\<rparr> else ce)"

text \<open>TryRefreshAuthParams of the handle: the context and the opener come and go together.\<close>

definition sh_TryRefreshAuthParams :: "s3_env \<Rightarrow> s3_auth \<Rightarrow> s3_refreshable \<Rightarrow>
    'a s3h_scheme \<times> world \<Rightarrow> (exn + bool) \<times> 'a s3h_scheme \<times> world" where
  "sh_TryRefreshAuthParams e ra rh s =
     (let h = fst s; w = snd s
      in case TryRefreshS3AuthMaterial e (sh_context h) (sh_context h) (h_path h) ra rh
               (sh_refresh_enabled h) (sh_region_redirected h)
               (sh_auth h, h_params h, Some (h_clients h)) (w_secrets w) of
           (Inl ex, m) \<Rightarrow> (Inl ex, h, w\<lparr>w_secrets := m\<rparr>)
         | (Inr (b, a, p, cc), m) \<Rightarrow>
             (Inr b, h\<lparr>sh_auth := a, h_params := p,
                       h_clients := (case cc of Some c \<Rightarrow> c | None \<Rightarrow> h_clients h)\<rparr>,
              w\<lparr>w_secrets := m\<rparr>))"

definition CreateS3HandleRequestData :: "s3_env \<Rightarrow> string \<Rightarrow> string \<Rightarrow> bool \<Rightarrow>
    'a s3h_scheme \<times> world \<Rightarrow> exn + s3_request" where
  "CreateS3HandleRequestData e s3_url req_method use_version_id s =
     (let h = fst s;
          query = (if use_version_id \<and> h_version_id h \<noteq> ''''
                   then ''versionId='' @ UrlEncode (sv_su e) (h_version_id h) True else '''')
      in case CreateS3RequestData e (w_clock (snd s)) (sh_auth h) (Clone (sv_base e) (h_params h))
               s3_url req_method query '''' '''' '''' of
           Inl ex \<Rightarrow> Inl ex
         | Inr rd \<Rightarrow> Inr (rd\<lparr>rd_etag := h_etag h, rd_auto_fallback := h_auto_fallback h\<rparr>))"

definition handle_ops :: "s3_env \<Rightarrow> string \<Rightarrow> string \<Rightarrow> bool \<Rightarrow>
    (s3_request \<Rightarrow> 'a s3h_scheme \<times> world \<Rightarrow> (exn + response option) \<times> 'a s3h_scheme \<times> world) \<Rightarrow>
    ('a s3h_scheme \<times> world) retry_ops" where
  "handle_ops e s3_url req_method use_version_id request =
     \<lparr>ro_create = CreateS3HandleRequestData e s3_url req_method use_version_id,
      ro_request = request,
      ro_refresh = sh_TryRefreshAuthParams e,
      ro_set_region = (\<lambda>r (h, w). (sh_SetRegion (sv_su e) r h, w))\<rparr>"

text \<open>Check a client out for a request and keep what the request leaves of it.\<close>

definition check_out :: "'a hfh_scheme \<Rightarrow> client_entry \<times> 'a hfh_scheme" where
  "check_out h = (case GetClientWithGeneration (h_clients h) of (en, cc) \<Rightarrow> (en, h\<lparr>h_clients := cc\<rparr>))"

definition check_in :: "client_entry \<Rightarrow> client option \<Rightarrow> 'a hfh_scheme \<Rightarrow> 'a hfh_scheme" where
  "check_in en cl h = h\<lparr>h_clients := snd (FinishS3HandleRequest en cl (h_clients h))\<rparr>"

text \<open>The requests themselves: HEAD and DELETE, the full download, and a range into a buffer.\<close>

definition send_plain :: "s3_env \<Rightarrow> rq_method \<Rightarrow> s3_request \<Rightarrow> 'a s3h_scheme \<times> world \<Rightarrow>
    (exn + response option) \<times> 'a s3h_scheme \<times> world" where
  "send_plain e m rd s =
     (let (en, h1) = check_out (fst s); w = snd s;
          run = (if m = HEAD then RunHeadRequest else RunDeleteRequest);
          tr = run (rd_http_url rd) (rd_headers rd) (rd_http_params rd)
                 (\<lambda>rq. e_net (sv_env e) (w_clock w) rq (ce_client en))
      in case plain_outcome tr of
           Inl ex \<Rightarrow> (Inl ex, h1, tick w)
         | Inr r \<Rightarrow> (Inr r, check_in en (client_after tr) h1, tick w))"

definition send_get :: "s3_env \<Rightarrow> s3_request \<Rightarrow> 'a s3h_scheme \<times> world \<Rightarrow>
    (exn + response option) \<times> 'a s3h_scheme \<times> world" where
  "send_get e rd s =
     (let (en, h1) = check_out (fst s); w = snd s
      in case RunGetRequest (sv_env e) (rd_http_url rd) (rd_headers rd) (rd_http_params rd)
                (\<lambda>r w. (GetS3RequestError e rd r, w))
                (\<lambda>rq. e_net (sv_env e) (w_clock w) rq (ce_client en)) (h1, tick w) of
           (res, h2, w2, cl) \<Rightarrow> (res, check_in en cl h2, w2))"

text \<open>The range request also carries the destination buffer through the retries.\<close>

definition send_range :: "s3_env \<Rightarrow> nat \<Rightarrow> nat \<Rightarrow> s3_request \<Rightarrow> bytes option \<times> 'a s3h_scheme \<times> world \<Rightarrow>
    (exn + response option) \<times> bytes option \<times> 'a s3h_scheme \<times> world" where
  "send_range e off len rd s =
     (let (en, h1) = check_out (fst (snd s)); w = snd (snd s)
      in case RunGetRangeRequest (sv_env e) (rd_http_url rd) (rd_headers rd) (rd_http_params rd)
                (rd_etag rd) (rd_auto_fallback rd) off (fst s) len
                (\<lambda>r w. (GetS3RequestError e rd r, w))
                (\<lambda>rq. e_net (sv_env e) (w_clock w) rq (ce_client en)) h1 (tick w) of
           (res, s1, cl) \<Rightarrow> (res, rr_dst s1, check_in en cl (rr_h s1), rr_w s1))"

definition range_ops :: "s3_env \<Rightarrow> string \<Rightarrow> nat \<Rightarrow> nat \<Rightarrow> (bytes option \<times> 'a s3h_scheme \<times> world) retry_ops" where
  "range_ops e s3_url off len =
     \<lparr>ro_create = (\<lambda>s. CreateS3HandleRequestData e s3_url ''GET'' True (snd s)),
      ro_request = send_range e off len,
      ro_refresh = (\<lambda>a rf s. (case sh_TryRefreshAuthParams e a rf (snd s) of (b, s1) \<Rightarrow> (b, fst s, s1))),
      ro_set_region = (\<lambda>r s. (fst s, sh_SetRegion (sv_su e) r (fst (snd s)), snd (snd s)))\<rparr>"

definition HeadRequest_s3 :: "s3_env \<Rightarrow> string \<Rightarrow> 'a s3h_scheme \<Rightarrow> world \<Rightarrow>
    (exn + response option) \<times> 'a s3h_scheme \<times> world" where
  "HeadRequest_s3 e s3_url h w =
     RunS3RequestWithAuthRefresh (handle_ops e s3_url ''HEAD'' False (send_plain e HEAD)) False False (h, w)"

definition DeleteRequest_s3 :: "s3_env \<Rightarrow> string \<Rightarrow> 'a s3h_scheme \<Rightarrow> world \<Rightarrow>
    (exn + response option) \<times> 'a s3h_scheme \<times> world" where
  "DeleteRequest_s3 e s3_url h w =
     RunS3RequestWithAuthRefresh (handle_ops e s3_url ''DELETE'' False (send_plain e DELETE)) False False (h, w)"

definition GetRequest_s3 :: "s3_env \<Rightarrow> string \<Rightarrow> 'a s3h_scheme \<Rightarrow> world \<Rightarrow>
    (exn + response option) \<times> 'a s3h_scheme \<times> world" where
  "GetRequest_s3 e s3_url h w =
     RunS3RequestWithAuthRefresh (handle_ops e s3_url ''GET'' True (send_get e)) False False (h, w)"

definition GetRangeRequest_s3 :: "s3_env \<Rightarrow> string \<Rightarrow> nat \<Rightarrow> bytes option \<Rightarrow> nat \<Rightarrow> 'a s3h_scheme \<Rightarrow>
    world \<Rightarrow> (exn + response option) \<times> bytes option \<times> 'a s3h_scheme \<times> world" where
  "GetRangeRequest_s3 e s3_url off dst len h w =
     RunS3RequestWithAuthRefresh (range_ops e s3_url off len) False False (dst, h, w)"

definition GetHTTPError_s3 :: "s3_env \<Rightarrow> 'a s3h_scheme \<Rightarrow> response \<Rightarrow> string \<Rightarrow> exn" where
  "GetHTTPError_s3 e h r url =
     (if is_gcs_path (sv_su e) url \<and> status r = Forbidden_403 then GCSError e (sh_auth h) r url
      else GetS3Error e (sh_auth h) r url)"

definition s3_ops :: "s3_env \<Rightarrow> 'a s3h_scheme fs_ops" where
  "s3_ops e =
     \<lparr>fs_Head = HeadRequest_s3 e, fs_Get = GetRequest_s3 e, fs_GetRange = GetRangeRequest_s3 e,
      fs_HTTPError = GetHTTPError_s3 e,
      fs_FromCacheEntry = sh_InitializeFromCacheEntry (sv_su e), fs_CacheEntry = sh_GetCacheEntry\<rparr>"

section \<open>Counting the requests\<close>

text \<open>What no part of a request changes: the clock after the tick, and the handle's path and flags.\<close>

definition steady :: "nat \<Rightarrow> string \<Rightarrow> open_flags \<Rightarrow> 'a hfh_scheme \<times> world \<Rightarrow> bool" where
  "steady k p fl s \<longleftrightarrow> w_clock (snd s) = k \<and> h_path (fst s) = p \<and> h_flags (fst s) = fl"

lemma steady_get_handlers:
  "steady k p fl s \<Longrightarrow> steady k p fl (snd (get_response_handler q r s))"
  "steady k p fl s \<Longrightarrow> steady k p fl (snd (get_content_handler d s))"
  by (auto simp: steady_def get_response_handler_def get_content_handler_def pin_version_def
      split: option.splits sum.splits)

lemma steady_range_handlers:
  "steady k p fl (rr_h s, rr_w s) \<Longrightarrow>
     steady k p fl (rr_h (snd (range_response_handler q etag n r s)), rr_w (snd (range_response_handler q etag n r s)))"
  "steady k p fl (rr_h s, rr_w s) \<Longrightarrow>
     steady k p fl (rr_h (snd (range_content_handler n d s)), rr_w (snd (range_content_handler n d s)))"
  by (auto simp: steady_def range_response_handler_def range_content_handler_def pin_version_def
      erase_global_def Let_def split: option.splits)

lemma snd_run_transfer: "snd (run_transfer er tr rh ch as s) = snd (run_attempts rh ch as s)"
  by (auto simp: run_transfer_def split: prod.splits sum.splits)

lemma RunGetRequest_steady:
  assumes "RunGetRequest e url hm q ge send s = (res, h', w', cl)" and "steady k p fl s"
    and "\<And>r w. snd (ge r w) = w"
  shows "steady k p fl (h', w')"
proof -
  let ?as = "attempts (send (base_request GET url hm q))"
  have "steady k p fl (snd (run_attempts (get_response_handler q) get_content_handler ?as s))"
    by (rule run_attempts_inv [where I = "steady k p fl"]) (simp_all add: steady_get_handlers assms(2))
  then have "steady k p fl (snd (run_transfer (e_err_response e) False (get_response_handler q) get_content_handler ?as s))"
    by (simp only: snd_run_transfer)
  moreover have "ge r w = (ex, w2) \<Longrightarrow> w2 = w" for r w ex w2 using assms(3) [of r w] by simp
  ultimately show ?thesis using assms(1)
    by (auto simp: RunGetRequest_def Let_def split: prod.splits sum.splits option.splits if_splits)
qed

lemma RunGetRangeRequest_steady:
  assumes "RunGetRangeRequest e url hm q etag auto off d len ge send h w = (res, s', cl)"
    and "steady k p fl (h, w)" and "\<And>r w. snd (ge r w) = w"
  shows "steady k p fl (rr_h s', rr_w s')"
proof -
  let ?rq = "(base_request GET url (hm @ [HInsert ''Range'' (range_expr off len)]) q)\<lparr>rq_try := auto\<rparr>"
  let ?as = "attempts (send ?rq)" and ?s = "\<lparr>rr_h = h, rr_w = w, rr_dst = d, rr_out = 0\<rparr>"
  let ?I = "\<lambda>s. steady k p fl (rr_h s, rr_w s)"
  have "?I (snd (run_attempts (range_response_handler q etag len) (range_content_handler len) ?as ?s))"
    by (rule run_attempts_inv [where I = ?I]) (simp_all add: steady_range_handlers assms(2))
  then have "?I (snd (run_transfer (e_err_response e) auto (range_response_handler q etag len)
      (range_content_handler len) ?as ?s))"
    by (simp only: snd_run_transfer)
  moreover have ge: "ge r w = (ex, w2) \<Longrightarrow> w2 = w" for r w ex w2 using assms(3) [of r w] by simp
  ultimately show ?thesis using assms(1)
    by (auto simp: RunGetRangeRequest_def Let_def dest!: ge split: prod.splits sum.splits option.splits if_splits)
qed

lemma check_steady [simp]:
  "h_path (check_in en cl h) = h_path h" "h_flags (check_in en cl h) = h_flags h"
  "check_out h = (en1, h1) \<Longrightarrow> h_path h1 = h_path h \<and> h_flags h1 = h_flags h"
  by (auto simp: check_in_def check_out_def split: prod.splits)

text \<open>The handle's part of the contract.\<close>

definition at_file :: "string \<Rightarrow> open_flags \<Rightarrow> 'a hfh_scheme \<times> world \<Rightarrow> bool" where
  "at_file p fl s \<longleftrightarrow> h_path (fst s) = p \<and> h_flags (fst s) = fl"

lemma refresh_steady:
  "sh_TryRefreshAuthParams e ra rh s = (b, s1) \<Longrightarrow> at_file p fl s \<Longrightarrow>
   w_clock (snd s1) = w_clock (snd s) \<and> at_file p fl s1"
  by (auto simp: sh_TryRefreshAuthParams_def at_file_def Let_def split: prod.splits sum.splits)

lemma region_steady: "at_file p fl (h, w) \<Longrightarrow> at_file p fl (sh_SetRegion su r h, w)"
  by (simp add: at_file_def sh_SetRegion_def)

lemma send_plain_steady:
  "send_plain e m rd s = (res, s1) \<Longrightarrow> at_file p fl s \<Longrightarrow>
   w_clock (snd s1) = Suc (w_clock (snd s)) \<and> at_file p fl s1"
  by (auto simp: send_plain_def Let_def at_file_def tick_def split: prod.splits sum.splits)

lemma send_get_steady:
  assumes "send_get e rd s = (res, s1)" and "at_file p fl s"
  shows "w_clock (snd s1) = Suc (w_clock (snd s)) \<and> at_file p fl s1"
proof -
  obtain en h1 where co: "check_out (fst s) = (en, h1)" by fastforce
  obtain r h2 w2 cl where run: "RunGetRequest (sv_env e) (rd_http_url rd) (rd_headers rd) (rd_http_params rd)
      (\<lambda>r w. (GetS3RequestError e rd r, w))
      (\<lambda>rq. e_net (sv_env e) (w_clock (snd s)) rq (ce_client en)) (h1, tick (snd s)) = (r, h2, w2, cl)"
    by (metis prod_cases4)
  have "steady (Suc (w_clock (snd s))) p fl (h2, w2)"
    by (rule RunGetRequest_steady [OF run]) (use co assms(2) in \<open>simp_all add: steady_def at_file_def tick_def\<close>)
  then show ?thesis using assms co run
    by (auto simp: send_get_def Let_def steady_def at_file_def)
qed

lemma send_range_steady:
  assumes "send_range e off len rd s = (res, s1)" and "at_file p fl (snd s)"
  shows "w_clock (snd (snd s1)) = Suc (w_clock (snd (snd s))) \<and> at_file p fl (snd s1)"
proof -
  obtain en h1 where co: "check_out (fst (snd s)) = (en, h1)" by fastforce
  obtain r s2 cl where run: "RunGetRangeRequest (sv_env e) (rd_http_url rd) (rd_headers rd) (rd_http_params rd)
      (rd_etag rd) (rd_auto_fallback rd) off (fst s) len (\<lambda>r w. (GetS3RequestError e rd r, w))
      (\<lambda>rq. e_net (sv_env e) (w_clock (snd (snd s))) rq (ce_client en)) h1 (tick (snd (snd s))) = (r, s2, cl)"
    by (metis prod_cases3)
  have "steady (Suc (w_clock (snd (snd s)))) p fl (rr_h s2, rr_w s2)"
    by (rule RunGetRangeRequest_steady [OF run]) (use co assms(2) in \<open>simp_all add: steady_def at_file_def tick_def\<close>)
  then show ?thesis using assms co run
    by (auto simp: send_range_def Let_def steady_def at_file_def)
qed

interpretation plain_retry: retry_protocol "handle_ops e url req_method v (send_plain e m)"
    "\<lambda>s. w_clock (snd s)" "at_file p fl" for e url req_method v m p fl
  by unfold_locales
    (auto simp: handle_ops_def region_steady dest: send_plain_steady refresh_steady)

interpretation get_retry: retry_protocol "handle_ops e url req_method v (send_get e)"
    "\<lambda>s. w_clock (snd s)" "at_file p fl" for e url req_method v p fl
  by unfold_locales
    (auto simp: handle_ops_def region_steady dest: send_get_steady refresh_steady)

interpretation range_retry: retry_protocol "range_ops e url off len"
    "\<lambda>s. w_clock (snd (snd s))" "\<lambda>s. at_file p fl (snd s)" for e url off len p fl
  by unfold_locales
    (auto simp: range_ops_def region_steady dest: send_range_steady refresh_steady split: prod.splits)

text \<open>
  C18: One S3 operation sends at most three requests. Whatever the server, the secret manager and
  the network do, HeadRequest, GetRequest, GetRangeRequest and DeleteRequest of the S3 file system
  return, after at most three requests: one, one more after a credential refresh, and one more
  after a region redirect; path and flags of the handle stay as they are.
\<close>

theorem at_most_three_requests:
  fixes h :: "'a s3h_scheme"
  shows "w_clock (snd (snd (HeadRequest_s3 e url h w))) \<le> w_clock w + 3 \<and>
    w_clock (snd (snd (DeleteRequest_s3 e url h w))) \<le> w_clock w + 3 \<and>
    w_clock (snd (snd (GetRequest_s3 e url h w))) \<le> w_clock w + 3 \<and>
    w_clock (snd (snd (snd (GetRangeRequest_s3 e url off dst len h w)))) \<le> w_clock w + 3 \<and>
    h_path (fst (snd (snd (GetRangeRequest_s3 e url off dst len h w)))) = h_path h"
proof -
  let ?inv = "at_file (h_path h) (h_flags h) (h, w)"
  have inv: ?inv by (simp add: at_file_def)
  have fl: "flags_left False False = 2" by (simp add: flags_left_def)
  have plain: "w_clock (snd (snd (RunS3RequestWithAuthRefresh (handle_ops e url m v (send_plain e q))
      False False (h, w)))) \<le> w_clock w + 3" for m v q
    using plain_retry.bounded [OF inv, of e url m v q False False] fl
    by (cases "RunS3RequestWithAuthRefresh (handle_ops e url m v (send_plain e q)) False False (h, w)") auto
  have get: "w_clock (snd (snd (RunS3RequestWithAuthRefresh (handle_ops e url m v (send_get e))
      False False (h, w)))) \<le> w_clock w + 3" for m v
    using get_retry.bounded [OF inv, of e url m v False False] fl
    by (cases "RunS3RequestWithAuthRefresh (handle_ops e url m v (send_get e)) False False (h, w)") auto
  have inv3: "at_file (h_path h) (h_flags h) (snd (dst, h, w))" using inv by simp
  have range: "w_clock (snd (snd (snd (RunS3RequestWithAuthRefresh (range_ops e url off len)
        False False (dst, h, w))))) \<le> w_clock w + 3 \<and>
      h_path (fst (snd (snd (RunS3RequestWithAuthRefresh (range_ops e url off len)
        False False (dst, h, w))))) = h_path h"
    using range_retry.bounded [OF inv3, of e url off len False False] fl
    by (cases "RunS3RequestWithAuthRefresh (range_ops e url off len) False False (dst, h, w)")
      (auto simp: at_file_def)
  show ?thesis using plain get range
    by (simp add: HeadRequest_s3_def DeleteRequest_s3_def GetRequest_s3_def GetRangeRequest_s3_def)
qed

text \<open>
  C17: A region redirect is followed to the region's endpoint. When the first answer to a HEAD names
  another region for the bucket, the operation goes on as a retry with the region taken over: the
  next request's data carries that region and, for an AWS endpoint, the region's own endpoint, the
  cached clients of the old endpoint are gone, and no second redirect is followed.
\<close>

theorem region_redirect_resigns:
  assumes "CreateS3HandleRequestData e url ''HEAD'' False (h, w) = Inr rd"
    and "send_plain e HEAD rd (h, w) = (Inr (Some r), h1, w1)"
    and "\<not> IsAuthRefreshFailure r" and "GetRegionRedirect r (rd_auth_params rd) = Some (c # reg)"
  shows "\<exists>h2. HeadRequest_s3 e url h w = RunS3RequestWithAuthRefresh
        (handle_ops e url ''HEAD'' False (send_plain e HEAD)) False True (h2, w1) \<and>
     region (sh_auth h2) = c # reg \<and> clients (h_clients h2) = [] \<and>
     (EndpointIsAWS (sv_su e) (endpoint (sh_auth h1)) \<longrightarrow>
        endpoint (sh_auth h2) = ''s3.'' @ (c # reg) @ ''.amazonaws.com'') \<and>
     (\<forall>rd2. CreateS3HandleRequestData e url ''HEAD'' False (h2, w1) = Inr rd2 \<longrightarrow>
        rd_auth_params rd2 = sh_auth h2)"
proof (intro exI conjI)
  let ?h2 = "sh_SetRegion (sv_su e) (c # reg) h1"
  let ?ops = "handle_ops e url ''HEAD'' False (send_plain e HEAD)"
  have "retry_turn ?ops False False (h, w) = Again False True (?h2, w1)"
    using assms by (simp add: retry_turn_def handle_ops_def on_answer_def answer_region_def)
  then show "HeadRequest_s3 e url h w = RunS3RequestWithAuthRefresh ?ops False True (?h2, w1)"
    by (simp add: HeadRequest_s3_def RunS3RequestWithAuthRefresh.simps [of ?ops False False])
  show "region (sh_auth ?h2) = c # reg"
    by (simp add: sh_SetRegion_def SetRegion_def InitializeEndpoint_def Let_def)
  show "clients (h_clients ?h2) = []" by (simp add: sh_SetRegion_def ClearClients_def)
  show "EndpointIsAWS (sv_su e) (endpoint (sh_auth h1)) \<longrightarrow>
      endpoint (sh_auth ?h2) = ''s3.'' @ (c # reg) @ ''.amazonaws.com''"
    by (simp add: sh_SetRegion_def SetRegion_def InitializeEndpoint_def Let_def)
  show "\<forall>rd2. CreateS3HandleRequestData e url ''HEAD'' False (?h2, w1) = Inr rd2 \<longrightarrow>
      rd_auth_params rd2 = sh_auth ?h2"
    by (auto simp: CreateS3HandleRequestData_def CreateS3RequestData_def Let_def split: sum.splits prod.splits)
qed

end
