(* ===== verification/S3Read.thy ===== *)
theory S3Read
  imports S3Handle
begin

text \<open>
  Reads over S3 are exact, also when the credentials expire in between: the S3 file system's range
  requests meet the contract of ReadCorrect against a server that authenticates its requests.
\<close>

section \<open>A server that authenticates\<close>

text \<open>
  A range request built by the code from parameters a is answered well when the server accepts a,
  and with 401 or 403 otherwise; requests whose extra headers override the Authorization are left
  open.
\<close>

definition plain_params :: "httpfs_params \<Rightarrow> bool" where
  "plain_params p \<longleftrightarrow> (\<forall>v. (''Authorization'', v) \<notin> set (extra_headers p))"

definition denied :: "attempt list \<Rightarrow> bool" where
  "denied ats \<longleftrightarrow> (\<exists>r. ats = [Attempt [RespHead r] (Inr (Some r))] \<and>
     (status r = Unauthorized_401 \<or> status r = Forbidden_403) \<and> \<not> has_request_error r)"

definition s3_answers :: "s3_env \<Rightarrow> string \<Rightarrow> (s3_auth \<Rightarrow> bool) \<Rightarrow> bytes \<Rightarrow> string \<Rightarrow> bool" where
  "s3_answers e url auth_ok content tag \<longleftrightarrow>
     (\<forall>k rq cl kk a p v rd off len. plain_params p \<longrightarrow> CreateS3RequestData e kk a p url ''GET'' v '''' '''' '''' = Inr rd \<longrightarrow>
        rq_method rq = GET \<longrightarrow> rq_url rq = rd_http_url rd \<longrightarrow>
        rq_headers rq = rd_headers rd @ [HInsert ''Range'' (range_expr off len)] \<longrightarrow> 0 < len \<longrightarrow>
        off + len \<le> length content \<longrightarrow>
        (let ats = attempts (e_net (sv_env e) k rq cl)
         in if auth_ok a
            then good_answer content tag off len ats \<and>
              (\<forall>r. at_outcome (last ats) = Inr (Some r) \<longrightarrow> status r < 300)
            else denied ats))"

lemma s3_answersD:
  assumes "s3_answers e url auth_ok content tag" and "plain_params p"
    and "CreateS3RequestData e kk a p url ''GET'' v '''' '''' '''' = Inr rd"
    and "rq_method rq = GET" and "rq_url rq = rd_http_url rd"
    and "rq_headers rq = rd_headers rd @ [HInsert ''Range'' (range_expr off len)]"
    and "0 < len" and "off + len \<le> length content"
  shows "auth_ok a \<Longrightarrow> good_answer content tag off len (attempts (e_net (sv_env e) k rq cl))"
    and "auth_ok a \<Longrightarrow> at_outcome (last (attempts (e_net (sv_env e) k rq cl))) = Inr (Some r) \<Longrightarrow> status r < 300"
    and "\<not> auth_ok a \<Longrightarrow> denied (attempts (e_net (sv_env e) k rq cl))"
proof -
  have all: "let ats = attempts (e_net (sv_env e) k rq cl)
     in if auth_ok a
        then good_answer content tag off len ats \<and>
          (\<forall>r. at_outcome (last ats) = Inr (Some r) \<longrightarrow> status r < 300)
        else denied ats"
    using assms(1) [unfolded s3_answers_def, rule_format, OF assms(2-8)] .
  then show "auth_ok a \<Longrightarrow> good_answer content tag off len (attempts (e_net (sv_env e) k rq cl))"
    "auth_ok a \<Longrightarrow> at_outcome (last (attempts (e_net (sv_env e) k rq cl))) = Inr (Some r) \<Longrightarrow> status r < 300"
    "\<not> auth_ok a \<Longrightarrow> denied (attempts (e_net (sv_env e) k rq cl))"
    by (simp_all add: Let_def)
qed

text \<open>The handle can get accepted parameters from the secret manager, now or after a refresh.\<close>

definition renewable :: "s3_env \<Rightarrow> (s3_auth \<Rightarrow> bool) \<Rightarrow> 'a s3h_scheme \<Rightarrow> world \<Rightarrow> bool" where
  "renewable e auth_ok h w \<longleftrightarrow>
     (\<forall>cc. \<exists>a' p' cc' m'. TryRefreshS3AuthMaterial e (sh_context h) (sh_context h) (h_path h) (sh_auth h)
         (SnapshotRefreshableHTTPParams (h_params h)) (sh_refresh_enabled h) (sh_region_redirected h)
         (sh_auth h, h_params h, cc) (w_secrets w) = (Inr (True, a', p', cc'), m') \<and>
       auth_ok a' \<and> (\<exists>u. S3UrlParse (sv_su e) (h_path h) a' = Inr u) \<and>
       unsafe_disable_etag_checks p' = unsafe_disable_etag_checks (h_params h) \<and> plain_params p')"

text \<open>The handle's parameters are plain and its validator, if any, is the server's.\<close>

definition tag_ok :: "string \<Rightarrow> 'a hfh_scheme \<Rightarrow> bool" where
  "tag_ok tag h \<longleftrightarrow> plain_params (h_params h) \<and>
     (unsafe_disable_etag_checks (h_params h) \<or> h_etag h = '''' \<or>
      StripETagQuotes tag = StripETagQuotes (h_etag h))"

definition s3_good :: "s3_env \<Rightarrow> string \<Rightarrow> (s3_auth \<Rightarrow> bool) \<Rightarrow> bytes \<Rightarrow> string \<Rightarrow> 'a s3h_scheme \<Rightarrow>
    world \<Rightarrow> bool" where
  "s3_good e url auth_ok content tag h w \<longleftrightarrow>
     s3_answers e url auth_ok content tag \<and> length content < 2 ^ 63 \<and> h_path h = url \<and> tag_ok tag h \<and>
     (\<exists>u. S3UrlParse (sv_su e) url (sh_auth h) = Inr u) \<and>
     (auth_ok (sh_auth h) \<or> renewable e auth_ok h w)"

section \<open>One turn of the retry loop\<close>

lemma Snapshot_Clone [simp]:
  "SnapshotRefreshableHTTPParams (Clone base p) = SnapshotRefreshableHTTPParams p"
  by (simp add: SnapshotRefreshableHTTPParams_def Clone_def)

lemma check_out_only: "check_out h = (en, h1) \<Longrightarrow> \<exists>c. h1 = h\<lparr>h_clients := c\<rparr>"
  unfolding check_out_def by (cases "GetClientWithGeneration (h_clients h)") (simp, blast)

text \<open>The request data exists as soon as the URL parses.\<close>

lemma handle_data:
  assumes "S3UrlParse (sv_su e) url (sh_auth h) = Inr u"
  shows "\<exists>rd v. CreateS3HandleRequestData e url ''GET'' True (h, w) = Inr rd \<and>
     rd_auth_params rd = sh_auth h \<and> rd_refreshable rd = SnapshotRefreshableHTTPParams (h_params h) \<and>
     rd_etag rd = h_etag h \<and>
     unsafe_disable_etag_checks (rd_http_params rd) = unsafe_disable_etag_checks (h_params h) \<and>
     (\<exists>rd0. CreateS3RequestData e (w_clock w) (sh_auth h) (Clone (sv_base e) (h_params h)) url ''GET'' v '''' '''' '''' = Inr rd0 \<and>
       rd_http_url rd = rd_http_url rd0 \<and> rd_headers rd = rd_headers rd0)"
proof -
  let ?v = "if h_version_id h \<noteq> '''' then ''versionId='' @ UrlEncode (sv_su e) (h_version_id h) True else ''''"
  obtain rd0 where rd0: "CreateS3RequestData e (w_clock w) (sh_auth h) (Clone (sv_base e) (h_params h)) url ''GET'' ?v '''' '''' ''''
      = Inr rd0" "rd_auth_params rd0 = sh_auth h"
    "rd_refreshable rd0 = SnapshotRefreshableHTTPParams (h_params h)"
    "unsafe_disable_etag_checks (rd_http_params rd0) = unsafe_disable_etag_checks (h_params h)"
    using assms by (simp add: CreateS3RequestData_def AddS3HTTPHeaders_def Let_def)
  then show ?thesis
    by (intro exI [of _ "rd0\<lparr>rd_etag := h_etag h, rd_auto_fallback := h_auto_fallback h\<rparr>"] exI [of _ ?v])
      (simp add: CreateS3HandleRequestData_def Let_def)
qed

text \<open>With accepted parameters the turn ends with the bytes.\<close>

lemma turn_good:
  assumes g: "s3_answers e url auth_ok content tag" "length content < 2 ^ 63" "h_path h = url"
      "tag_ok tag h" "S3UrlParse (sv_su e) url (sh_auth h) = Inr u"
    and ok: "auth_ok (sh_auth h)" and len0: "0 < len" and off: "off + len \<le> length content"
    and len: "len \<le> length dst"
  shows "\<exists>r h' w'. retry_turn (range_ops e url off len) ra rr (Some dst, h, w)
      = Stop (Inr (Some r)) (Some (overwrite dst 0 (slice content off len)), h', w') \<and>
     \<not> has_request_error r \<and> success r \<and> s3_good e url auth_ok content tag h' w' \<and> same_view h h'"
proof -
  obtain rd v rd0 where rd: "CreateS3HandleRequestData e url ''GET'' True (h, w) = Inr rd"
    "rd_auth_params rd = sh_auth h" "rd_etag rd = h_etag h"
    "unsafe_disable_etag_checks (rd_http_params rd) = unsafe_disable_etag_checks (h_params h)"
    and rd0: "CreateS3RequestData e (w_clock w) (sh_auth h) (Clone (sv_base e) (h_params h)) url ''GET'' v '''' '''' '''' = Inr rd0"
      "rd_http_url rd = rd_http_url rd0" "rd_headers rd = rd_headers rd0"
    using handle_data [OF g(5), of w] by blast
  obtain en h1 where co: "check_out h = (en, h1)" by fastforce
  obtain c where c: "h1 = h\<lparr>h_clients := c\<rparr>" using check_out_only [OF co] ..
  have plain: "plain_params (Clone (sv_base e) (h_params h))"
    using g(4) by (simp add: tag_ok_def plain_params_def)
  let ?p = "rd_http_params rd"
  let ?rq = "(base_request GET (rd_http_url rd) (rd_headers rd @ [HInsert ''Range'' (range_expr off len)]) ?p)
      \<lparr>rq_try := rd_auto_fallback rd\<rparr>"
  let ?ats = "attempts (e_net (sv_env e) (w_clock w) ?rq (ce_client en))"
  have rq: "rq_method ?rq = GET" "rq_url ?rq = rd_http_url rd0"
    "rq_headers ?rq = rd_headers rd0 @ [HInsert ''Range'' (range_expr off len)]"
    using rd0 by (simp_all add: base_request_def)
  note answered = s3_answersD [OF g(1) plain rd0(1) rq len0 off]
  have ans: "good_answer content tag off len ?ats" by (rule answered(1) [OF ok])
  have st: "\<And>r. at_outcome (last ?ats) = Inr (Some r) \<Longrightarrow> status r < 300"
    by (rule answered(2) [OF ok])
  have small: "length content < w64" using g(2) by simp
  have tag: "unsafe_disable_etag_checks ?p \<or> h_etag h = '''' \<or> StripETagQuotes tag = StripETagQuotes (h_etag h)"
    using g(4) rd(4) by (simp add: tag_ok_def)
  obtain r s v where s: "run_attempts (range_response_handler ?p (h_etag h) len) (range_content_handler len) ?ats
        \<lparr>rr_h = h1, rr_w = tick w, rr_dst = Some dst, rr_out = 0\<rparr> = (Inr (Some r), s)"
      "rr_dst s = Some (overwrite dst 0 (slice content off len))" "rr_out s = len"
      "rr_h s = h1\<lparr>h_version_id := v\<rparr>" "\<not> has_request_error r" "success r" "status r < 400"
      "at_outcome (last ?ats) = Inr (Some r)"
    using good_transfer [OF ans len off small tag refl] by blast
  let ?cl = "client_after (e_net (sv_env e) (w_clock w) ?rq (ce_client en))"
  let ?h' = "check_in en ?cl (rr_h s)"
  have "send_range e off len rd (Some dst, h, w)
      = (Inr (Some r), Some (overwrite dst 0 (slice content off len)), ?h', rr_w s)"
    using s co rd(3) by (simp add: send_range_def RunGetRangeRequest_def Let_def run_transfer_Inr)
  moreover have "\<not> IsAuthRefreshFailure r" "GetRegionRedirect r a = None" for a
    using st [OF s(8)] by (simp_all add: IsAuthRefreshFailure_def GetRegionRedirect_def)
  ultimately have "retry_turn (range_ops e url off len) ra rr (Some dst, h, w)
      = Stop (Inr (Some r)) (Some (overwrite dst 0 (slice content off len)), ?h', rr_w s)"
    using rd(1) by (simp add: retry_turn_def range_ops_def on_answer_def answer_region_def)
  moreover have "s3_good e url auth_ok content tag ?h' (rr_w s)"
    using g ok s(4) c by (simp add: s3_good_def check_in_def tag_ok_def)
  moreover have "same_view h ?h'" using s(4) c by (simp add: same_view_def check_in_def)
  ultimately show ?thesis using s by blast
qed

text \<open>With refused parameters that can be renewed, the turn ends in a retry with accepted ones.\<close>

lemma turn_denied:
  assumes g: "s3_answers e url auth_ok content tag" "length content < 2 ^ 63" "h_path h = url"
      "tag_ok tag h" "S3UrlParse (sv_su e) url (sh_auth h) = Inr u"
    and ok: "\<not> auth_ok (sh_auth h)" "renewable e auth_ok h w" and len0: "0 < len"
    and off: "off + len \<le> length content" and len: "len \<le> length dst"
  shows "\<exists>h' w'. retry_turn (range_ops e url off len) False rr (Some dst, h, w)
      = Again True rr (Some dst, h', w') \<and> auth_ok (sh_auth h') \<and> tag_ok tag h' \<and>
     (\<exists>u. S3UrlParse (sv_su e) url (sh_auth h') = Inr u) \<and> h_path h' = url \<and> same_view h h'"
proof -
  obtain rd v rd0 where rd: "CreateS3HandleRequestData e url ''GET'' True (h, w) = Inr rd"
    "rd_auth_params rd = sh_auth h" "rd_refreshable rd = SnapshotRefreshableHTTPParams (h_params h)"
    and rd0: "CreateS3RequestData e (w_clock w) (sh_auth h) (Clone (sv_base e) (h_params h)) url ''GET'' v '''' '''' '''' = Inr rd0"
      "rd_http_url rd = rd_http_url rd0" "rd_headers rd = rd_headers rd0"
    using handle_data [OF g(5), of w] by blast
  obtain en h1 where co: "check_out h = (en, h1)" by fastforce
  obtain c where c: "h1 = h\<lparr>h_clients := c\<rparr>" using check_out_only [OF co] ..
  have plain: "plain_params (Clone (sv_base e) (h_params h))"
    using g(4) by (simp add: tag_ok_def plain_params_def)
  let ?p = "rd_http_params rd"
  let ?rq = "(base_request GET (rd_http_url rd) (rd_headers rd @ [HInsert ''Range'' (range_expr off len)]) ?p)
      \<lparr>rq_try := rd_auto_fallback rd\<rparr>"
  let ?ats = "attempts (e_net (sv_env e) (w_clock w) ?rq (ce_client en))"
  have rq: "rq_method ?rq = GET" "rq_url ?rq = rd_http_url rd0"
    "rq_headers ?rq = rd_headers rd0 @ [HInsert ''Range'' (range_expr off len)]"
    using rd0 by (simp_all add: base_request_def)
  have "denied ?ats" by (rule s3_answersD(3) [OF g(1) plain rd0(1) rq len0 off ok(1)])
  then obtain r where r: "?ats = [Attempt [RespHead r] (Inr (Some r))]"
    "status r = 401 \<or> status r = 403" "\<not> has_request_error r" unfolding denied_def by blast
  let ?s0 = "\<lparr>rr_h = h1, rr_w = tick w, rr_dst = Some dst, rr_out = 0\<rparr>"
  have run: "run_attempts (range_response_handler ?p (rd_etag rd) len) (range_content_handler len) ?ats ?s0
      = (Inr (Some r), ?s0)"
    using r(1,2) by (auto simp: run_attempt_def range_response_handler_def)
  let ?cl = "client_after (e_net (sv_env e) (w_clock w) ?rq (ce_client en))"
  let ?h2 = "check_in en ?cl h1" and ?ex = "GetS3RequestError e rd r"
  have send: "send_range e off len rd (Some dst, h, w) = (Inl ?ex, Some dst, ?h2, tick w)"
    using run co r(2,3) by (auto simp: send_range_def RunGetRangeRequest_def Let_def run_transfer_Inr)
  have ex: "IsAuthRefreshFailure_exn ?ex"
  proof -
    have "ex_resp ?ex = Some r" by (simp add: GetS3RequestError_def GCSError_def GetS3Error_def Let_def)
    moreover have "IsAuthRefreshFailure r" using r(2) by (auto simp: IsAuthRefreshFailure_def)
    ultimately show ?thesis using exn_like_response by blast
  qed
  obtain a' p' cc' m' where ref: "TryRefreshS3AuthMaterial e (sh_context h) (sh_context h) (h_path h) (sh_auth h)
         (SnapshotRefreshableHTTPParams (h_params h)) (sh_refresh_enabled h) (sh_region_redirected h)
         (sh_auth h, h_params h, Some (h_clients ?h2)) (w_secrets w) = (Inr (True, a', p', cc'), m')"
    and a': "auth_ok a'" "\<exists>u. S3UrlParse (sv_su e) (h_path h) a' = Inr u"
      "unsafe_disable_etag_checks p' = unsafe_disable_etag_checks (h_params h)" "plain_params p'"
    using ok(2) unfolding renewable_def by blast
  let ?h' = "?h2\<lparr>sh_auth := a', h_params := p',
      h_clients := (case cc' of Some c \<Rightarrow> c | None \<Rightarrow> h_clients ?h2)\<rparr>"
  let ?w' = "(tick w)\<lparr>w_secrets := m'\<rparr>"
  have "sh_TryRefreshAuthParams e (sh_auth h) (SnapshotRefreshableHTTPParams (h_params h)) (?h2, tick w)
      = (Inr True, ?h', ?w')"
    using ref c by (simp add: sh_TryRefreshAuthParams_def check_in_def tick_def split: option.split)
  then have "retry_turn (range_ops e url off len) False rr (Some dst, h, w) = Again True rr (Some dst, ?h', ?w')"
    using rd send ex by (simp add: retry_turn_def range_ops_def on_exception_def)
  moreover have "same_view h ?h'" using c by (simp add: same_view_def check_in_def)
  moreover have "tag_ok tag ?h'" using g(4) a'(3,4) c by (simp add: tag_ok_def check_in_def)
  ultimately show ?thesis using a' g(3) c
    by (intro exI [of _ ?h'] exI [of _ ?w']) (simp add: check_in_def)
qed

lemma s3_fetch:
  assumes g: "s3_good e url auth_ok content tag h w" and len0: "0 < len"
    and off: "off + len \<le> length content" and len: "len \<le> length dst"
  shows "\<exists>r h' w'. fs_GetRange (s3_ops e) (h_path h) off (Some dst) len h w
      = (Inr (Some r), Some (overwrite dst 0 (slice content off len)), h', w') \<and>
     \<not> has_request_error r \<and> success r \<and> s3_good e url auth_ok content tag h' w' \<and> same_view h h'"
proof -
  let ?ops = "range_ops e url off len :: (bytes option \<times> 'a s3h_scheme \<times> world) retry_ops"
  let ?bytes = "Some (overwrite dst 0 (slice content off len))"
  from g obtain u where u: "s3_answers e url auth_ok content tag" "length content < 2 ^ 63" "h_path h = url"
    "tag_ok tag h" "S3UrlParse (sv_su e) url (sh_auth h) = Inr u"
    and ok: "auth_ok (sh_auth h) \<or> renewable e auth_ok h w"
    unfolding s3_good_def by blast
  have get: "fs_GetRange (s3_ops e) (h_path h) off (Some dst) len h w
      = RunS3RequestWithAuthRefresh ?ops False False (Some dst, h, w)"
    using u(3) by (simp add: s3_ops_def GetRangeRequest_s3_def)
  show ?thesis
  proof (cases "auth_ok (sh_auth h)")
    case True
    from turn_good [OF u True len0 off len, of False False w] obtain r h' w' where
      "retry_turn ?ops False False (Some dst, h, w) = Stop (Inr (Some r)) (?bytes, h', w')"
      "\<not> has_request_error r" "success r" "s3_good e url auth_ok content tag h' w'" "same_view h h'" by blast
    then show ?thesis unfolding get RunS3RequestWithAuthRefresh.simps [of ?ops False False] by simp
  next
    case False
    with ok have "renewable e auth_ok h w" by blast
    from turn_denied [OF u False this len0 off len, of False] obtain h1 w1 u1 where
      1: "retry_turn ?ops False False (Some dst, h, w) = Again True False (Some dst, h1, w1)"
        "auth_ok (sh_auth h1)" "tag_ok tag h1" "S3UrlParse (sv_su e) url (sh_auth h1) = Inr u1"
        "h_path h1 = url" "same_view h h1" by blast
    from turn_good [OF u(1,2) 1(5,3,4,2) len0 off len, of True False w1] obtain r h' w' where
      2: "retry_turn ?ops True False (Some dst, h1, w1) = Stop (Inr (Some r)) (?bytes, h', w')"
        "\<not> has_request_error r" "success r" "s3_good e url auth_ok content tag h' w'" "same_view h1 h'" by blast
    have "same_view h h'" using 1(6) 2(5) by (simp add: same_view_def)
    then show ?thesis using 1(1) 2
      unfolding get RunS3RequestWithAuthRefresh.simps [of ?ops False False]
      by (simp add: RunS3RequestWithAuthRefresh.simps [of ?ops True False])
  qed
qed

lemma good_frame [simp]:
  "renewable e auth_ok (read_frame av ix fo bs be rb st h) w = renewable e auth_ok h w"
  "tag_ok tag (read_frame av ix fo bs be rb st h) = tag_ok tag h"
  by (simp_all add: renewable_def tag_ok_def read_frame_def)

interpretation s3: range_provider "s3_ops e" content "s3_good e url auth_ok content tag"
  for e content url auth_ok tag
proof unfold_locales
  fix h :: "'a s3h_scheme" and w len off dst
  assume "s3_good e url auth_ok content tag h w" and "0 < len" and "off + len \<le> length content"
    and "len \<le> length (dst::bytes)"
  then show "\<exists>r h' w'. fs_GetRange (s3_ops e) (h_path h) off (Some dst) len h w
          = (Inr (Some r), Some (overwrite dst 0 (slice content off len)), h', w')
        \<and> \<not> has_request_error r \<and> success r \<and> s3_good e url auth_ok content tag h' w' \<and> same_view h h'"
    by (rule s3_fetch)
next
  fix h :: "'a s3h_scheme" and w av ix fo bs be rb st
  assume "s3_good e url auth_ok content tag h w"
  then show "s3_good e url auth_ok content tag (read_frame av ix fo bs be rb st h) w"
    by (simp add: s3_good_def good_frame) (simp add: read_frame_def)
next
  fix h :: "'a s3h_scheme" and w
  assume "s3_good e url auth_ok content tag h w"
  then show "length content < 2 ^ 63" by (simp add: s3_good_def)
qed

text \<open>
  C4: Reads over S3 are exact, and survive the expiry of the credentials. Against a server that
  serves the content to requests signed with parameters it accepts and denies all others, a handle
  whose parameters are accepted, or can be renewed from the secrets, reads exactly the content's
  bytes: a denied range request is sent again with refreshed credentials and nothing of the denial
  reaches the caller's buffer; afterwards the handle is ready for the next exact read.
\<close>

theorem s3_read_exact:
  assumes "s3_good e url auth_ok content tag h w" and "window_ok content h"
    and "h_length h = length content" and "h_cached_file h = None"
    and "loc + n \<le> length content" and "n \<le> length dst"
  shows "\<exists>h' w'. Read (sv_env e) (s3_ops e) n loc dst h w
            = (None, overwrite dst 0 (slice content loc n), h', w')
          \<and> file_offset h' = loc + n \<and> s3_good e url auth_ok content tag h' w' \<and> window_ok content h'"
  by (rule s3.Read_exact [OF assms])

section \<open>A concrete S3 server\<close>

text \<open>It accepts the access key 1 and denies everything else.\<close>

definition has_key_1 :: "s3_auth \<Rightarrow> bool" where
  "has_key_1 a \<longleftrightarrow> prefix ''1/'' (access_key_id a @ ''/'')"

fun authorization :: "headers \<Rightarrow> string" where
  "authorization [] = ''''"
| "authorization (HSet k v # hs) = (if k = ''Authorization'' then v else authorization hs)"
| "authorization (HInsert k v # hs) = authorization hs"

definition demo_s3_net :: "bytes \<Rightarrow> string \<Rightarrow> transport" where
  "demo_s3_net content tag k rq cl =
     (if prefix ''AWS4-HMAC-SHA256 Credential=1/'' (authorization (rq_headers rq))
      then \<lparr>attempts = (case last (rq_headers rq) of
                HInsert _ v \<Rightarrow> (case parse_range v of Some (a, b) \<Rightarrow> demo_answer content tag a b | None \<Rightarrow> [])
              | HSet _ _ \<Rightarrow> []),
            client_after = cl\<rparr>
      else \<lparr>attempts = [Attempt [RespHead (demo_response 403 Map.empty)] (Inr (Some (demo_response 403 Map.empty)))],
            client_after = cl\<rparr>)"

definition demo_s3_env :: "bytes \<Rightarrow> string \<Rightarrow> s3_env" where
  "demo_s3_env content tag = demo_s3 ((demo_env [] [])\<lparr>e_net := demo_s3_net content tag\<rparr>)"

lemma authorization_append:
  "authorization (xs @ ys) = (if \<exists>v. HSet ''Authorization'' v \<in> set xs then authorization xs else authorization ys)"
proof (induction xs)
  case Nil
  then show ?case by simp
next
  case (Cons x xs)
  then show ?case by (cases x) auto
qed

lemma writes_no_authorization:
  "HSet ''Authorization'' v \<notin> set (signed_header_writes host a sse dt p ct md5)"
  unfolding signed_header_writes_def set_append Un_iff in_set_if list.set insert_iff empty_iff
  by simp

lemma CreateS3Header_authorization:
  "prefix ''AWS4-HMAC-SHA256 Credential=1/'' (authorization (CreateS3Header su c now url q host svc m a '''' '''' ph ct md5 @ hs))
     \<longleftrightarrow> (if secret_access_key a = '''' \<and> access_key_id a = ''''
          then prefix ''AWS4-HMAC-SHA256 Credential=1/'' (authorization hs)
          else has_key_1 a)"
proof (cases "secret_access_key a = '''' \<and> access_key_id a = ''''")
  case True
  then show ?thesis by (simp add: CreateS3Header_def)
next
  case False
  obtain d dt where now: "now = (d, dt)" by (cases now)
  let ?w = "signed_header_writes host a (uses_sse_kms a m q) dt (if ph = '''' then EMPTY_PAYLOAD_HASH else ph) ct md5"
  obtain rest where hd: "CreateS3Header su c now url q host svc m a '''' '''' ph ct md5
      = ?w @ [HSet ''Authorization'' (''AWS4-HMAC-SHA256 Credential='' @ access_key_id a @ ''/'' @ rest)]"
    using False now by (simp add: CreateS3Header_def Let_def)
  have "authorization (?w @ [HSet ''Authorization'' v] @ hs) = v" for v
    using writes_no_authorization by (simp add: authorization_append)
  then have "authorization (CreateS3Header su c now url q host svc m a '''' '''' ph ct md5 @ hs)
      = ''AWS4-HMAC-SHA256 Credential='' @ access_key_id a @ ''/'' @ rest"
    by (simp add: hd)
  moreover have "prefix ''1/'' (access_key_id a @ ''/'' @ rest) \<longleftrightarrow> prefix ''1/'' (access_key_id a @ ''/'')"
    by (cases "access_key_id a"; cases "tl (access_key_id a)") auto
  ultimately have "prefix ''AWS4-HMAC-SHA256 Credential=1/'' (authorization
      (CreateS3Header su c now url q host svc m a '''' '''' ph ct md5 @ hs)) \<longleftrightarrow> has_key_1 a"
    by (simp add: has_key_1_def)
  then show ?thesis by (simp only: if_not_P [OF False])
qed

lemma demo_s3_answers:
  assumes "length content < w64"
  shows "s3_answers (demo_s3_env content tag) ''s3://b/k'' has_key_1 content tag"
  unfolding s3_answers_def
proof (intro allI impI)
  fix k :: nat and rq :: http_request and cl kk a p v rd and off len :: nat
  assume plain: "plain_params p"
    and rd: "CreateS3RequestData (demo_s3_env content tag) kk a p ''s3://b/k'' ''GET'' v '''' '''' '''' = Inr rd"
    and hd: "rq_headers rq = rd_headers rd @ [HInsert ''Range'' (range_expr off len)]"
    and len: "0 < len" and off: "off + len \<le> length content"
  let ?e = "demo_s3_env content tag"
  let ?ats = "attempts (e_net (sv_env ?e) k rq cl)"
  have net: "e_net (sv_env ?e) = demo_s3_net content tag" "sv_su ?e = ref_su"
    by (simp_all add: demo_s3_env_def demo_s3_def)
  have gcs: "\<not> is_gcs_path ref_su ''s3://b/k''" by (simp add: is_gcs_path_def ref_su_def)
  have none: "authorization (AddUserAgent @ map (\<lambda>(k, v). HSet k v) (extra_headers p) @ [HInsert ''Range'' r]) = ''''"
    if "AddUserAgent = [] \<or> (\<exists>u. AddUserAgent = [HInsert ''User-Agent'' u])" for AddUserAgent r
  proof -
    have "authorization (map (\<lambda>(k, v). HSet k v) xs @ [HInsert ''Range'' r]) = ''''"
      if "\<forall>v. (''Authorization'', v) \<notin> set xs" for xs :: "(string \<times> string) list"
      using that by (induction xs) auto
    then show ?thesis using that plain by (auto simp: plain_params_def)
  qed
  obtain u where "S3UrlParse ref_su ''s3://b/k'' a = Inr u"
    using rd net by (auto simp: CreateS3RequestData_def Let_def split: sum.splits)
  then obtain hs where rdh: "rd_headers rd = CreateS3Header ref_su (sv_crypto ?e) (sv_now ?e kk) (u_path u) v
        (u_host u) ''s3'' ''GET'' a '''' '''' '''' '''' '''' @ hs"
    and hs: "hs = (if user_agent (Clone (sv_base ?e) p) \<noteq> '''' then [HInsert ''User-Agent'' (user_agent (Clone (sv_base ?e) p))]
       else []) @ map (\<lambda>(k, v). HSet k v) (extra_headers p)"
    using rd net gcs by (auto simp: CreateS3RequestData_def AddS3HTTPHeaders_def Let_def)
  have "authorization (hs @ [HInsert ''Range'' (range_expr off len)]) = ''''"
    using none hs by simp
  then have auth: "prefix ''AWS4-HMAC-SHA256 Credential=1/'' (authorization (rq_headers rq)) \<longleftrightarrow> has_key_1 a"
    unfolding hd rdh append_assoc CreateS3Header_authorization
    by (simp add: has_key_1_def)
  have pr: "parse_range (range_expr off len) = Some (off, off + len - 1)"
    using range_expr_roundtrip [OF len] off assms by simp
  show "let ats = ?ats in if has_key_1 a then good_answer content tag off len ats \<and>
      (\<forall>r. at_outcome (last ats) = Inr (Some r) \<longrightarrow> status r < 300) else denied ats"
  proof (cases "has_key_1 a")
    case True
    then have ats: "?ats = demo_answer content tag off (off + len - 1)"
      using auth hd pr by (simp add: net demo_s3_net_def)
    moreover have "good_answer content tag off len (demo_answer content tag off (off + len - 1))"
      by (rule demo_answer_good [OF len])
    ultimately show ?thesis using True by (simp add: demo_answer_def Let_def demo_response_def)
  next
    case False
    then have "?ats = [Attempt [RespHead (demo_response 403 Map.empty)] (Inr (Some (demo_response 403 Map.empty)))]"
      using auth by (simp add: net demo_s3_net_def)
    with False show ?thesis by (simp add: denied_def demo_response_def has_request_error_def)
  qed
qed

definition demo_s3_handle :: "nat \<Rightarrow> s3_auth \<Rightarrow> s3h" where
  "demo_s3_handle sz a =
     hfh.extend ((demo_handle ''s3://b/k'' sz ''t'' 4)\<lparr>h_auto_fallback := False\<rparr>)
       (s3h.fields a \<lparr>max_file_size = 0, max_parts_per_file = 1, max_upload_threads = 1\<rparr>
          True False True False False True)"

lemma demo_s3_handle_simps:
  "h_path (demo_s3_handle sz a) = ''s3://b/k''" "h_params (demo_s3_handle sz a) = demo_params"
  "h_etag (demo_s3_handle sz a) = ''t''" "h_length (demo_s3_handle sz a) = sz"
  "h_cached_file (demo_s3_handle sz a) = None" "sh_auth (demo_s3_handle sz a) = a"
  "sh_context (demo_s3_handle sz a)" "sh_refresh_enabled (demo_s3_handle sz a)"
  "\<not> sh_region_redirected (demo_s3_handle sz a)" "buffer_available (demo_s3_handle sz a) = 0"
  by (simp_all add: demo_s3_handle_def demo_defs hfh.defs s3h.defs Let_def)

lemma demo_s3_good:
  assumes "length content < 2 ^ 63"
  shows "s3_good (demo_s3_env content ''t'') ''s3://b/k'' has_key_1 content ''t''
     (demo_s3_handle (length content) (demo_auth 0)) demo_world"
proof -
  let ?e = "demo_s3_env content ''t''" and ?h = "demo_s3_handle (length content) (demo_auth 0)"
  have plain: "plain_params (ApplyRefreshableHTTPParams demo_params
      (SnapshotRefreshableHTTPParams demo_params))" "plain_params demo_params"
    by (simp_all add: plain_params_def ApplyRefreshableHTTPParams_def SnapshotRefreshableHTTPParams_def
        demo_params_def demo_base_def new_httpfs_params_def http_params.defs httpfs_params.defs)
  have "to_string 1 = ''1''" by code_simp
  then have key: "has_key_1 (demo_auth 1)" unfolding has_key_1_def demo_auth_key by simp
  have "renewable ?e has_key_1 ?h demo_world" unfolding renewable_def
  proof
    fix cc
    have ref: "TryRefreshS3AuthMaterial ?e True True ''s3://b/k'' (demo_auth 0)
       (SnapshotRefreshableHTTPParams demo_params) True False (demo_auth 0, demo_params, cc) 0
         = (Inr (True, demo_auth 1, ApplyRefreshableHTTPParams demo_params
              (SnapshotRefreshableHTTPParams demo_params), map_option ClearClients cc), 1)"
      unfolding demo_s3_env_def by (rule demo_refresh_exact)
    show "\<exists>a' p' cc' m'. TryRefreshS3AuthMaterial ?e (sh_context ?h) (sh_context ?h) (h_path ?h) (sh_auth ?h)
         (SnapshotRefreshableHTTPParams (h_params ?h)) (sh_refresh_enabled ?h) (sh_region_redirected ?h)
         (sh_auth ?h, h_params ?h, cc) (w_secrets demo_world) = (Inr (True, a', p', cc'), m') \<and>
       has_key_1 a' \<and> (\<exists>u. S3UrlParse (sv_su ?e) (h_path ?h) a' = Inr u) \<and>
       unsafe_disable_etag_checks p' = unsafe_disable_etag_checks (h_params ?h) \<and> plain_params p'"
      using ref key plain
      by (simp add: demo_s3_handle_simps demo_world_def demo_s3_env_def demo_s3_def demo_parse
          ApplyRefreshableHTTPParams_def)
  qed
  moreover have "s3_answers ?e ''s3://b/k'' has_key_1 content ''t''"
    using demo_s3_answers assms by simp
  ultimately show ?thesis using plain assms
    by (simp add: s3_good_def demo_s3_handle_simps tag_ok_def demo_s3_env_def demo_s3_def demo_parse)
qed

theorem s3_read_exact_witness:
  "\<exists>h' w'. Read (sv_env (demo_s3_env ''abcdefghijklmno'' ''t'')) (s3_ops (demo_s3_env ''abcdefghijklmno'' ''t''))
       3 5 ''......'' (demo_s3_handle 15 (demo_auth 0)) demo_world = (None, ''fgh...'', h', w') \<and>
     \<not> has_key_1 (demo_auth 0)"
proof -
  have g: "s3_good (demo_s3_env ''abcdefghijklmno'' ''t'') ''s3://b/k'' has_key_1 ''abcdefghijklmno'' ''t''
      (demo_s3_handle 15 (demo_auth 0)) demo_world"
  proof -
    have "length ''abcdefghijklmno'' = 15" "length ''abcdefghijklmno'' < 2 ^ 63" by simp_all
    with demo_s3_good [of "''abcdefghijklmno''"] show ?thesis by metis
  qed
  have win: "window_ok ''abcdefghijklmno'' (demo_s3_handle 15 (demo_auth 0))"
    by (simp add: window_ok_def demo_s3_handle_def demo_defs hfh.defs s3h.defs Let_def slice_0)
  have "to_string 0 = ''0''" by code_simp
  then have "\<not> has_key_1 (demo_auth 0)" unfolding has_key_1_def demo_auth_key by simp
  moreover have "\<exists>h' w'. Read (sv_env (demo_s3_env ''abcdefghijklmno'' ''t''))
      (s3_ops (demo_s3_env ''abcdefghijklmno'' ''t'')) 3 5 ''......'' (demo_s3_handle 15 (demo_auth 0)) demo_world
      = (None, overwrite ''......'' 0 (slice ''abcdefghijklmno'' 5 3), h', w')"
    using s3_read_exact [OF g win, of 5 3 "''......''"] by (auto simp: demo_s3_handle_simps)
  ultimately show ?thesis by (simp add: overwrite_def slice_def)
qed

text \<open>A HEAD that is redirected from region eu to region us.\<close>

definition moved_env :: s3_env where
  "moved_env = demo_s3 ((demo_env [] [])\<lparr>e_net := \<lambda>k rq cl.
     \<lparr>attempts = [Attempt [] (Inr (Some (demo_response 301 [''x-amz-bucket-region'' \<mapsto> ''us''])))],
      client_after = cl\<rparr>\<rparr>)"

theorem region_redirect_resigns_witness:
  "\<exists>h2 w1. HeadRequest_s3 moved_env ''s3://b/k'' (demo_s3_handle 15 (demo_auth 0)) demo_world
      = RunS3RequestWithAuthRefresh
        (handle_ops moved_env ''s3://b/k'' ''HEAD'' False (send_plain moved_env HEAD)) False True (h2, w1) \<and>
     region (sh_auth h2) = ''us'' \<and> endpoint (sh_auth h2) = ''s3.us.amazonaws.com''"
proof -
  let ?h = "demo_s3_handle 15 (demo_auth 0)" and ?r = "demo_response 301 [''x-amz-bucket-region'' \<mapsto> ''us'']"
  have su: "sv_su moved_env = ref_su" by (simp add: moved_env_def demo_s3_def)
  obtain rd where rd: "CreateS3HandleRequestData moved_env ''s3://b/k'' ''HEAD'' False (?h, demo_world) = Inr rd"
    "rd_auth_params rd = demo_auth 0"
    by (simp add: CreateS3HandleRequestData_def CreateS3RequestData_def AddS3HTTPHeaders_def Let_def
        demo_s3_handle_simps su demo_parse)
  obtain en h1 where co: "check_out ?h = (en, h1)" by fastforce
  from check_out_only [OF co] obtain c where c: "h1 = ?h\<lparr>h_clients := c\<rparr>" ..
  have "send_plain moved_env HEAD rd (?h, demo_world)
      = (Inr (Some ?r), check_in en (ce_client en) h1, tick demo_world)"
    using co by (simp add: send_plain_def RunHeadRequest_def plain_outcome_def moved_env_def demo_s3_def)
  moreover have "\<not> IsAuthRefreshFailure ?r" by (simp add: IsAuthRefreshFailure_def demo_response_def)
  moreover have "region (demo_auth 0) = ''eu''" by (simp add: demo_auth_def)
  then have "GetRegionRedirect ?r (rd_auth_params rd) = Some ''us''"
    by (simp add: GetRegionRedirect_def rd demo_response_def has_header_def header_value_def)
  ultimately obtain h2 where h2: "HeadRequest_s3 moved_env ''s3://b/k'' ?h demo_world
      = RunS3RequestWithAuthRefresh (handle_ops moved_env ''s3://b/k'' ''HEAD'' False
          (send_plain moved_env HEAD)) False True (h2, tick demo_world)" "region (sh_auth h2) = ''us''"
    "EndpointIsAWS (sv_su moved_env) (endpoint (sh_auth (check_in en (ce_client en) h1)))
       \<longrightarrow> endpoint (sh_auth h2) = ''s3.us.amazonaws.com''"
    using region_redirect_resigns [OF rd(1), of ?r "check_in en (ce_client en) h1" "tick demo_world"
        "CHR ''u''" "''s''"] by auto
  have "suffix ''.amazonaws.com'' ''s3.eu.amazonaws.com''"
    unfolding suffix_def by (intro exI [of _ "''s3.eu''"]) simp
  then have "EndpointIsAWS (sv_su moved_env) (endpoint (sh_auth (check_in en (ce_client en) h1)))"
    by (simp add: c check_in_def demo_s3_handle_simps su EndpointIsAWS_def demo_auth_def ref_su_def)
  with h2 show ?thesis by blast
qed

end
