(* ===== verification/S3Input.thy ===== *)
theory S3Input
  imports S3Handle
begin

text \<open>
  S3HTTPInput, the request side that a handle shares with its multipart upload (src/s3fs.cpp,
  src/include/s3fs.hpp): its region and refresh, and the POST and PUT requests made on it.
\<close>

section \<open>The shared input\<close>

record s3_input =
  ip_auth :: s3_auth
  ip_params :: httpfs_params
  ip_context :: bool
  ip_region_redirected :: bool
  ip_refresh_enabled :: bool

text \<open>What a handle's uploads see of it, and what they leave in it.\<close>

definition input_of :: "'a s3h_scheme \<Rightarrow> s3_input" where
  "input_of h = \<lparr>ip_auth = sh_auth h, ip_params = h_params h, ip_context = si_context h,
     ip_region_redirected = si_region_redirected h, ip_refresh_enabled = si_refresh_enabled h\<rparr>"

definition ip_SetRegion :: "string_util \<Rightarrow> string \<Rightarrow> s3_input \<Rightarrow> s3_input" where
  "ip_SetRegion su r i = i\<lparr>ip_auth := SetRegion su r (ip_auth i), ip_region_redirected := True\<rparr>"

definition ip_TryRefreshAuthParams :: "s3_env \<Rightarrow> string \<Rightarrow> s3_auth \<Rightarrow> s3_refreshable \<Rightarrow>
    s3_input \<times> world \<Rightarrow> (exn + bool) \<times> s3_input \<times> world" where
  "ip_TryRefreshAuthParams e path ra rh s =
     (let i = fst s; w = snd s
      in case TryRefreshS3AuthMaterial e (ip_context i) (ip_context i) path ra rh
               (ip_refresh_enabled i) (ip_region_redirected i)
               (ip_auth i, ip_params i, None) (w_secrets w) of
           (Inl ex, m) \<Rightarrow> (Inl ex, i, w\<lparr>w_secrets := m\<rparr>)
         | (Inr (b, a, p, cc), m) \<Rightarrow>
             (Inr b, i\<lparr>ip_auth := a, ip_params := p\<rparr>, w\<lparr>w_secrets := m\<rparr>))"

section \<open>PUT and POST\<close>

text \<open>
  The retry loop on the input. The state is the caller's result string (POST), the input and the
  world; a request on the input takes no client from a cache.
\<close>

definition input_ops :: "s3_env \<Rightarrow> string \<Rightarrow> string \<Rightarrow> string \<Rightarrow> string \<Rightarrow> string \<Rightarrow>
    (s3_request \<Rightarrow> 'r \<times> s3_input \<times> world \<Rightarrow> (exn + response option) \<times> 'r \<times> s3_input \<times> world) \<Rightarrow>
    ('r \<times> s3_input \<times> world) retry_ops" where
  "input_ops e s3_url req_method query payload_hash content_type request =
     \<lparr>ro_create = (\<lambda>(_, i, w). CreateS3RequestData e (w_clock w) (ip_auth i) (ip_params i) s3_url
                     req_method query payload_hash content_type ''''),
      ro_request = request,
      ro_refresh = (\<lambda>a rf (r, s). (case ip_TryRefreshAuthParams e s3_url a rf s of (b, s1) \<Rightarrow> (b, r, s1))),
      ro_set_region = (\<lambda>reg (r, i, w). (r, ip_SetRegion (sv_su e) reg i, w))\<rparr>"

abbreviation (input) octet_stream :: string where "octet_stream \<equiv> ''application/octet-stream''"

definition send_put :: "s3_env \<Rightarrow> bytes \<Rightarrow> s3_request \<Rightarrow> unit \<times> s3_input \<times> world \<Rightarrow>
    (exn + response option) \<times> unit \<times> s3_input \<times> world" where
  "send_put e buffer rd s =
     (let (_, i, w) = s
      in (plain_outcome (RunPutRequest (rd_http_url rd) (rd_headers rd) (rd_http_params rd) buffer
            octet_stream (\<lambda>rq. e_net (sv_env e) (w_clock w) rq None)), (), i, tick w))"

text \<open>
  post_net is the transport for POST, which also fills the answer buffer. The answer's body becomes
  the result of the request.
\<close>

type_synonym post_transport = "nat \<Rightarrow> http_request \<Rightarrow> transfer \<times> bytes"

definition send_post :: "post_transport \<Rightarrow> bytes \<Rightarrow> s3_request \<Rightarrow> bytes \<times> s3_input \<times> world \<Rightarrow>
    (exn + response option) \<times> bytes \<times> s3_input \<times> world" where
  "send_post post_net buffer rd s =
     (let (_, i, w) = s;
          (tr, out) = RunPostRequest (rd_http_url rd) (rd_headers rd) (rd_http_params rd) buffer
                        (post_net (w_clock w))
      in case plain_outcome tr of
           Inl ex \<Rightarrow> (Inl ex, '''', i, tick w)
         | Inr ro \<Rightarrow> (Inr (map_option (\<lambda>r. r\<lparr>body := out\<rparr>) ro), out, i, tick w))"

definition PutRequest_s3 :: "s3_env \<Rightarrow> string \<Rightarrow> bytes \<Rightarrow> string \<Rightarrow> s3_input \<times> world \<Rightarrow>
    (exn + response option) \<times> s3_input \<times> world" where
  "PutRequest_s3 e url buffer http_query s =
     (case RunS3RequestWithAuthRefresh
             (input_ops e url ''PUT'' http_query (GetPayloadHash (sv_crypto e) buffer) octet_stream
                (send_put e buffer)) False False ((), s) of
        (res, _, s1) \<Rightarrow> (res, s1))"

definition PostRequest_s3 :: "s3_env \<Rightarrow> post_transport \<Rightarrow> string \<Rightarrow> bytes \<Rightarrow> string \<Rightarrow> s3_input \<times> world \<Rightarrow>
    (exn + response option) \<times> bytes \<times> s3_input \<times> world" where
  "PostRequest_s3 e post_net url buffer http_query s =
     RunS3RequestWithAuthRefresh
       (input_ops e url ''POST'' http_query (GetPayloadHash (sv_crypto e) buffer) octet_stream
          (send_post post_net buffer)) False False ('''', s)"

section \<open>They follow the retry protocol\<close>

lemma ip_refresh_clock:
  "ip_TryRefreshAuthParams e path ra rh s = (b, s1) \<Longrightarrow> w_clock (snd s1) = w_clock (snd s)"
  by (auto simp: ip_TryRefreshAuthParams_def Let_def split: prod.splits sum.splits)

lemma send_put_clock: "send_put e buffer rd s = (res, s1) \<Longrightarrow> w_clock (snd (snd s1)) = Suc (w_clock (snd (snd s)))"
  by (auto simp: send_put_def Let_def tick_def split: prod.splits)

lemma send_post_clock:
  "send_post post_net buffer rd s = (res, s1) \<Longrightarrow> w_clock (snd (snd s1)) = Suc (w_clock (snd (snd s)))"
  by (auto simp: send_post_def Let_def tick_def split: prod.splits sum.splits)

interpretation put_retry: retry_protocol "input_ops e url m q hash ct (send_put e buffer)"
    "\<lambda>s. w_clock (snd (snd s))" "\<lambda>_. True" for e url m q hash ct buffer
  by unfold_locales
    (auto simp: input_ops_def dest: send_put_clock ip_refresh_clock split: prod.splits)

interpretation post_retry: retry_protocol "input_ops e url m q hash ct (send_post post_net buffer)"
    "\<lambda>s. w_clock (snd (snd s))" "\<lambda>_. True" for e url m q hash ct post_net buffer
  by unfold_locales
    (auto simp: input_ops_def dest: send_post_clock ip_refresh_clock split: prod.splits)

lemma flags_left_start: "flags_left False False = 2"
  by (simp add: flags_left_def)

lemma put_request_bounded: "w_clock (snd (snd (PutRequest_s3 e url buffer q (i, w)))) \<le> w_clock w + 3"
proof -
  let ?ops = "input_ops e url ''PUT'' q (GetPayloadHash (sv_crypto e) buffer) octet_stream (send_put e buffer)"
  obtain res s1 where r: "RunS3RequestWithAuthRefresh ?ops False False ((), i, w) = (res, s1)" by (metis surj_pair)
  from put_retry.bounded [OF TrueI this] have "w_clock (snd (snd s1)) \<le> w_clock w + 3"
    by (simp add: flags_left_start)
  with r show ?thesis by (auto simp: PutRequest_s3_def split: prod.split)
qed

lemma post_request_bounded:
  "w_clock (snd (snd (snd (PostRequest_s3 e post_net url buffer q (i, w))))) \<le> w_clock w + 3"
proof -
  let ?ops = "input_ops e url ''POST'' q (GetPayloadHash (sv_crypto e) buffer) octet_stream
      (send_post post_net buffer)"
  obtain res s1 where r: "RunS3RequestWithAuthRefresh ?ops False False ('''', i, w) = (res, s1)" by (metis surj_pair)
  from post_retry.bounded [OF TrueI this] have "w_clock (snd (snd s1)) \<le> w_clock w + 3"
    by (simp add: flags_left_start)
  with r show ?thesis by (simp add: PostRequest_s3_def)
qed

end
