(* ===== verification/S3Upload.thy ===== *)
theory S3Upload
  imports S3Input
begin

text \<open>
  The multipart upload (src/s3_multi_part_upload.cpp, S3FileSystem::Write in src/s3fs.cpp): the
  write buffers, the upload's requests, and the interleavings of the writing thread with the
  upload threads as a step relation.
\<close>

section \<open>State\<close>

abbreviation w16 :: nat where "w16 \<equiv> 65536"

record write_buffer =
  wb_part :: nat
  wb_idx :: nat
  wb_start :: nat
  wb_data :: bytes
  wb_uploading :: bool

definition new_write_buffer :: "nat \<Rightarrow> nat \<Rightarrow> write_buffer" where
  "new_write_buffer start buffer_size =
     \<lparr>wb_part = start div buffer_size, wb_idx = 0, wb_start = start,
      wb_data = replicate buffer_size (CHR 0x00),
      wb_uploading = False\<rparr>"

text \<open>What an upload has sent: its PUT and POST requests with their outcomes.\<close>

datatype sent_request = SentPut string bytes "exn + response option"
  | SentPost string bytes "exn + response option" bytes

text \<open>
  S3MultiPartUpload with the file offset and length of its handle. up_buffers is the unordered_map
  in iteration order, up_flying the buffers of upload threads whose request is not finished,
  up_ending the number of threads that have yet to notify, and up_terminated tells that
  an exception left an upload thread (std::terminate).
\<close>

record upload =
  up_part_size :: nat
  up_max_threads :: nat
  up_offset :: nat
  up_length :: nat
  up_initialized :: bool
  up_id :: string
  up_buffers :: "(nat \<times> write_buffer) list"
  up_in_progress :: nat
  up_etags :: "nat \<rightharpoonup> string"
  up_uploaded :: nat
  up_finalized :: bool
  up_errors :: "exn list"
  up_flying :: "write_buffer list"
  up_ending :: nat
  up_terminated :: bool
  up_input :: "s3_input \<times> world"
  up_sent :: "sent_request list"

definition new_upload :: "nat \<Rightarrow> nat \<Rightarrow> s3_input \<times> world \<Rightarrow> upload" where
  "new_upload part_size max_threads inp =
     \<lparr>up_part_size = part_size, up_max_threads = max_threads, up_offset = 0, up_length = 0,
      up_initialized = False, up_id = '''', up_buffers = [], up_in_progress = 0,
      up_etags = Map.empty, up_uploaded = 0, up_finalized = False, up_errors = [], up_flying = [],
      up_ending = 0, up_terminated = False, up_input = inp, up_sent = []\<rparr>"

text \<open>
  The environment: that of S3, the POST transport, the path, and the exception DuckDB's error
  manager rethrows from the errors it was given.
\<close>

record upload_env =
  ue_s3 :: s3_env
  ue_post :: post_transport
  ue_path :: string
  ue_rethrow :: "exn list \<Rightarrow> exn"

section \<open>Buffers\<close>

text \<open>GetBuffer takes a uint16_t; the new buffer's start is computed from it.\<close>

definition GetBuffer :: "nat \<Rightarrow> upload \<Rightarrow> write_buffer \<times> upload" where
  "GetBuffer idx u =
     (let write_buffer_idx = idx mod w16
      in case map_of (up_buffers u) write_buffer_idx of
           Some b \<Rightarrow> (b, u)
         | None \<Rightarrow>
             (let b = new_write_buffer (mul64 write_buffer_idx (up_part_size u)) (up_part_size u)
              in (b, u\<lparr>up_buffers := up_buffers u @ [(write_buffer_idx, b)]\<rparr>)))"

text \<open>A buffer is shared: a change to it shows in the map, where it still is there.\<close>

definition put_buffer :: "nat \<Rightarrow> write_buffer \<Rightarrow> upload \<Rightarrow> upload" where
  "put_buffer k b u = u\<lparr>up_buffers := map (\<lambda>(j, c). if j = k then (j, b) else (j, c)) (up_buffers u)\<rparr>"

definition drop_buffer :: "nat \<Rightarrow> upload \<Rightarrow> upload" where
  "drop_buffer k u = u\<lparr>up_buffers := filter (\<lambda>(j, _). j \<noteq> k) (up_buffers u)\<rparr>"

section \<open>Requests of the upload\<close>

definition upload_put :: "upload_env \<Rightarrow> bytes \<Rightarrow> string \<Rightarrow> upload \<Rightarrow> (exn + response option) \<times> upload" where
  "upload_put e data query u =
     (case PutRequest_s3 (ue_s3 e) (ue_path e) data query (up_input u) of
        (res, inp) \<Rightarrow> (res, u\<lparr>up_input := inp, up_sent := up_sent u @ [SentPut query data res]\<rparr>))"

definition upload_post :: "upload_env \<Rightarrow> bytes \<Rightarrow> string \<Rightarrow> upload \<Rightarrow>
    (exn + response option) \<times> bytes \<times> upload" where
  "upload_post e data query u =
     (case PostRequest_s3 (ue_s3 e) (ue_post e) (ue_path e) data query (up_input u) of
        (res, out, inp) \<Rightarrow>
          (res, out, u\<lparr>up_input := inp, up_sent := up_sent u @ [SentPost query data res out]\<rparr>))"

definition InitializeMultipartUpload :: "upload_env \<Rightarrow> upload \<Rightarrow> (exn + string) \<times> upload" where
  "InitializeMultipartUpload e u =
     (case upload_post e [] ''uploads='' u of
        (Inl ex, _, u1) \<Rightarrow> (Inl ex, u1)
      | (Inr None, _, u1) \<Rightarrow> (Inl (Exn Undefined ''no response'' None), u1)
      | (Inr (Some r), result, u1) \<Rightarrow>
          (if status r \<noteq> OK_200 then (Inl (Exn ExHTTP ''Unable to connect to URL'' (Some r)), u1)
           else
             (case str_find result ''<UploadId>'' 0 of
                None \<Rightarrow> (Inl (Exn ExHTTP ''Unexpected response while initializing S3 multipart upload'' None), u1)
              | Some open_pos \<Rightarrow>
                  (case str_find result ''</UploadId>'' open_pos of
                     None \<Rightarrow> (Inl (Exn ExHTTP ''Unexpected response while initializing S3 multipart upload'' None), u1)
                   | Some close_pos \<Rightarrow>
                       (Inr (substr result (open_pos + 10) (close_pos - (open_pos + 10))),
                        u1\<lparr>up_initialized := True\<rparr>)))))"

text \<open>The list of parts, or none when an etag is missing.\<close>

fun part_list :: "(nat \<rightharpoonup> string) \<Rightarrow> nat list \<Rightarrow> string option" where
  "part_list etags [] = Some ''''"
| "part_list etags (i # is) =
     (case etags i of
        None \<Rightarrow> None
      | Some etag \<Rightarrow>
          (case part_list etags is of
             None \<Rightarrow> None
           | Some rest \<Rightarrow> Some (''<Part><ETag>'' @ etag @ ''</ETag><PartNumber>'' @ to_string (i + 1) @
                                ''</PartNumber></Part>'' @ rest)))"

definition complete_body :: "string \<Rightarrow> string" where
  "complete_body parts =
     ''<CompleteMultipartUpload xmlns='' @ QUOTE @ ''http://s3.amazonaws.com/doc/2006-03-01/'' @ QUOTE @ ''>'' @
     parts @ ''</CompleteMultipartUpload>''"

text \<open>The loop around the request; n is what the setting of retries leaves.\<close>

fun complete_upload :: "upload_env \<Rightarrow> string \<Rightarrow> string \<Rightarrow> nat \<Rightarrow> upload \<Rightarrow> exn option \<times> upload" where
  "complete_upload e req_body query n u =
     (case upload_post e req_body query u of
        (Inl ex, _, u1) \<Rightarrow> (Some ex, u1)
      | (Inr ro, result, u1) \<Rightarrow>
          (if str_find result ''<CompleteMultipartUploadResult'' 0 \<noteq> None then (None, u1)
           else (case ro of
                   None \<Rightarrow> (Some (Exn Undefined ''no response'' None), u1)
                 | Some r \<Rightarrow>
                     (if status r = OK_200 \<and> TryGetS3ErrorCode result = Some ''InternalError'' \<and> 0 < n
                      then complete_upload e req_body query (n - 1) u1
                      else (Some (Exn ExHTTP ''Unexpected response during S3 multipart upload finalization''
                                    (Some r)), u1)))))"

declare complete_upload.simps [simp del]

definition FinalizeMultipartUpload :: "upload_env \<Rightarrow> upload \<Rightarrow> exn option \<times> upload" where
  "FinalizeMultipartUpload e u =
     (if up_finalized u then (None, u)
      else
        (let u1 = u\<lparr>up_finalized := True\<rparr>
         in case part_list (up_etags u) [0..<up_uploaded u] of
              None \<Rightarrow> (Some (Exn ExIO ''Unknown part number'' None), u1)
            | Some parts \<Rightarrow>
                complete_upload e (complete_body parts)
                  (''uploadId='' @ UrlEncode (sv_su (ue_s3 e)) (up_id u) True)
                  (retries (ip_params (fst (up_input u)))) u1))"

section \<open>Uploading a buffer\<close>

text \<open>The result is the exception that leaves the function, if any.\<close>

definition UploadBufferImplementation :: "upload_env \<Rightarrow> write_buffer \<Rightarrow> string \<Rightarrow> bool \<Rightarrow> upload \<Rightarrow>
    exn option \<times> upload" where
  "UploadBufferImplementation e b query single_upload u =
     (let failed = (\<lambda>ex u.
            if single_upload \<or> ex_type ex \<noteq> ExIO \<and> ex_type ex \<noteq> ExHTTP then (Some ex, u)
            else (None, u\<lparr>up_errors := up_errors u @ [ex]\<rparr>))
      in case upload_put e (take (wb_idx b) (wb_data b)) query u of
           (Inl ex, u1) \<Rightarrow> failed ex u1
         | (Inr None, u1) \<Rightarrow> (Some (Exn Undefined ''no response'' None), u1)
         | (Inr (Some r), u1) \<Rightarrow>
             (if status r \<noteq> OK_200 then failed (Exn ExHTTP ''Unable to connect to URL'' (Some r)) u1
              else if \<not> has_header r ''ETag''
              then failed (Exn ExIO ''Unexpected response when uploading part to S3'' None) u1
              else
                (let part = wb_part b mod w16; etag = header_value r ''ETag''
                 in (None, u1\<lparr>up_etags := (case up_etags u1 part of
                                 None \<Rightarrow> (up_etags u1)(part \<mapsto> etag) | Some _ \<Rightarrow> up_etags u1),
                               up_uploaded := (up_uploaded u1 + 1) mod w16\<rparr>))))"

definition NotifyUploadsInProgress :: "upload \<Rightarrow> exn option \<times> upload" where
  "NotifyUploadsInProgress u =
     (if up_in_progress u = 0
      then (Some (Exn ExInternal ''uploads_in_progress decremented'' None), u)
      else (None, u\<lparr>up_in_progress := up_in_progress u - 1\<rparr>))"

definition UploadSingleBuffer :: "upload_env \<Rightarrow> write_buffer \<Rightarrow> upload \<Rightarrow> exn option \<times> upload" where
  "UploadSingleBuffer e b u = UploadBufferImplementation e b '''' True u"

definition part_query :: "upload_env \<Rightarrow> nat \<Rightarrow> string \<Rightarrow> string" where
  "part_query e part upload_id =
     ''partNumber='' @ to_string (part + 1) @ ''&uploadId='' @ UrlEncode (sv_su (ue_s3 e)) upload_id True"

text \<open>
  UploadBuffer, the body of an upload thread, in the two steps other threads can come between:
  the request of the k-th flying buffer with its bookkeeping, and the notification.
\<close>

definition UploadBuffer :: "upload_env \<Rightarrow> nat \<Rightarrow> upload \<Rightarrow> upload" where
  "UploadBuffer e k u =
     (let b = up_flying u ! k; u0 = u\<lparr>up_flying := take k (up_flying u) @ drop (Suc k) (up_flying u)\<rparr>
      in case UploadBufferImplementation e b (part_query e (wb_part b) (up_id u)) False u0 of
           (Some _, u1) \<Rightarrow> u1\<lparr>up_terminated := True\<rparr>
         | (None, u1) \<Rightarrow> u1\<lparr>up_ending := Suc (up_ending u1)\<rparr>)"

definition UploadBuffer_notify :: "upload \<Rightarrow> upload" where
  "UploadBuffer_notify u =
     (case NotifyUploadsInProgress (u\<lparr>up_ending := up_ending u - 1\<rparr>) of
        (Some _, u1) \<Rightarrow> u1\<lparr>up_terminated := True\<rparr>
      | (None, u1) \<Rightarrow> u1)"

section \<open>The writing thread\<close>

text \<open>
  Where the writing thread is: at the head of Write's loop, with the bytes left and their location;
  in FlushBuffer, about to claim the buffer, waiting for a free upload thread, and starting one;
  in Finalize, at its start, flushing the collected buffers, and waiting for the uploads; and back
  from a call, with or without an exception. FlushBuffer returns to Write, which then counts the n
  bytes and goes on, or to FlushAllBuffers.
\<close>

datatype return_to = InWrite bytes nat nat | InFlushAll "write_buffer list"

datatype pc = Writing bytes nat | Claiming write_buffer return_to | WaitingForThread write_buffer return_to
  | Starting write_buffer return_to | Finalizing | FlushingAll "write_buffer list" | AwaitingUploads
  | Returned | Threw exn

definition count_bytes :: "nat \<Rightarrow> upload \<Rightarrow> upload" where
  "count_bytes n u = u\<lparr>up_offset := add64 (up_offset u) n, up_length := add64 (up_length u) n\<rparr>"

fun go_back :: "return_to \<Rightarrow> upload \<Rightarrow> pc \<times> upload" where
  "go_back (InWrite rest n loc) u = (Writing rest (add64 loc n), count_bytes n u)"
| "go_back (InFlushAll bs) u = (FlushingAll bs, u)"

text \<open>One turn of Write's loop, up to FlushBuffer where the buffer is full.\<close>

definition write_turn :: "bytes \<Rightarrow> nat \<Rightarrow> upload \<Rightarrow> pc \<times> upload" where
  "write_turn data loc u =
     (if data = [] then (Returned, u)
      else if loc \<noteq> up_offset u
      then (Threw (Exn ExInternal ''Non-sequential write not supported!'' None), u)
      else if up_part_size u = 0 then (Threw (Exn Undefined ''division by zero'' None), u)
      else
        (let k = loc div up_part_size u;
             (b, u1) = GetBuffer k u;
             idx_to_write = sub64 loc (wb_start b);
             n = min (length data) (sub64 (up_part_size u) idx_to_write)
         in if length (wb_data b) < idx_to_write + n
            then (Threw (Exn Undefined ''copy outside a buffer'' None), u1)
            else
              (let b1 = b\<lparr>wb_data := overwrite (wb_data b) idx_to_write (take n data),
                          wb_idx := add64 (wb_idx b) n\<rparr>;
                   u2 = put_buffer (k mod w16) b1 u1
               in if up_part_size u \<le> wb_idx b1 then (Claiming b1 (InWrite (drop n data) n loc), u2)
                  else (Writing (drop n data) (add64 loc n), count_bytes n u2))))"

definition RethrowIOError :: "upload_env \<Rightarrow> upload \<Rightarrow> exn option" where
  "RethrowIOError e u = (if up_errors u \<noteq> [] then Some (ue_rethrow e (up_errors u)) else None)"

text \<open>FlushBuffer up to the wait: claim the buffer, check for errors, take it out of the map.\<close>

definition claim_turn :: "upload_env \<Rightarrow> write_buffer \<Rightarrow> return_to \<Rightarrow> upload \<Rightarrow> pc \<times> upload" where
  "claim_turn e b back u =
     (if wb_idx b = 0 \<or> wb_uploading b then go_back back u
      else
        (let b1 = b\<lparr>wb_uploading := True\<rparr>; u1 = put_buffer (wb_part b mod w16) b1 u
         in case RethrowIOError e u of
              Some ex \<Rightarrow> (Threw ex, u1)
            | None \<Rightarrow> (WaitingForThread b1 back, drop_buffer (wb_part b mod w16) u1)))"

definition start_turn :: "upload_env \<Rightarrow> write_buffer \<Rightarrow> return_to \<Rightarrow> upload \<Rightarrow> pc \<times> upload" where
  "start_turn e b back u =
     (let start = (\<lambda>u. go_back back (u\<lparr>up_flying := up_flying u @ [b]\<rparr>))
      in if up_initialized u then start u
         else (case InitializeMultipartUpload e u of
                 (Inr upload_id, u1) \<Rightarrow> start (u1\<lparr>up_id := upload_id\<rparr>)
               | (Inl ex, u1) \<Rightarrow>
                   (case NotifyUploadsInProgress u1 of
                      (Some ex2, u2) \<Rightarrow> (Threw ex2, u2) | (None, u2) \<Rightarrow> (Threw ex, u2))))"

text \<open>Finalize up to the loop of FlushAllBuffers; a single buffer is uploaded at once.\<close>

definition finalize_turn :: "upload_env \<Rightarrow> upload \<Rightarrow> pc \<times> upload" where
  "finalize_turn e u =
     (if up_finalized u then (Returned, u)
      else
        (let to_flush = map snd (up_buffers u)
         in if up_initialized u then (FlushingAll to_flush, u)
            else if length to_flush = 1 \<and> kms_key_id (ip_auth (fst (up_input u))) = ''''
            then (case UploadSingleBuffer e (hd to_flush) u of
                    (Some ex, u1) \<Rightarrow> (Threw ex, u1)
                  | (None, u1) \<Rightarrow> (Returned, u1\<lparr>up_finalized := True\<rparr>))
            else (case InitializeMultipartUpload e u of
                    (Inl ex, u1) \<Rightarrow> (Threw ex, u1)
                  | (Inr upload_id, u1) \<Rightarrow> (FlushingAll to_flush, u1\<lparr>up_id := upload_id\<rparr>))))"

text \<open>The end of Finalize, when no upload is in progress.\<close>

definition complete_turn :: "upload_env \<Rightarrow> upload \<Rightarrow> pc \<times> upload" where
  "complete_turn e u =
     (case RethrowIOError e u of
        Some ex \<Rightarrow> (Threw ex, u)
      | None \<Rightarrow>
          (if up_uploaded u \<noteq> 0
           then (case FinalizeMultipartUpload e u of
                   (Some ex, u1) \<Rightarrow> (Threw ex, u1) | (None, u1) \<Rightarrow> (Returned, u1))
           else (Returned, u)))"

text \<open>One step of the writing thread; None while it waits on a condition variable or is done.\<close>

fun main_turn :: "upload_env \<Rightarrow> pc \<Rightarrow> upload \<Rightarrow> (pc \<times> upload) option" where
  "main_turn e (Writing data loc) u = Some (write_turn data loc u)"
| "main_turn e (Claiming b back) u = Some (claim_turn e b back u)"
| "main_turn e (WaitingForThread b back) u =
     (if up_max_threads u \<le> up_in_progress u then None
      else Some (Starting b back, u\<lparr>up_in_progress := (up_in_progress u + 1) mod w16\<rparr>))"
| "main_turn e (Starting b back) u = Some (start_turn e b back u)"
| "main_turn e Finalizing u = Some (finalize_turn e u)"
| "main_turn e (FlushingAll []) u = Some (AwaitingUploads, u)"
| "main_turn e (FlushingAll (b # bs)) u =
     Some (if wb_uploading b then FlushingAll bs else Claiming b (InFlushAll bs), u)"
| "main_turn e AwaitingUploads u = (if up_in_progress u \<noteq> 0 then None else Some (complete_turn e u))"
| "main_turn e Returned u = None"
| "main_turn e (Threw ex) u = None"

section \<open>Interleavings\<close>

text \<open>
  A client: sequential writes, then Finalize (FileSync, Close), which may be repeated. After an
  exception it writes no more.
\<close>

datatype call = WriteCall bytes nat | FinalizeCall

fun start_call :: "call \<Rightarrow> pc" where
  "start_call (WriteCall data loc) = Writing data loc"
| "start_call FinalizeCall = Finalizing"

fun is_write :: "call \<Rightarrow> bool" where
  "is_write (WriteCall data loc) = True"
| "is_write FinalizeCall = False"

type_synonym config = "call list \<times> pc \<times> upload"

inductive upload_step :: "upload_env \<Rightarrow> config \<Rightarrow> config \<Rightarrow> bool" for e :: upload_env where
  main_step: "main_turn e p u = Some (p', u') \<Longrightarrow> \<not> up_terminated u \<Longrightarrow>
     upload_step e (cs, p, u) (cs, p', u')"
| call_step: "\<not> up_terminated u \<Longrightarrow> upload_step e (c # cs, Returned, u) (cs, start_call c, u)"
| abandon_step: "\<not> up_terminated u \<Longrightarrow>
     upload_step e (c # cs, Threw ex, u) (if is_write c then (cs, Threw ex, u) else (cs, Finalizing, u))"
| thread_step: "k < length (up_flying u) \<Longrightarrow> \<not> up_terminated u \<Longrightarrow>
     upload_step e (cs, p, u) (cs, p, UploadBuffer e k u)"
| notify_step: "0 < up_ending u \<Longrightarrow> \<not> up_terminated u \<Longrightarrow>
     upload_step e (cs, p, u) (cs, p, UploadBuffer_notify u)"

inductive_cases upload_stepE: "upload_step e (cs, p, u) c'"

text \<open>Runs from a new upload.\<close>

inductive upload_reachable :: "upload_env \<Rightarrow> config \<Rightarrow> config \<Rightarrow> bool" for e :: upload_env and c0 :: config where
  reach_start: "upload_reachable e c0 c0"
| reach_step: "upload_reachable e c0 c \<Longrightarrow> upload_step e c c' \<Longrightarrow> upload_reachable e c0 c'"

end
