(* ===== verification/S3UploadRun.thy ===== *)
theory S3UploadRun
  imports S3Upload
begin

text \<open>
  Schedules of the multipart upload: an executable scheduler for the interleavings of S3Upload, and
  the runs of a small upload on a concrete service, one part at a time.
\<close>

section \<open>The scheduler\<close>

datatype move = MainMove | CallMove | ThreadMove nat | NotifyMove

fun make_move :: "upload_env \<Rightarrow> move \<Rightarrow> config \<Rightarrow> config option" where
  "make_move e MainMove (cs, p, u) = map_option (\<lambda>(p', u'). (cs, p', u')) (main_turn e p u)"
| "make_move e CallMove (c # cs, Returned, u) = Some (cs, start_call c, u)"
| "make_move e CallMove (c # cs, Threw ex, u) = Some (if is_write c then (cs, Threw ex, u) else (cs, Finalizing, u))"
| "make_move e CallMove _ = None"
| "make_move e (ThreadMove k) (cs, p, u) =
     (if k < length (up_flying u) then Some (cs, p, UploadBuffer e k u) else None)"
| "make_move e NotifyMove (cs, p, u) = (if 0 < up_ending u then Some (cs, p, UploadBuffer_notify u) else None)"

fun run_moves :: "upload_env \<Rightarrow> move list \<Rightarrow> config \<Rightarrow> config option" where
  "run_moves e [] c = Some c"
| "run_moves e (m # ms) c =
     (if up_terminated (snd (snd c)) then None
      else case make_move e m c of None \<Rightarrow> None | Some c' \<Rightarrow> run_moves e ms c')"

lemma make_move_step:
  assumes "make_move e m c = Some c'" and "\<not> up_terminated (snd (snd c))"
  shows "upload_step e c c'"
proof (cases "(e, m, c)" rule: make_move.cases)
  case (3 e' d cs ex u)
  then show ?thesis using assms abandon_step [of u e d cs ex] by (auto split: if_splits)
qed (use assms in \<open>auto intro: main_step call_step thread_step notify_step split: if_splits\<close>)

lemma run_moves_reachable:
  assumes "run_moves e ms c = Some c'" and "upload_reachable e c0 c"
  shows "upload_reachable e c0 c'"
  using assms
  by (induction e ms c rule: run_moves.induct)
    (auto split: if_splits option.splits intro: reach_step make_move_step)

section \<open>A concrete service\<close>

text \<open>
  Every PUT is answered with an ETag; the answer to a POST serves both to create an upload, with
  the id 7, and to complete it.
\<close>

definition tag_response :: response where
  "tag_response = demo_response 200 [''ETag'' \<mapsto> ''t'']"

definition put_env :: env where
  "put_env = (demo_env [] [])\<lparr>e_net := \<lambda>k rq cl.
     \<lparr>attempts = [Attempt [] (Inr (Some tag_response))], client_after = cl\<rparr>\<rparr>"

definition demo_upload :: upload_env where
  "demo_upload = \<lparr>ue_s3 = demo_s3 put_env,
     ue_post = (\<lambda>k rq. (\<lparr>attempts = [Attempt [] (Inr (Some tag_response))], client_after = None\<rparr>,
        ''<UploadId>7</UploadId><CompleteMultipartUploadResult/>'')),
     ue_path = ''s3://b/k'', ue_rethrow = hd\<rparr>"

definition up_demo_input :: s3_input where
  "up_demo_input = \<lparr>ip_auth = demo_auth 0, ip_params = demo_params, ip_context = True,
     ip_region_redirected = False, ip_refresh_enabled = True\<rparr>"

lemma tag_stops: "\<not> IsAuthRefreshFailure tag_response" "GetRegionRedirect tag_response a = None"
  "\<not> IsAuthRefreshFailure (tag_response\<lparr>body := b\<rparr>)" "GetRegionRedirect (tag_response\<lparr>body := b\<rparr>) a = None"
  by (simp_all add: IsAuthRefreshFailure_def GetRegionRedirect_def tag_response_def demo_response_def has_header_def)

lemma demo_stops:
  assumes "ro_create ops s = Inr rd" and "ro_request ops rd s = (Inr (Some r), s1)"
    and "\<not> IsAuthRefreshFailure r" and "\<And>a. GetRegionRedirect r a = None"
  shows "RunS3RequestWithAuthRefresh ops ra rr s = (Inr (Some r), s1)"
  using assms
  by (simp add: RunS3RequestWithAuthRefresh.simps [of ops ra rr s] retry_turn_def on_answer_def answer_region_def)

lemma demo_put:
  "PutRequest_s3 (ue_s3 demo_upload) (ue_path demo_upload) d q (up_demo_input, w) =
     (Inr (Some tag_response), up_demo_input, tick w)"
proof -
  let ?ops = "input_ops (demo_s3 put_env) ''s3://b/k'' ''PUT'' q (GetPayloadHash demo_crypto d) octet_stream
      (send_put (demo_s3 put_env) d)"
  obtain rd where rd: "ro_create ?ops ((), up_demo_input, w) = Inr rd"
    by (simp add: input_ops_def CreateS3RequestData_def AddS3HTTPHeaders_def Let_def demo_s3_def demo_parse
        up_demo_input_def)
  have "ro_request ?ops rd ((), up_demo_input, w) = (Inr (Some tag_response), (), up_demo_input, tick w)"
    by (simp add: input_ops_def send_put_def RunPutRequest_def plain_outcome_def demo_s3_def put_env_def)
  from demo_stops [OF rd this tag_stops(1,2)] show ?thesis
    by (simp add: PutRequest_s3_def demo_upload_def demo_s3_def)
qed

lemma demo_post:
  "PostRequest_s3 (ue_s3 demo_upload) (ue_post demo_upload) (ue_path demo_upload) d q (up_demo_input, w) =
     (Inr (Some (tag_response\<lparr>body := ''<UploadId>7</UploadId><CompleteMultipartUploadResult/>''\<rparr>)),
      ''<UploadId>7</UploadId><CompleteMultipartUploadResult/>'', up_demo_input, tick w)"
proof -
  let ?ops = "input_ops (demo_s3 put_env) ''s3://b/k'' ''POST'' q (GetPayloadHash demo_crypto d) octet_stream
      (send_post (ue_post demo_upload) d)"
  obtain rd where rd: "ro_create ?ops ('''', up_demo_input, w) = Inr rd"
    by (simp add: input_ops_def CreateS3RequestData_def AddS3HTTPHeaders_def Let_def demo_s3_def demo_parse
        up_demo_input_def)
  have "ro_request ?ops rd ('''', up_demo_input, w) =
      (Inr (Some (tag_response\<lparr>body := ''<UploadId>7</UploadId><CompleteMultipartUploadResult/>''\<rparr>)),
       ''<UploadId>7</UploadId><CompleteMultipartUploadResult/>'', up_demo_input, tick w)"
    by (simp add: input_ops_def send_post_def RunPostRequest_def plain_outcome_def demo_upload_def)
  from demo_stops [OF rd this tag_stops(3,4)] show ?thesis
    by (simp add: PostRequest_s3_def demo_upload_def demo_s3_def)
qed

lemma demo_tags:
  "str_find ''<UploadId>7</UploadId><CompleteMultipartUploadResult/>'' ''<UploadId>'' 0 = Some 0"
  "str_find ''<UploadId>7</UploadId><CompleteMultipartUploadResult/>'' ''</UploadId>'' 0 = Some 11"
  "substr ''<UploadId>7</UploadId><CompleteMultipartUploadResult/>'' 10 1 = ''7''"
  "str_find ''<UploadId>7</UploadId><CompleteMultipartUploadResult/>'' ''<CompleteMultipartUploadResult'' 0 = Some 22"
  by code_simp+

lemma tag_response_fields: "status tag_response = OK_200" "hdrs tag_response = [''ETag'' \<mapsto> ''t'']"
  by (simp_all add: tag_response_def demo_response_def)

lemmas demo_turns = demo_put demo_post demo_tags tag_response_fields upload_put_def upload_post_def
  InitializeMultipartUpload_def

section \<open>An upload in two parts\<close>

definition demo_calls :: "call list" where
  "demo_calls = [WriteCall ''ab'' 0, WriteCall ''c'' 2, FinalizeCall]"

definition demo_start :: config where
  "demo_start = (demo_calls, Returned, new_upload 2 1 (up_demo_input, demo_world))"

definition demo_moves :: "move list" where
  "demo_moves = [CallMove, MainMove, MainMove, MainMove, MainMove, ThreadMove 0, MainMove, NotifyMove, CallMove,
     MainMove, MainMove, CallMove, MainMove, MainMove, MainMove, MainMove, MainMove, MainMove, ThreadMove 0, NotifyMove,
     MainMove]"

text \<open>
  The first thread's request is answered while the writing thread goes on, the second part's after
  the last call began; then the upload is completed.
\<close>

lemmas upload_turn_defs = write_turn_def GetBuffer_def Let_def claim_turn_def start_turn_def UploadBuffer_def
  UploadBufferImplementation_def UploadBuffer_notify_def NotifyUploadsInProgress_def new_write_buffer_def
  mul64_def sub64_def add64_def put_buffer_def drop_buffer_def count_bytes_def overwrite_def RethrowIOError_def
  has_header_def header_value_def finalize_turn_def complete_turn_def FinalizeMultipartUpload_def

lemma demo_run:
  "\<exists>u. run_moves demo_upload demo_moves demo_start = Some ([], Returned, u) \<and> up_finalized u \<and>
     up_uploaded u = 2 \<and> \<not> up_terminated u"
  by (simp add: demo_moves_def demo_start_def demo_calls_def new_upload_def upload_turn_defs demo_turns
      complete_upload.simps [of demo_upload] numeral_2_eq_2)

text \<open>Without a thread to start, the first part waits.\<close>

lemma demo_wait:
  "\<exists>b r u. run_moves demo_upload (take 3 demo_moves) (demo_calls, Returned, new_upload 2 0 (up_demo_input, demo_world))
     = Some (tl demo_calls, WaitingForThread b r, u)"
  by (simp add: demo_moves_def demo_calls_def new_upload_def upload_turn_defs numeral_2_eq_2 numeral_3_eq_3)

text \<open>An upload without data is created, and left at that.\<close>

lemma demo_empty:
  "\<exists>u. run_moves demo_upload ([CallMove, MainMove, MainMove, MainMove])
       ([FinalizeCall], Returned, new_upload 2 1 (up_demo_input, demo_world)) = Some ([], Returned, u)"
  by (simp add: new_upload_def upload_turn_defs demo_turns numeral_2_eq_2)

text \<open>
  A service that refuses the PUT, and a secret manager that cannot recreate the secret: the refresh
  throws an exception of another type than IO and HTTP.
\<close>

definition refused_response :: response where
  "refused_response = (demo_response 403 Map.empty)"

definition refused_env :: env where
  "refused_env = (demo_env [] [])\<lparr>e_net := \<lambda>k rq cl.
     \<lparr>attempts = [Attempt [] (Inr (Some refused_response))], client_after = cl\<rparr>\<rparr>"

definition refused_upload :: upload_env where
  "refused_upload = demo_upload\<lparr>ue_s3 := (demo_s3 refused_env)
     \<lparr>sv_create := \<lambda>_ _. Inl (Exn ExOther ''Secret Validation Failure'' None)\<rparr>\<rparr>"

definition refused_exn :: exn where
  "refused_exn = Exn ExOther ''Exception thrown while trying to refresh secret'' None"

lemma refused_refresh:
  "ip_TryRefreshAuthParams (ue_s3 refused_upload) ''s3://b/k'' (demo_auth 0) (SnapshotRefreshableHTTPParams demo_params)
     (up_demo_input, demo_world\<lparr>w_clock := k\<rparr>) =
   (Inl refused_exn, up_demo_input, demo_world\<lparr>w_clock := k\<rparr>)"
  by (simp add: ip_TryRefreshAuthParams_def refused_upload_def demo_s3_def TryRefreshS3AuthMaterial_def
      ReloadS3AuthMaterial_def Let_def up_demo_input_def demo_world_def demo_ReadS3AuthParams S3AuthParamsMatch_iff
      ReadRefreshableHTTPParams_def S3RefreshableHTTPParamsMatch_def TryRefreshS3SecretForPath_def secret_types_def
      TryRefreshS3Secret_def demo_entry_def GenerateRefreshSecretInfo_def refused_exn_def)

lemma refused_put:
  "\<exists>w'. PutRequest_s3 (ue_s3 refused_upload) (ue_path refused_upload) d q (up_demo_input, demo_world) =
     (Inl refused_exn, up_demo_input, w')"
proof -
  let ?e = "ue_s3 refused_upload"
  let ?ops = "input_ops ?e ''s3://b/k'' ''PUT'' q (GetPayloadHash (sv_crypto ?e) d) octet_stream (send_put ?e d)"
  have su: "sv_su ?e = ref_su" by (simp add: refused_upload_def demo_s3_def)
  have cl: "SnapshotRefreshableHTTPParams (Clone b p) = SnapshotRefreshableHTTPParams p" for b p
    by (simp add: SnapshotRefreshableHTTPParams_def Clone_def Let_def new_httpfs_params_def http_params.defs httpfs_params.defs)
  obtain rd where rd: "ro_create ?ops ((), up_demo_input, demo_world) = Inr rd"
    "rd_auth_params rd = demo_auth 0" "rd_refreshable rd = SnapshotRefreshableHTTPParams demo_params"
    by (simp add: input_ops_def CreateS3RequestData_def AddS3HTTPHeaders_def Let_def su demo_parse up_demo_input_def cl)
  have net: "e_net (sv_env ?e) k rq cl = \<lparr>attempts = [Attempt [] (Inr (Some refused_response))], client_after = cl\<rparr>" for k rq cl
    by (simp add: refused_upload_def demo_s3_def refused_env_def)
  have send: "ro_request ?ops rd ((), up_demo_input, demo_world) =
      (Inr (Some refused_response), (), up_demo_input, tick demo_world)"
    by (simp add: input_ops_def send_put_def RunPutRequest_def plain_outcome_def net)
  have "IsAuthRefreshFailure refused_response" by (simp add: IsAuthRefreshFailure_def refused_response_def demo_response_def)
  moreover have "ro_refresh ?ops (demo_auth 0) (SnapshotRefreshableHTTPParams demo_params) ((), up_demo_input, tick demo_world) =
      (Inl refused_exn, (), up_demo_input, tick demo_world)"
    using refused_refresh [of "Suc (w_clock demo_world)"] by (simp add: input_ops_def tick_def)
  ultimately have "RunS3RequestWithAuthRefresh ?ops False False ((), up_demo_input, demo_world) =
      (Inl refused_exn, (), up_demo_input, tick demo_world)"
    using rd send by (simp add: RunS3RequestWithAuthRefresh.simps [of ?ops False False] retry_turn_def on_answer_def
        on_exception_def handler_region_def IsAuthRefreshFailure_exn_def GetRegionRedirect_exn_def refused_exn_def)
  then show ?thesis by (simp add: PutRequest_s3_def refused_upload_def demo_upload_def)
qed

end
