(* ===== verification/S3UploadSafe.thy ===== *)
theory S3UploadSafe
  imports S3UploadRun
begin

text \<open>
  What a multipart upload publishes: the invariant of the interleavings of S3Upload, by phases of
  the upload, and the theorem that only the written data, complete and in order, is ever completed.
\<close>

section \<open>What each operation changes\<close>

lemma upload_put_frame:
  assumes "upload_put e d q u = (res, u1)"
  obtains inp where "u1 = u\<lparr>up_input := inp, up_sent := up_sent u @ [SentPut q d res]\<rparr>"
  using assms by (auto simp: upload_put_def split: prod.splits)

lemma upload_post_frame:
  assumes "upload_post e d q u = (res, out, u1)"
  obtains inp where "u1 = u\<lparr>up_input := inp, up_sent := up_sent u @ [SentPost q d res out]\<rparr>"
  using assms by (auto simp: upload_post_def split: prod.splits)

lemma initialize_frame:
  assumes "InitializeMultipartUpload e u = (res, u1)"
  obtains inp r out where "u1 = u\<lparr>up_input := inp, up_sent := up_sent u @ [SentPost ''uploads='' [] r out],
      up_initialized := (case res of Inl _ \<Rightarrow> up_initialized u | Inr _ \<Rightarrow> True)\<rparr>"
proof -
  obtain r out u2 where p: "upload_post e [] ''uploads='' u = (r, out, u2)" by (metis surj_pair)
  then obtain inp where "u2 = u\<lparr>up_input := inp, up_sent := up_sent u @ [SentPost ''uploads='' [] r out]\<rparr>"
    by (rule upload_post_frame)
  with assms p have "u1 = u\<lparr>up_input := inp, up_sent := up_sent u @ [SentPost ''uploads='' [] r out],
      up_initialized := (case res of Inl _ \<Rightarrow> up_initialized u | Inr _ \<Rightarrow> True)\<rparr>"
    by (auto simp: InitializeMultipartUpload_def split: sum.splits option.splits if_splits)
  then show thesis by (rule that)
qed

lemma complete_upload_frame:
  "complete_upload e b q n u = (res, u1) \<Longrightarrow>
   \<exists>inp xs. u1 = u\<lparr>up_input := inp, up_sent := up_sent u @ xs\<rparr> \<and> xs \<noteq> [] \<and>
     (\<forall>x \<in> set xs. \<exists>r out. x = SentPost q b r out)"
proof (induction e b q n u arbitrary: res u1 rule: complete_upload.induct)
  case (1 e b q n u)
  obtain r out u2 where p: "upload_post e b q u = (r, out, u2)" by (metis surj_pair)
  then obtain inp where u2: "u2 = u\<lparr>up_input := inp, up_sent := up_sent u @ [SentPost q b r out]\<rparr>"
    by (rule upload_post_frame)
  show ?case
  proof (cases "\<exists>rp. r = Inr (Some rp) \<and> str_find out ''<CompleteMultipartUploadResult'' 0 = None \<and>
      status rp = OK_200 \<and> TryGetS3ErrorCode out = Some ''InternalError'' \<and> 0 < n")
    case True
    then obtain rp where rp: "r = Inr (Some rp)" "str_find out ''<CompleteMultipartUploadResult'' 0 = None"
      "status rp = OK_200" "TryGetS3ErrorCode out = Some ''InternalError''" "0 < n" by blast
    then have "complete_upload e b q (n - 1) u2 = (res, u1)"
      using 1(2) p by (simp add: complete_upload.simps [of e b q n u])
    from 1(1) [OF p [symmetric] rp(1) refl _ refl _ this] rp obtain inp' xs where
      "u1 = u2\<lparr>up_input := inp', up_sent := up_sent u2 @ xs\<rparr>"
      "\<forall>x \<in> set xs. \<exists>r out. x = SentPost q b r out" by auto
    with u2 show ?thesis by (intro exI [of _ inp'] exI [of _ "SentPost q b r out # xs"]) auto
  next
    case False
    then have "u1 = u2"
      using 1(2) p by (auto simp: complete_upload.simps [of e b q n u] split: sum.splits option.splits if_splits)
    with u2 show ?thesis by (intro exI [of _ inp] exI [of _ "[SentPost q b r out]"]) auto
  qed
qed
section \<open>The client and the parts\<close>

text \<open>Calls that write consecutively from an offset and then only finalize; their data.\<close>

definition only_finalize :: "call list \<Rightarrow> bool" where
  "only_finalize cs \<longleftrightarrow> (\<forall>c \<in> set cs. c = FinalizeCall)"

lemma only_finalize_simps [simp]:
  "only_finalize []" "only_finalize (c # cs) \<longleftrightarrow> c = FinalizeCall \<and> only_finalize cs"
  by (auto simp: only_finalize_def)

fun calls_from :: "nat \<Rightarrow> call list \<Rightarrow> bool" where
  "calls_from loc [] \<longleftrightarrow> True"
| "calls_from loc (WriteCall d l # cs) \<longleftrightarrow> l = loc \<and> calls_from (loc + length d) cs"
| "calls_from loc (FinalizeCall # cs) \<longleftrightarrow> only_finalize cs"

lemma only_finalize_calls: "only_finalize cs \<Longrightarrow> calls_from off cs"
  by (cases cs) auto

fun pending :: "call list \<Rightarrow> bytes" where
  "pending [] = ''''"
| "pending (WriteCall d l # cs) = d @ pending cs"
| "pending (FinalizeCall # cs) = ''''"

text \<open>The p-th part of the data, and the number of parts.\<close>

definition piece :: "bytes \<Rightarrow> nat \<Rightarrow> nat \<Rightarrow> bytes" where
  "piece content ps p = slice content (p * ps) ps"

definition part_count :: "bytes \<Rightarrow> nat \<Rightarrow> nat" where
  "part_count content ps = (length content + ps - 1) div ps"

text \<open>A part with this ETag was uploaded under this upload id.\<close>

definition part_sent :: "upload_env \<Rightarrow> bytes \<Rightarrow> nat \<Rightarrow> string \<Rightarrow> nat \<Rightarrow> string \<Rightarrow> sent_request list \<Rightarrow> bool" where
  "part_sent e content ps upload_id p etag sent \<longleftrightarrow>
     (\<exists>r. SentPut (part_query e p upload_id) (piece content ps p) (Inr (Some r)) \<in> set sent \<and>
        status r = OK_200 \<and> hdrs r ''ETag'' = Some etag)"

text \<open>A request that completes an upload whose parts are the data.\<close>

definition completes :: "upload_env \<Rightarrow> bytes \<Rightarrow> nat \<Rightarrow> sent_request list \<Rightarrow> string \<Rightarrow> string \<Rightarrow> bool" where
  "completes e content ps sent query req_body \<longleftrightarrow>
     (\<exists>upload_id etags parts. query = ''uploadId='' @ UrlEncode (sv_su (ue_s3 e)) upload_id True \<and>
        part_list etags [0..<part_count content ps] = Some parts \<and> req_body = complete_body parts \<and>
        (\<forall>p < part_count content ps. \<exists>etag. etags p = Some etag \<and> part_sent e content ps upload_id p etag sent))"

definition no_complete :: "upload \<Rightarrow> bool" where
  "no_complete u \<longleftrightarrow> (\<forall>q b r out. SentPost q b r out \<in> set (up_sent u) \<longrightarrow> b = [])"

definition single_ok :: "bytes \<Rightarrow> upload \<Rightarrow> bool" where
  "single_ok content u \<longleftrightarrow> (\<forall>d r. SentPut '''' d r \<in> set (up_sent u) \<longrightarrow> d = content)"

definition create_failed :: "upload \<Rightarrow> bool" where
  "create_failed u \<longleftrightarrow> (\<exists>r out. SentPost ''uploads='' [] r out \<in> set (up_sent u) \<and>
     (case r of Inr (Some rp) \<Rightarrow> status rp \<noteq> OK_200 \<or> str_find out ''<UploadId>'' 0 = None \<or>
        (\<exists>k. str_find out ''<UploadId>'' 0 = Some k \<and> str_find out ''</UploadId>'' k = None)
      | _ \<Rightarrow> True))"

section \<open>The invariant\<close>

text \<open>A buffer with the first n bytes of part k, and the map of buffers between two writes.\<close>

definition holds :: "bytes \<Rightarrow> nat \<Rightarrow> write_buffer \<Rightarrow> nat \<Rightarrow> nat \<Rightarrow> bool" where
  "holds content ps b k n \<longleftrightarrow> wb_part b = k \<and> wb_start b = k * ps \<and> wb_idx b = n \<and>
     length (wb_data b) = ps \<and> take n (wb_data b) = slice content (k * ps) n"

definition buf_at :: "bytes \<Rightarrow> nat \<Rightarrow> nat \<Rightarrow> (nat \<times> write_buffer) list \<Rightarrow> bool" where
  "buf_at content ps off bs \<longleftrightarrow>
     (if off mod ps = 0 then bs = []
      else \<exists>b. bs = [(off div ps, b)] \<and> holds content ps b (off div ps) (off mod ps) \<and> \<not> wb_uploading b)"

text \<open>The upload threads: parts below L are flying, or have their ETag; without an error, all of them.\<close>

definition threads_ok :: "upload_env \<Rightarrow> bytes \<Rightarrow> nat \<Rightarrow> nat \<Rightarrow> upload \<Rightarrow> bool" where
  "threads_ok e content ps L u \<longleftrightarrow>
     distinct (map wb_part (up_flying u)) \<and>
     (\<forall>b \<in> set (up_flying u). wb_part b < L \<and> wb_part b \<notin> dom (up_etags u) \<and>
        take (wb_idx b) (wb_data b) = piece content ps (wb_part b)) \<and>
     dom (up_etags u) \<subseteq> {..<L} \<and> {..<L} \<subseteq> wb_part ` set (up_flying u) \<union> dom (up_etags u) \<and>
     up_uploaded u = card (dom (up_etags u)) \<and>
     (\<forall>p etag. up_etags u p = Some etag \<longrightarrow> part_sent e content ps (up_id u) p etag (up_sent u)) \<and>
     (L \<noteq> 0 \<longrightarrow> up_initialized u)"

text \<open>While writing: by where the writing thread is. L is the number of parts started.\<close>

fun writing_at :: "bytes \<Rightarrow> nat \<Rightarrow> call list \<Rightarrow> pc \<Rightarrow> upload \<Rightarrow> bool" where
  "writing_at content ps cs (Writing data loc) u \<longleftrightarrow>
     loc = up_offset u \<and> drop loc content = data @ pending cs \<and> loc \<le> length content \<and>
     calls_from (loc + length data) cs \<and> buf_at content ps loc (up_buffers u)"
| "writing_at content ps cs Returned u \<longleftrightarrow>
     drop (up_offset u) content = pending cs \<and> up_offset u \<le> length content \<and>
     calls_from (up_offset u) cs \<and> buf_at content ps (up_offset u) (up_buffers u)"
| "writing_at content ps cs (Claiming b (InWrite rest n loc)) u \<longleftrightarrow>
     loc = up_offset u \<and> loc + n = (loc div ps + 1) * ps \<and> loc + n \<le> length content \<and>
     drop (loc + n) content = rest @ pending cs \<and> calls_from (loc + n + length rest) cs \<and>
     holds content ps b (loc div ps) ps \<and> \<not> wb_uploading b \<and> up_buffers u = [(loc div ps, b)]"
| "writing_at content ps cs (WaitingForThread b (InWrite rest n loc)) u \<longleftrightarrow>
     loc = up_offset u \<and> loc + n = (loc div ps + 1) * ps \<and> loc + n \<le> length content \<and>
     drop (loc + n) content = rest @ pending cs \<and> calls_from (loc + n + length rest) cs \<and>
     holds content ps b (loc div ps) ps \<and> up_buffers u = []"
| "writing_at content ps cs (Starting b (InWrite rest n loc)) u \<longleftrightarrow>
     loc = up_offset u \<and> loc + n = (loc div ps + 1) * ps \<and> loc + n \<le> length content \<and>
     drop (loc + n) content = rest @ pending cs \<and> calls_from (loc + n + length rest) cs \<and>
     holds content ps b (loc div ps) ps \<and> up_buffers u = []"
| "writing_at content ps cs _ u \<longleftrightarrow> False"

definition last_part :: "bytes \<Rightarrow> nat \<Rightarrow> write_buffer \<Rightarrow> bool" where
  "last_part content ps b \<longleftrightarrow> length content mod ps \<noteq> 0 \<and>
     holds content ps b (length content div ps) (length content mod ps)"

text \<open>While finalizing, with the number of parts started.\<close>

fun finalizing_at :: "bytes \<Rightarrow> nat \<Rightarrow> nat \<Rightarrow> pc \<Rightarrow> upload \<Rightarrow> bool" where
  "finalizing_at content ps L Finalizing u \<longleftrightarrow>
     buf_at content ps (length content) (up_buffers u) \<and> L = length content div ps"
| "finalizing_at content ps L (Threw ex) u \<longleftrightarrow>
     buf_at content ps (length content) (up_buffers u) \<and> L = length content div ps"
| "finalizing_at content ps L Returned u \<longleftrightarrow> content = [] \<and> up_buffers u = [] \<and> L = 0"
| "finalizing_at content ps L (FlushingAll bs) u \<longleftrightarrow> up_initialized u \<and>
     (buf_at content ps (length content) (up_buffers u) \<and> L = length content div ps \<and> bs = map snd (up_buffers u) \<or>
      up_buffers u = [] \<and> L = part_count content ps \<and> bs = [])"
| "finalizing_at content ps L (Claiming b (InFlushAll bs)) u \<longleftrightarrow> up_initialized u \<and> bs = [] \<and>
     last_part content ps b \<and> \<not> wb_uploading b \<and> up_buffers u = [(length content div ps, b)] \<and> L = length content div ps"
| "finalizing_at content ps L (WaitingForThread b (InFlushAll bs)) u \<longleftrightarrow> up_initialized u \<and> bs = [] \<and>
     last_part content ps b \<and> up_buffers u = [] \<and> L = length content div ps"
| "finalizing_at content ps L (Starting b (InFlushAll bs)) u \<longleftrightarrow> up_initialized u \<and> bs = [] \<and>
     last_part content ps b \<and> up_buffers u = [] \<and> L = length content div ps"
| "finalizing_at content ps L AwaitingUploads u \<longleftrightarrow> up_buffers u = [] \<and> L = part_count content ps"
| "finalizing_at content ps L _ u \<longleftrightarrow> False"

text \<open>Whether the writing thread is in, or before, a write.\<close>

fun to_write :: "return_to \<Rightarrow> bool" where
  "to_write (InWrite rest n loc) = True"
| "to_write (InFlushAll bs) = False"

fun in_write :: "pc \<Rightarrow> bool" where
  "in_write (Writing data loc) = True"
| "in_write (Claiming b r) = to_write r"
| "in_write (WaitingForThread b r) = to_write r"
| "in_write (Starting b r) = to_write r"
| "in_write Returned = True"
| "in_write _ = False"

definition phase_write :: "upload_env \<Rightarrow> bytes \<Rightarrow> nat \<Rightarrow> config \<Rightarrow> bool" where
  "phase_write e content ps c \<longleftrightarrow> (case c of (cs, p, u) \<Rightarrow>
     FinalizeCall \<in> set cs \<and> up_errors u = [] \<and> \<not> up_finalized u \<and> no_complete u \<and>
     writing_at content ps cs p u \<and> threads_ok e content ps (up_offset u div ps) u)"

definition phase_finalize :: "upload_env \<Rightarrow> bytes \<Rightarrow> nat \<Rightarrow> config \<Rightarrow> bool" where
  "phase_finalize e content ps c \<longleftrightarrow> (case c of (cs, p, u) \<Rightarrow>
     only_finalize cs \<and> up_errors u = [] \<and> \<not> up_finalized u \<and> no_complete u \<and>
     up_offset u = length content \<and> (\<exists>L. finalizing_at content ps L p u \<and> threads_ok e content ps L u))"

text \<open>A part failed to upload: the upload is never completed.\<close>

definition phase_error :: "config \<Rightarrow> bool" where
  "phase_error c \<longleftrightarrow> (case c of (cs, p, u) \<Rightarrow>
     up_errors u \<noteq> [] \<and> up_initialized u \<and> \<not> up_finalized u \<and> no_complete u \<and>
     (in_write p \<longrightarrow> FinalizeCall \<in> set cs))"

text \<open>The upload could not be created during a write: nothing was uploaded.\<close>

definition phase_uncreated :: "config \<Rightarrow> bool" where
  "phase_uncreated c \<longleftrightarrow> (case c of (cs, p, u) \<Rightarrow>
     up_errors u = [] \<and> \<not> up_finalized u \<and> no_complete u \<and> create_failed u \<and>
     up_buffers u = [] \<and> up_flying u = [] \<and> up_uploaded u = 0 \<and>
     (p \<in> {Finalizing, FlushingAll [], AwaitingUploads, Returned} \<and> only_finalize cs \<or>
      (\<exists>ex. p = Threw ex) \<and> (\<exists>off. calls_from off cs)))"

text \<open>The upload is finalized: by a single request, or by completing the parts.\<close>

definition published :: "upload_env \<Rightarrow> bytes \<Rightarrow> nat \<Rightarrow> upload \<Rightarrow> bool" where
  "published e content ps u \<longleftrightarrow>
     no_complete u \<and> (\<exists>r. SentPut '''' content (Inr (Some r)) \<in> set (up_sent u) \<and> status r = OK_200) \<or>
     (\<exists>q b r out. SentPost q b r out \<in> set (up_sent u) \<and> b \<noteq> []) \<and>
     (\<forall>q b r out. SentPost q b r out \<in> set (up_sent u) \<and> b \<noteq> [] \<longrightarrow> completes e content ps (up_sent u) q b)"

definition phase_done :: "upload_env \<Rightarrow> bytes \<Rightarrow> nat \<Rightarrow> config \<Rightarrow> bool" where
  "phase_done e content ps c \<longleftrightarrow> (case c of (cs, p, u) \<Rightarrow>
     only_finalize cs \<and> up_finalized u \<and> up_flying u = [] \<and> published e content ps u \<and>
     (p = Returned \<or> p = Finalizing \<or> (\<exists>ex. p = Threw ex)))"

text \<open>An upload thread terminated the process.\<close>

definition phase_terminated :: "config \<Rightarrow> bool" where
  "phase_terminated c \<longleftrightarrow> (case c of (cs, p, u) \<Rightarrow>
     up_terminated u \<and> \<not> up_finalized u \<and> no_complete u)"

definition upload_inv :: "upload_env \<Rightarrow> bytes \<Rightarrow> nat \<Rightarrow> config \<Rightarrow> bool" where
  "upload_inv e content ps c \<longleftrightarrow> up_part_size (snd (snd c)) = ps \<and> single_ok content (snd (snd c)) \<and>
     (phase_write e content ps c \<or> phase_finalize e content ps c \<or> phase_error c \<or> phase_uncreated c \<or>
      phase_done e content ps c \<or> phase_terminated c)"

section \<open>Upload threads keep the invariant\<close>

lemma upload_impl_cases:
  assumes "UploadBufferImplementation e b q single u = (r, u1)"
  obtains (escapes) ex res inp where "r = Some ex"
      "u1 = u\<lparr>up_input := inp, up_sent := up_sent u @ [SentPut q (take (wb_idx b) (wb_data b)) res]\<rparr>"
  | (fails) ex res inp where "r = None" "\<not> single"
      "u1 = u\<lparr>up_input := inp, up_sent := up_sent u @ [SentPut q (take (wb_idx b) (wb_data b)) res],
              up_errors := up_errors u @ [ex]\<rparr>"
  | (uploads) rp inp etag where "r = None" "status rp = OK_200" "hdrs rp ''ETag'' = Some etag"
      "u1 = u\<lparr>up_input := inp, up_sent := up_sent u @ [SentPut q (take (wb_idx b) (wb_data b)) (Inr (Some rp))],
              up_etags := (case up_etags u (wb_part b mod w16) of
                 None \<Rightarrow> (up_etags u)(wb_part b mod w16 \<mapsto> etag) | Some _ \<Rightarrow> up_etags u),
              up_uploaded := (up_uploaded u + 1) mod w16\<rparr>"
proof -
  let ?d = "take (wb_idx b) (wb_data b)"
  obtain res u2 where p: "upload_put e ?d q u = (res, u2)" by (metis surj_pair)
  then obtain inp where u2: "u2 = u\<lparr>up_input := inp, up_sent := up_sent u @ [SentPut q ?d res]\<rparr>"
    by (rule upload_put_frame)
  note d = UploadBufferImplementation_def Let_def p prod.case
  show thesis
  proof (cases res)
    case (Inl ex)
    show thesis
    proof (cases "single \<or> ex_type ex \<noteq> ExIO \<and> ex_type ex \<noteq> ExHTTP")
      case True
      with assms Inl p have "r = Some ex" "u1 = u2"
        by (simp_all only: d sum.case if_True prod.inject simp_thms)
      with u2 show thesis by (auto intro: escapes)
    next
      case False
      with assms Inl p have "r = None" "u1 = u2\<lparr>up_errors := up_errors u2 @ [ex]\<rparr>"
        by (simp_all only: d sum.case if_False prod.inject simp_thms)
      with u2 False show thesis by (auto intro: fails)
    qed
  next
    case (Inr ro)
    show thesis
    proof (cases ro)
      case None
      with assms Inr p have "r = Some (Exn Undefined ''no response'' None)" "u1 = u2"
        by (simp_all only: d sum.case option.case prod.inject simp_thms)
      with u2 show thesis by (auto intro: escapes)
    next
      case (Some rp)
      show thesis
      proof (cases "status rp = OK_200 \<and> has_header rp ''ETag''")
        case True
        then obtain etag where "hdrs rp ''ETag'' = Some etag" by (auto simp: has_header_def)
        with True assms Inr Some p u2 show thesis
          by (intro uploads [where inp = inp]) (auto simp: d has_header_def header_value_def cong: option.case_cong)
      next
        case False
        then obtain ex where "(r, u1) = (if single then (Some ex, u2)
            else (None, u2\<lparr>up_errors := up_errors u2 @ [ex]\<rparr>))"
          using assms Inr Some p by (auto simp: d split: if_splits)
        with u2 show thesis by (cases single) (auto intro: escapes fails)
      qed
    qed
  qed
qed

text \<open>Adding to what was sent keeps what it already shows.\<close>

lemma part_sent_mono:
  "part_sent e d ps i p etag sent \<Longrightarrow> set sent \<subseteq> set sent' \<Longrightarrow> part_sent e d ps i p etag sent'"
  by (auto simp: part_sent_def)

lemma take_nth_drop: "k < length xs \<Longrightarrow> xs = take k xs @ xs ! k # drop (Suc k) xs"
  by (rule id_take_nth_drop)

lemma part_query_nonempty: "part_query e p i \<noteq> ''''"
  by (simp add: part_query_def)

lemma threads_okD:
  assumes "threads_ok e content ps L u"
  shows "distinct (map wb_part (up_flying u))"
    and "\<forall>b \<in> set (up_flying u). wb_part b < L \<and> wb_part b \<notin> dom (up_etags u) \<and>
        take (wb_idx b) (wb_data b) = piece content ps (wb_part b)"
    and "dom (up_etags u) \<subseteq> {..<L}"
    and "{..<L} \<subseteq> wb_part ` set (up_flying u) \<union> dom (up_etags u)"
    and "up_uploaded u = card (dom (up_etags u))"
    and "\<forall>p etag. up_etags u p = Some etag \<longrightarrow> part_sent e content ps (up_id u) p etag (up_sent u)"
    and "L \<noteq> 0 \<longrightarrow> up_initialized u"
  using assms unfolding threads_ok_def by - (elim conjE, assumption)+

lemma threads_ok_upload:
  assumes "threads_ok e content ps L u" and "k < length (up_flying u)" and "L < w16"
    and "UploadBufferImplementation e (up_flying u ! k) (part_query e (wb_part (up_flying u ! k)) (up_id u)) False
      (u\<lparr>up_flying := take k (up_flying u) @ drop (Suc k) (up_flying u)\<rparr>) = (None, u1)"
    and "up_errors u1 = up_errors u"
  shows "threads_ok e content ps L (u1\<lparr>up_ending := n\<rparr>)"
proof -
  let ?b = "up_flying u ! k" and ?fl = "take k (up_flying u) @ drop (Suc k) (up_flying u)"
  have fl: "up_flying u = take k (up_flying u) @ ?b # drop (Suc k) (up_flying u)"
    by (rule take_nth_drop [OF assms(2)])
  have in_fl: "set (up_flying u) = insert ?b (set ?fl)" by (subst fl) auto
  have "distinct (map wb_part (take k (up_flying u) @ ?b # drop (Suc k) (up_flying u)))"
    using assms(1) fl unfolding threads_ok_def by metis
  then have dist: "distinct (map wb_part ?fl)" "wb_part ?b \<notin> wb_part ` set ?fl" by auto
  have b: "wb_part ?b < L" "wb_part ?b \<notin> dom (up_etags u)"
    "take (wb_idx ?b) (wb_data ?b) = piece content ps (wb_part ?b)"
    using assms(1) in_fl by (auto simp: threads_ok_def)
  have m: "wb_part ?b mod w16 = wb_part ?b" using b(1) assms(3) by simp
  from assms(4) show ?thesis
  proof (cases rule: upload_impl_cases)
    case (escapes ex res inp)
    then show ?thesis by simp
  next
    case (fails ex res inp)
    then show ?thesis using assms(5) by simp
  next
    case (uploads rp inp etag)
    let ?et = "(up_etags u)(wb_part ?b \<mapsto> etag)"
    have fin: "finite (dom (up_etags u))" and card: "card (dom (up_etags u)) < L"
    proof -
      have sub: "dom (up_etags u) \<subseteq> {..<L} - {wb_part ?b}" using assms(1) b(2) by (auto simp: threads_ok_def)
      then show "finite (dom (up_etags u))" by (rule finite_subset) simp
      have "card (dom (up_etags u)) \<le> card ({..<L} - {wb_part ?b})" by (rule card_mono [OF _ sub]) simp
      with b(1) show "card (dom (up_etags u)) < L" by (simp add: card_Diff_subset)
    qed
    have u1: "up_etags u1 = ?et" "up_flying u1 = ?fl" "up_id u1 = up_id u"
      "up_sent u1 = up_sent u @ [SentPut (part_query e (wb_part ?b) (up_id u)) (piece content ps (wb_part ?b)) (Inr (Some rp))]"
      "up_uploaded u1 = Suc (card (dom (up_etags u)))" "up_initialized u1 = up_initialized u"
      using uploads b m assms(1,3) card by (auto simp: threads_ok_def domIff)
    have new: "part_sent e content ps (up_id u) (wb_part ?b) etag (up_sent u1)"
      using uploads(2,3) by (auto simp: part_sent_def u1)
    have old: "part_sent e content ps (up_id u) p t (up_sent u1)" if "up_etags u p = Some t" for p t
    proof -
      have "part_sent e content ps (up_id u) p t (up_sent u)"
        using threads_okD(6) [OF assms(1)] that by blast
      then show ?thesis by (rule part_sent_mono) (auto simp: u1(4))
    qed
    have parts: "\<forall>c \<in> set ?fl. wb_part c < L \<and> wb_part c \<notin> dom (up_etags u) \<and>
        take (wb_idx c) (wb_data c) = piece content ps (wb_part c) \<and> wb_part c \<noteq> wb_part ?b"
    proof
      fix c assume c: "c \<in> set ?fl"
      then have "c \<in> set (up_flying u)" unfolding in_fl by (rule insertI2)
      moreover have "\<forall>b \<in> set (up_flying u). wb_part b < L \<and> wb_part b \<notin> dom (up_etags u) \<and>
          take (wb_idx b) (wb_data b) = piece content ps (wb_part b)"
        by (rule threads_okD(2) [OF assms(1)])
      moreover have "wb_part c \<noteq> wb_part ?b" using dist(2) c by (metis image_eqI)
      ultimately show "wb_part c < L \<and> wb_part c \<notin> dom (up_etags u) \<and>
          take (wb_idx c) (wb_data c) = piece content ps (wb_part c) \<and> wb_part c \<noteq> wb_part ?b" by blast
    qed
    have all: "{..<L} \<subseteq> wb_part ` set (up_flying u) \<union> dom (up_etags u)" "dom (up_etags u) \<subseteq> {..<L}"
      "L \<noteq> 0 \<longrightarrow> up_initialized u"
      by (rule threads_okD(4,3,7) [OF assms(1)])+
    have et: "dom ?et = insert (wb_part ?b) (dom (up_etags u))" by simp
    have "{..<L} \<subseteq> wb_part ` set ?fl \<union> dom ?et" using all(1) unfolding in_fl et by auto
    moreover have "dom ?et \<subseteq> {..<L}" using all(2) b(1) unfolding et by simp
    moreover have "Suc (card (dom (up_etags u))) = card (dom ?et)" using fin b(2) unfolding et by simp
    moreover have "\<forall>p t. ?et p = Some t \<longrightarrow> part_sent e content ps (up_id u) p t (up_sent u1)"
      using new old by simp
    moreover have "\<forall>c \<in> set ?fl. wb_part c < L \<and> wb_part c \<notin> dom ?et \<and>
        take (wb_idx c) (wb_data c) = piece content ps (wb_part c)"
      using parts unfolding et by simp
    ultimately have "threads_ok e content ps L u1"
      using dist(1) all(3) by (simp only: threads_ok_def u1 simp_thms)
    then show ?thesis by (simp add: threads_ok_def)
  qed
qed

lemma writing_at_frame:
  "up_offset u' = up_offset u \<Longrightarrow> up_buffers u' = up_buffers u \<Longrightarrow>
   writing_at content ps cs p u' = writing_at content ps cs p u"
  by (cases "(content, ps, cs, p, u)" rule: writing_at.cases) auto

lemma finalizing_at_frame:
  "up_initialized u' = up_initialized u \<Longrightarrow> up_buffers u' = up_buffers u \<Longrightarrow>
   finalizing_at content ps L p u' = finalizing_at content ps L p u"
  by (cases "(content, ps, L, p, u)" rule: finalizing_at.cases) auto

lemma threads_ok_frame:
  "up_flying u' = up_flying u \<Longrightarrow> up_etags u' = up_etags u \<Longrightarrow> up_uploaded u' = up_uploaded u \<Longrightarrow>
   up_id u' = up_id u \<Longrightarrow> up_sent u' = up_sent u \<Longrightarrow> up_initialized u' = up_initialized u \<Longrightarrow>
   threads_ok e content ps L u' = threads_ok e content ps L u"
  by (simp add: threads_ok_def)

lemma in_write_writing_at: "writing_at content ps cs p u \<Longrightarrow> in_write p"
  by (cases "(content, ps, cs, p, u)" rule: writing_at.cases) auto

lemma finalizing_at_in_write: "finalizing_at content ps L p u \<Longrightarrow> in_write p \<Longrightarrow> p = Returned \<and> content = [] \<and> L = 0"
  by (cases "(content, ps, L, p, u)" rule: finalizing_at.cases) auto

lemma sent_put_keeps:
  "up_sent u' = up_sent u @ [SentPut q d r] \<Longrightarrow> q \<noteq> '''' \<Longrightarrow>
     no_complete u' = no_complete u \<and> single_ok content u' = single_ok content u"
  by (auto simp: no_complete_def single_ok_def)

lemma no_flying_at_0: "threads_ok e content ps 0 u \<Longrightarrow> up_flying u = []"
  by (cases "up_flying u") (auto simp: threads_ok_def)

text \<open>The parts that can be started stay below 2^16.\<close>

lemma part_count_mult:
  fixes ps :: nat
  assumes "0 < ps"
  shows "part_count content ps = length content div ps + (if length content mod ps = 0 then 0 else 1)"
proof -
  let ?n = "length content"
  have "?n + ps - 1 = (?n div ps) * ps + (?n mod ps + ps - 1)"
    using assms div_mult_mod_eq [of ?n ps] by simp
  then have "(?n + ps - 1) div ps = ?n div ps + (?n mod ps + ps - 1) div ps"
    using assms by (metis add.commute div_mult_self1 less_not_refl2)
  moreover have "(?n mod ps + ps - 1) div ps = (if ?n mod ps = 0 then 0 else 1)"
  proof (cases "?n mod ps = 0")
    case True
    then show ?thesis using assms by simp
  next
    case False
    then have "?n mod ps + ps - 1 = ps + (?n mod ps - 1)" by simp
    then have "(?n mod ps + ps - 1) div ps = Suc ((?n mod ps - 1) div ps)"
      using assms by (simp only: div_add_self1)
    moreover have "?n mod ps - 1 < ps" using assms mod_less_divisor [of ps ?n] by linarith
    ultimately show ?thesis using False by simp
  qed
  ultimately show ?thesis by (simp add: part_count_def)
qed

lemma div_le_part_count:
  "(0::nat) < ps \<Longrightarrow> off \<le> length content \<Longrightarrow> off div ps \<le> part_count content ps"
  using div_le_mono [of off "length content" ps] by (simp add: part_count_mult)

lemma finalizing_L: "0 < ps \<Longrightarrow> finalizing_at content ps L p u \<Longrightarrow> L \<le> part_count content ps"
  by (cases "(content, ps, L, p, u)" rule: finalizing_at.cases) (auto simp: part_count_mult)

lemma writing_at_offset: "writing_at content ps cs p u \<Longrightarrow> up_offset u \<le> length content"
  by (cases "(content, ps, cs, p, u)" rule: writing_at.cases) auto

lemmas phase_defs = phase_write_def phase_finalize_def phase_error_def phase_uncreated_def
  phase_done_def phase_terminated_def

text \<open>While a part is flying the upload is initialized, not finalized, and not completed.\<close>

lemma flying_phase:
  assumes "upload_inv e content ps (cs, p, u)" and "up_flying u \<noteq> []" and "\<not> up_terminated u"
  shows "\<not> up_finalized u" and "no_complete u" and "up_initialized u" and "in_write p \<longrightarrow> FinalizeCall \<in> set cs"
proof -
  consider (w) "phase_write e content ps (cs, p, u)" | (f) "phase_finalize e content ps (cs, p, u)"
    | (e) "phase_error (cs, p, u)"
    using assms by (auto simp: upload_inv_def phase_uncreated_def phase_done_def phase_terminated_def)
  then have "\<not> up_finalized u \<and> no_complete u \<and> up_initialized u \<and> (in_write p \<longrightarrow> FinalizeCall \<in> set cs)"
  proof cases
    case w
    then have "up_offset u div ps \<noteq> 0" using assms(2) no_flying_at_0 [of e content ps u]
      by (auto simp: phase_write_def intro: ccontr)
    with w show ?thesis using threads_okD(7) by (auto simp: phase_write_def)
  next
    case f
    then obtain L where L: "finalizing_at content ps L p u" "threads_ok e content ps L u"
      by (auto simp: phase_finalize_def)
    then have "L \<noteq> 0" using assms(2) no_flying_at_0 [of e content ps u] by metis
    with L finalizing_at_in_write [OF L(1)] f show ?thesis
      using threads_okD(7) [OF L(2)] by (auto simp: phase_finalize_def)
  next
    case e
    then show ?thesis by (simp add: phase_error_def)
  qed
  then show "\<not> up_finalized u" and "no_complete u" and "up_initialized u" and "in_write p \<longrightarrow> FinalizeCall \<in> set cs"
    by blast+
qed

lemma no_complete_put [simp]:
  "up_sent u' = up_sent u @ [SentPut q d r] \<Longrightarrow> no_complete u' = no_complete u"
  by (auto simp: no_complete_def)

lemma single_ok_put:
  "up_sent u' = up_sent u @ [SentPut q d r] \<Longrightarrow> single_ok content u \<Longrightarrow> q = '''' \<longrightarrow> d = content \<Longrightarrow>
   single_ok content u'"
  by (auto simp: single_ok_def)

lemma part_bounds:
  assumes "upload_inv e content ps (cs, p, u)" and "0 < ps" and "phase_write e content ps (cs, p, u)"
  shows "up_offset u div ps \<le> part_count content ps"
  using assms(3) div_le_part_count [OF assms(2), of "up_offset u"]
  by (auto simp: phase_write_def dest: writing_at_offset)

lemma thread_step_inv:
  assumes inv: "upload_inv e content ps (cs, p, u)" and k: "k < length (up_flying u)"
    and nt: "\<not> up_terminated u" and ps: "0 < ps" "part_count content ps < w16"
  shows "upload_inv e content ps (cs, p, UploadBuffer e k u)"
proof -
  let ?b = "up_flying u ! k" and ?u0 = "u\<lparr>up_flying := take k (up_flying u) @ drop (Suc k) (up_flying u)\<rparr>"
  let ?q = "part_query e (wb_part ?b) (up_id u)"
  have fl: "up_flying u \<noteq> []" using k by auto
  note ph = flying_phase [OF inv fl nt]
  have so: "single_ok content u" "up_part_size u = ps" using inv by (simp_all add: upload_inv_def)
  obtain r u1 where run: "UploadBufferImplementation e ?b ?q False ?u0 = (r, u1)" by fastforce
  from run show ?thesis
  proof (cases rule: upload_impl_cases)
    case (escapes ex res inp)
    have sent: "up_sent u1 = up_sent u @ [SentPut ?q (take (wb_idx ?b) (wb_data ?b)) res]"
      unfolding escapes(2) by simp
    from escapes have U: "UploadBuffer e k u = u1\<lparr>up_terminated := True\<rparr>" using run by (simp add: UploadBuffer_def Let_def)
    have "single_ok content (u1\<lparr>up_terminated := True\<rparr>)"
      by (rule single_ok_put [where q = ?q, OF _ so(1)]) (simp_all add: sent part_query_nonempty)
    moreover have "no_complete (u1\<lparr>up_terminated := True\<rparr>)"
      by (rule no_complete_put [where u = u and q = ?q, THEN iffD2]) (simp_all add: sent ph(2))
    moreover have "\<not> up_finalized u1" "up_part_size u1 = ps" using ph(1) so(2) unfolding escapes(2) by simp_all
    ultimately show ?thesis unfolding U by (simp add: upload_inv_def phase_terminated_def)
  next
    case (fails ex res inp)
    have sent: "up_sent u1 = up_sent u @ [SentPut ?q (take (wb_idx ?b) (wb_data ?b)) res]"
      unfolding fails(3) by simp
    from fails(1) have U: "UploadBuffer e k u = u1\<lparr>up_ending := Suc (up_ending u1)\<rparr>"
      using run by (simp add: UploadBuffer_def Let_def)
    have "single_ok content (u1\<lparr>up_ending := Suc (up_ending u1)\<rparr>)"
      by (rule single_ok_put [where q = ?q, OF _ so(1)]) (simp_all add: sent part_query_nonempty)
    moreover have "no_complete (u1\<lparr>up_ending := Suc (up_ending u1)\<rparr>)"
      by (rule no_complete_put [where u = u and q = ?q, THEN iffD2]) (simp_all add: sent ph(2))
    moreover have "up_errors u1 \<noteq> []" "up_initialized u1" "\<not> up_finalized u1" "up_part_size u1 = ps"
      using ph(1,3) so(2) unfolding fails(3) by simp_all
    ultimately show ?thesis unfolding U using ph(4) by (simp add: upload_inv_def phase_error_def)
  next
    case (uploads rp inp etag)
    let ?u2 = "u1\<lparr>up_ending := Suc (up_ending u1)\<rparr>"
    have sent: "up_sent u1 = up_sent u @ [SentPut ?q (take (wb_idx ?b) (wb_data ?b)) (Inr (Some rp))]"
      unfolding uploads(4) by simp
    have U: "UploadBuffer e k u = ?u2" using run uploads(1) by (simp add: UploadBuffer_def Let_def)
    have single: "single_ok content ?u2"
      by (rule single_ok_put [where q = ?q, OF _ so(1)]) (simp_all add: sent part_query_nonempty)
    have nc: "no_complete ?u2" by (rule no_complete_put [where u = u and q = ?q, THEN iffD2]) (simp_all add: sent ph(2))
    have same: "up_errors u1 = up_errors u" "up_offset u1 = up_offset u" "up_buffers u1 = up_buffers u"
      "up_initialized u1 = up_initialized u" "up_part_size u1 = up_part_size u" "up_finalized u1 = up_finalized u"
      unfolding uploads(4) by simp_all
    have run': "UploadBufferImplementation e ?b ?q False ?u0 = (None, u1)" using run uploads(1) by simp
    consider (w) "phase_write e content ps (cs, p, u)" | (f) "phase_finalize e content ps (cs, p, u)"
      | (e) "phase_error (cs, p, u)"
      using inv fl nt by (auto simp: upload_inv_def phase_uncreated_def phase_done_def phase_terminated_def)
    then have "phase_write e content ps (cs, p, ?u2) \<or> phase_finalize e content ps (cs, p, ?u2) \<or> phase_error (cs, p, ?u2)"
    proof cases
      case w
      have "threads_ok e content ps (up_offset u div ps) ?u2"
        by (rule threads_ok_upload [OF _ k _ run' same(1)])
          (use w part_bounds [OF inv ps(1) w] ps(2) in \<open>auto simp: phase_write_def\<close>)
      moreover have "writing_at content ps cs p ?u2"
        using w by (subst writing_at_frame) (auto simp: same phase_write_def)
      ultimately show ?thesis using w nc same by (simp add: phase_write_def)
    next
      case f
      then obtain L where L: "finalizing_at content ps L p u" "threads_ok e content ps L u"
        by (auto simp: phase_finalize_def)
      have "threads_ok e content ps L ?u2"
        by (rule threads_ok_upload [OF L(2) k _ run' same(1)]) (use finalizing_L [OF ps(1) L(1)] ps(2) in simp)
      moreover have "finalizing_at content ps L p ?u2"
        using L(1) by (subst finalizing_at_frame) (auto simp: same)
      ultimately show ?thesis using f nc same by (auto simp: phase_finalize_def)
    next
      case e
      then show ?thesis using nc same by (simp add: phase_error_def)
    qed
    then show ?thesis unfolding U using single so(2) same by (auto simp: upload_inv_def)
  qed
qed

text \<open>A notification only counts.\<close>

lemma notify_frame:
  assumes "NotifyUploadsInProgress u = (r, u1)"
  shows "u1 = u\<lparr>up_in_progress := up_in_progress u1\<rparr>"
  using assms by (auto simp: NotifyUploadsInProgress_def split: if_splits)

definition same_upload :: "upload \<Rightarrow> upload \<Rightarrow> bool" where
  "same_upload u u' \<longleftrightarrow> (\<exists>n m t. u' = u\<lparr>up_in_progress := n, up_ending := m, up_terminated := t\<rparr> \<and>
     (up_terminated u \<longrightarrow> t))"

lemma same_upload_inv:
  assumes "same_upload u u'" and "upload_inv e content ps (cs, p, u)"
  shows "upload_inv e content ps (cs, p, u')"
proof -
  obtain n m t where u': "u' = u\<lparr>up_in_progress := n, up_ending := m, up_terminated := t\<rparr>" "up_terminated u \<longrightarrow> t"
    using assms(1) by (auto simp: same_upload_def)
  have fr: "writing_at content ps cs p u' = writing_at content ps cs p u"
    "\<And>L. finalizing_at content ps L p u' = finalizing_at content ps L p u"
    "\<And>L. threads_ok e content ps L u' = threads_ok e content ps L u"
    by (rule writing_at_frame finalizing_at_frame threads_ok_frame; simp add: u')+
  have "no_complete u' = no_complete u" "single_ok content u' = single_ok content u"
    "create_failed u' = create_failed u" "published e content ps u' = published e content ps u"
    by (simp_all add: no_complete_def single_ok_def create_failed_def published_def u')
  with assms(2) u' show ?thesis unfolding upload_inv_def phase_defs prod.case fr by auto
qed

lemma UploadBuffer_notify_same: "same_upload u (UploadBuffer_notify u)"
proof -
  have "UploadBuffer_notify u = u\<lparr>up_in_progress := up_in_progress u - 1, up_ending := up_ending u - 1,
      up_terminated := (up_in_progress u = 0 \<or> up_terminated u)\<rparr>"
    by (cases u) (simp add: UploadBuffer_notify_def NotifyUploadsInProgress_def)
  then show ?thesis unfolding same_upload_def by blast
qed

lemmas notify_step_inv = same_upload_inv [OF UploadBuffer_notify_same]

section \<open>The writing thread keeps the invariant\<close>

lemma threads_ok_start:
  assumes "threads_ok e content ps L u" and "wb_part b = L"
    and "take (wb_idx b) (wb_data b) = piece content ps L" and "up_initialized u"
  shows "threads_ok e content ps (Suc L) (u\<lparr>up_flying := up_flying u @ [b]\<rparr>)"
proof -
  let ?u = "u\<lparr>up_flying := up_flying u @ [b]\<rparr>"
  note T = threads_okD [OF assms(1)]
  have "L \<notin> wb_part ` set (up_flying u)" using T(2) by force
  then have "distinct (map wb_part (up_flying ?u))" using T(1) assms(2) by simp
  moreover have "\<forall>c \<in> set (up_flying ?u). wb_part c < Suc L \<and> wb_part c \<notin> dom (up_etags ?u) \<and>
      take (wb_idx c) (wb_data c) = piece content ps (wb_part c)"
    using T(2,3) assms(2,3) by (auto simp: less_Suc_eq)
  moreover have "dom (up_etags ?u) \<subseteq> {..<Suc L}" using T(3) by (simp add: lessThan_Suc subset_insertI2)
  moreover have "{..<Suc L} \<subseteq> wb_part ` set (up_flying ?u) \<union> dom (up_etags ?u)"
    using T(4) assms(2) by (auto simp: lessThan_Suc)
  ultimately show ?thesis using T(5,6) assms(4) by (simp add: threads_ok_def)
qed

lemma threads_ok_unsent:
  assumes "threads_ok e content ps L u" and "up_flying u' = up_flying u" "up_etags u' = up_etags u"
    "up_uploaded u' = up_uploaded u" "set (up_sent u) \<subseteq> set (up_sent u')"
    "up_initialized u \<longrightarrow> up_initialized u'" "L = 0 \<or> up_id u' = up_id u"
  shows "threads_ok e content ps L u'"
proof -
  note T = threads_okD [OF assms(1)]
  have "part_sent e content ps (up_id u') p t (up_sent u')" if "up_etags u p = Some t" for p t
  proof -
    have "L \<noteq> 0" using that T(3) by auto
    then have "up_id u' = up_id u" using assms(7) by blast
    moreover have "part_sent e content ps (up_id u) p t (up_sent u)" using T(6) that by blast
    ultimately show ?thesis using part_sent_mono [OF _ assms(5)] by simp
  qed
  with T assms(2-4,6) show ?thesis unfolding threads_ok_def by auto
qed

lemma initialize_failed:
  assumes "InitializeMultipartUpload e u = (Inl ex, u1)"
  shows "create_failed u1"
proof -
  obtain r out u2 where p: "upload_post e [] ''uploads='' u = (r, out, u2)" by (metis surj_pair)
  then obtain inp where u2: "u2 = u\<lparr>up_input := inp, up_sent := up_sent u @ [SentPost ''uploads='' [] r out]\<rparr>"
    by (rule upload_post_frame)
  show ?thesis unfolding create_failed_def
    by (rule exI [of _ r], rule exI [of _ out])
      (use assms p u2 in \<open>auto simp: InitializeMultipartUpload_def split: sum.splits option.splits if_splits\<close>)
qed

lemma init_keeps:
  assumes "InitializeMultipartUpload e u = (res, u1)"
  shows "no_complete u1 = no_complete u" "single_ok content u1 = single_ok content u"
    "create_failed u \<longrightarrow> create_failed u1" "set (up_sent u) \<subseteq> set (up_sent u1)"
proof -
  obtain inp r out where u1: "u1 = u\<lparr>up_input := inp, up_sent := up_sent u @ [SentPost ''uploads='' [] r out],
      up_initialized := (case res of Inl _ \<Rightarrow> up_initialized u | Inr _ \<Rightarrow> True)\<rparr>"
    using assms by (rule initialize_frame)
  then have s: "set (up_sent u1) = insert (SentPost ''uploads='' [] r out) (set (up_sent u))" by simp
  show "no_complete u1 = no_complete u" by (auto simp: no_complete_def s)
  show "single_ok content u1 = single_ok content u" by (auto simp: single_ok_def s)
  show sub: "set (up_sent u) \<subseteq> set (up_sent u1)" by (auto simp: s)
  show "create_failed u \<longrightarrow> create_failed u1" using sub unfolding create_failed_def by blast
qed

text \<open>After an error the writing thread sends nothing more.\<close>

lemma error_main:
  assumes "main_turn e p u = Some (p', u')" and "up_errors u \<noteq> []" and "up_initialized u" and "\<not> up_finalized u"
  shows "up_errors u' = up_errors u \<and> up_initialized u' \<and> \<not> up_finalized u' \<and> up_sent u' = up_sent u \<and>
    up_part_size u' = up_part_size u \<and> (in_write p' \<longrightarrow> in_write p)"
proof -
  have gb: "up_errors w = up_errors v \<and> up_initialized w = up_initialized v \<and> up_finalized w = up_finalized v \<and>
      up_sent w = up_sent v \<and> up_part_size w = up_part_size v \<and>
      (in_write q \<longrightarrow> to_write b)" if "go_back b v = (q, w)" for b v q w
    using that by (cases b) (auto simp: count_bytes_def)
  show ?thesis using assms
    by (cases "(e, p, u)" rule: main_turn.cases)
      (auto simp: write_turn_def claim_turn_def start_turn_def finalize_turn_def complete_turn_def
        RethrowIOError_def GetBuffer_def put_buffer_def drop_buffer_def count_bytes_def Let_def
        dest!: gb split: if_splits option.splits prod.splits)
qed

lemma error_phase_main:
  assumes "main_turn e p u = Some (p', u')" and "phase_error (cs, p, u)" and "single_ok content u"
  shows "phase_error (cs, p', u') \<and> single_ok content u' \<and> up_part_size u' = up_part_size u"
  using error_main [OF assms(1)] assms(2,3) by (auto simp: phase_error_def no_complete_def single_ok_def)

lemma done_phase_main:
  assumes "main_turn e p u = Some (p', u')" and "phase_done e content ps (cs, p, u)"
  shows "phase_done e content ps (cs, p', u') \<and> u' = u"
  using assms by (auto simp: phase_done_def finalize_turn_def)

lemma initialize_fields:
  assumes "InitializeMultipartUpload e u = (res, u1)"
  shows "up_errors u1 = up_errors u" "up_finalized u1 = up_finalized u" "up_buffers u1 = up_buffers u"
    "up_flying u1 = up_flying u" "up_uploaded u1 = up_uploaded u" "up_etags u1 = up_etags u"
    "up_part_size u1 = up_part_size u" "up_offset u1 = up_offset u" "up_id u1 = up_id u"
    "up_in_progress u1 = up_in_progress u" "up_ending u1 = up_ending u" "up_terminated u1 = up_terminated u"
    "up_max_threads u1 = up_max_threads u"
    "up_initialized u1 = (case res of Inl _ \<Rightarrow> up_initialized u | Inr _ \<Rightarrow> True)"
proof -
  obtain inp r out where "u1 = u\<lparr>up_input := inp, up_sent := up_sent u @ [SentPost ''uploads='' [] r out],
      up_initialized := (case res of Inl _ \<Rightarrow> up_initialized u | Inr _ \<Rightarrow> True)\<rparr>"
    using assms by (rule initialize_frame)
  then show "up_errors u1 = up_errors u" "up_finalized u1 = up_finalized u" "up_buffers u1 = up_buffers u"
    "up_flying u1 = up_flying u" "up_uploaded u1 = up_uploaded u" "up_etags u1 = up_etags u"
    "up_part_size u1 = up_part_size u" "up_offset u1 = up_offset u" "up_id u1 = up_id u"
    "up_in_progress u1 = up_in_progress u" "up_ending u1 = up_ending u" "up_terminated u1 = up_terminated u"
    "up_max_threads u1 = up_max_threads u"
    "up_initialized u1 = (case res of Inl _ \<Rightarrow> up_initialized u | Inr _ \<Rightarrow> True)"
    by simp_all
qed

lemma sent_only [simp]:
  "no_complete (u\<lparr>up_id := i\<rparr>) = no_complete u" "single_ok content (u\<lparr>up_id := i\<rparr>) = single_ok content u"
  "create_failed (u\<lparr>up_id := i\<rparr>) = create_failed u"
  by (simp_all add: no_complete_def single_ok_def create_failed_def)

lemma uncreated_phase_main:
  assumes "main_turn e p u = Some (p', u')" and "phase_uncreated (cs, p, u)" and "single_ok content u"
  shows "phase_uncreated (cs, p', u') \<and> single_ok content u' \<and> up_part_size u' = up_part_size u"
proof -
  have X: "up_errors u = []" "\<not> up_finalized u" "no_complete u" "create_failed u" "up_buffers u = []"
    "up_flying u = []" "up_uploaded u = 0"
    and p: "p = Finalizing \<or> p = FlushingAll [] \<or> p = AwaitingUploads \<or> p = Returned \<or> (\<exists>ex. p = Threw ex)"
    and cs: "p \<in> {Finalizing, FlushingAll [], AwaitingUploads, Returned} \<longrightarrow> only_finalize cs"
    using assms(2) by (auto simp: phase_uncreated_def)
  show ?thesis
  proof (cases "p = Finalizing \<and> \<not> up_initialized u")
    case True
    obtain res u1 where run: "InitializeMultipartUpload e u = (res, u1)" by fastforce
    have k: "no_complete u1" "create_failed u1" "single_ok content u1"
      using init_keeps [OF run] X assms(3) by blast+
    have k2: "up_errors u1 = []" "\<not> up_finalized u1" "up_buffers u1 = []" "up_flying u1 = []"
      "up_uploaded u1 = 0" "up_part_size u1 = up_part_size u"
      using X by (simp_all add: initialize_fields [OF run])
    have "(\<exists>ex. p' = Threw ex) \<and> u' = u1 \<or> (\<exists>i. p' = FlushingAll [] \<and> u' = u1\<lparr>up_id := i\<rparr>)"
      using assms(1) True X(2,5) run by (cases res) (auto simp: finalize_turn_def)
    then show ?thesis using k k2 cs True by (auto simp: phase_uncreated_def intro: only_finalize_calls)
  next
    case False
    have "u' = u \<and> (p' = FlushingAll [] \<or> p' = AwaitingUploads \<or> p' = Returned) \<and>
        p \<in> {Finalizing, FlushingAll [], AwaitingUploads, Returned}"
      using p False assms(1) X(1,2,5,7)
      by (elim disjE exE) (simp_all add: finalize_turn_def complete_turn_def RethrowIOError_def split: if_splits)
    then show ?thesis using assms(3) X cs by (simp add: phase_uncreated_def) blast
  qed
qed

text \<open>Finalize from its start: go on to the parts, create the upload, or send the only part.\<close>

lemma buf_at_end:
  assumes "buf_at content ps (length content) bs"
  shows "bs = [] \<and> length content mod ps = 0 \<or>
    (\<exists>b. bs = [(length content div ps, b)] \<and> last_part content ps b \<and> \<not> wb_uploading b)"
  using assms by (auto simp: buf_at_def last_part_def split: if_splits)

lemma part_list_total:
  "{..<n} \<subseteq> dom etags \<Longrightarrow> \<exists>parts. part_list etags [k..<n] = Some parts"
proof (induction "n - k" arbitrary: k)
  case 0
  then show ?case by simp
next
  case (Suc m)
  then have "k < n" by simp
  moreover from this Suc(3) have "etags k \<noteq> None" by blast
  moreover have "m = n - Suc k" using Suc(2) by simp
  from Suc(1) [OF this Suc(3)] obtain parts where "part_list etags [Suc k..<n] = Some parts" ..
  ultimately show ?case by (auto simp: upt_conv_Cons)
qed

lemma no_complete_append:
  "up_sent u' = up_sent u @ [SentPut q d r] \<Longrightarrow> no_complete u \<Longrightarrow> no_complete u'"
  by simp

lemma finalize_turn_phase:
  assumes "finalize_turn e u = (p', u')" and "phase_finalize e content ps (cs, Finalizing, u)"
    and "single_ok content u" and ps: "0 < ps"
  shows "(phase_finalize e content ps (cs, p', u') \<or> phase_done e content ps (cs, p', u')) \<and>
    single_ok content u' \<and> up_part_size u' = up_part_size u"
proof -
  let ?L = "length content div ps"
  have F: "only_finalize cs" "up_errors u = []" "\<not> up_finalized u" "no_complete u" "up_offset u = length content"
    "buf_at content ps (length content) (up_buffers u)" "threads_ok e content ps ?L u"
    using assms(2) by (auto simp: phase_finalize_def)
  note T = threads_okD [OF F(7)]
  show ?thesis
  proof (cases "up_initialized u")
    case True
    then have "p' = FlushingAll (map snd (up_buffers u))" "u' = u"
      using assms(1) F(3) by (auto simp: finalize_turn_def)
    with F True assms(3) show ?thesis by (auto simp: phase_finalize_def)
  next
    case False
    then have L0: "?L = 0" using T(7) by blast
    then have short: "length content < ps" using ps by (simp add: div_eq_0_iff)
    have fl: "up_flying u = []" using no_flying_at_0 F(7) L0 by simp
    show ?thesis
    proof (cases "length (up_buffers u) = 1 \<and> kms_key_id (ip_auth (fst (up_input u))) = ''''")
      case True
      obtain b where b: "up_buffers u = [(?L, b)]" "last_part content ps b"
        using buf_at_end [OF F(6)] True by auto
      have whole: "take (wb_idx b) (wb_data b) = content"
        using b(2) short L0 by (auto simp: last_part_def holds_def slice_full)
      obtain r u1 where run: "UploadBufferImplementation e b '''' True u = (r, u1)" by fastforce
      have step: "(p', u') = (case r of Some ex \<Rightarrow> (Threw ex, u1) | None \<Rightarrow> (Returned, u1\<lparr>up_finalized := True\<rparr>))"
        using assms(1) F(3) False True b(1) run by (simp add: finalize_turn_def UploadSingleBuffer_def)
      from run show ?thesis
      proof (cases rule: upload_impl_cases)
        case (escapes ex res inp)
        then have s: "up_sent u1 = up_sent u @ [SentPut '''' content res]" by (simp add: whole)
        have "threads_ok e content ps ?L u1"
          by (rule threads_ok_unsent [OF F(7)]) (use escapes(2) in \<open>auto simp: L0\<close>)
        moreover have "no_complete u1" by (rule no_complete_append [OF s F(4)])
        moreover have "single_ok content u1" by (rule single_ok_put [OF s assms(3)]) simp
        moreover have "up_errors u1 = []" "\<not> up_finalized u1" "up_offset u1 = length content"
          "up_buffers u1 = up_buffers u" "up_part_size u1 = up_part_size u"
          using F unfolding escapes(2) by simp_all
        ultimately show ?thesis using step escapes(1) F(1,6) by (auto simp: phase_finalize_def)
      next
        case (fails ex res inp)
        then show ?thesis by simp
      next
        case (uploads rp inp etag)
        have s: "up_sent u1 = up_sent u @ [SentPut '''' content (Inr (Some rp))]" unfolding uploads(4) by (simp add: whole)
        have "no_complete u1" by (rule no_complete_append [OF s F(4)])
        moreover have "single_ok content u1" by (rule single_ok_put [OF s assms(3)]) simp
        moreover have "SentPut '''' content (Inr (Some rp)) \<in> set (up_sent u1)" using s by simp
        moreover have "up_flying u1 = []" "up_part_size u1 = up_part_size u" using fl unfolding uploads(4) by simp_all
        ultimately show ?thesis using step uploads(1,2) F(1)
          by (auto simp: phase_done_def published_def no_complete_def single_ok_def)
      qed
    next
      case multi: False
      obtain res u1 where run: "InitializeMultipartUpload e u = (res, u1)" by fastforce
      note f = initialize_fields [OF run] and k = init_keeps [OF run]
      have "(\<exists>ex. p' = Threw ex) \<and> u' = u1 \<or>
          (\<exists>i. p' = FlushingAll (map snd (up_buffers u)) \<and> u' = u1\<lparr>up_id := i\<rparr> \<and> up_initialized u1)"
        using assms(1) multi F(3) False run f(14) by (cases res) (auto simp: finalize_turn_def)
      moreover have "threads_ok e content ps ?L u1" "threads_ok e content ps ?L (u1\<lparr>up_id := i\<rparr>)" for i
        by (rule threads_ok_unsent [OF F(7)]; use f k(4) False L0 in simp)+
      moreover have "no_complete u1" "single_ok content u1" using k(1,2) F(4) assms(3) by blast+
      moreover have "up_errors u1 = []" "\<not> up_finalized u1" "up_offset u1 = length content"
        "up_buffers u1 = up_buffers u" "up_part_size u1 = up_part_size u"
        using F f by simp_all
      ultimately show ?thesis using F(1,6) by (auto simp: phase_finalize_def)
    qed
  qed
qed

text \<open>The end of Finalize.\<close>

lemma complete_turn_phase:
  assumes "complete_turn e u = (p', u')" and "phase_finalize e content ps (cs, AwaitingUploads, u)"
    and "single_ok content u" and fl: "up_flying u = []" and ps: "0 < ps"
  shows "(phase_finalize e content ps (cs, p', u') \<or> phase_done e content ps (cs, p', u')) \<and>
    single_ok content u' \<and> up_part_size u' = up_part_size u"
proof -
  let ?N = "part_count content ps"
  have F: "only_finalize cs" "up_errors u = []" "\<not> up_finalized u" "no_complete u" "up_offset u = length content"
    "up_buffers u = []" "threads_ok e content ps ?N u"
    using assms(2) by (auto simp: phase_finalize_def)
  note T = threads_okD [OF F(7)]
  have dom: "dom (up_etags u) = {..<?N}" using T(3,4) fl by auto
  then have N: "up_uploaded u = ?N" using T(5) by simp
  show ?thesis
  proof (cases "?N = 0")
    case True
    then have "length content = 0" using ps by (auto simp: part_count_mult split: if_splits)
    then have "content = []" by simp
    moreover have "p' = Returned" "u' = u"
      using assms(1) F(2) N True by (auto simp: complete_turn_def RethrowIOError_def)
    ultimately show ?thesis using F True assms(3) by (auto simp: phase_finalize_def)
  next
    case False
    let ?q = "''uploadId='' @ UrlEncode (sv_su (ue_s3 e)) (up_id u) True"
    let ?u0 = "u\<lparr>up_finalized := True\<rparr>"
    obtain parts where parts: "part_list (up_etags u) [0..<?N] = Some parts"
      using part_list_total [of ?N "up_etags u" 0] dom by auto
    obtain r u1 where run: "complete_upload e (complete_body parts) ?q (retries (ip_params (fst (up_input u)))) ?u0 = (r, u1)"
      by fastforce
    then obtain inp xs where u1: "u1 = ?u0\<lparr>up_input := inp, up_sent := up_sent ?u0 @ xs\<rparr>" "xs \<noteq> []"
      "\<forall>x \<in> set xs. \<exists>r out. x = SentPost ?q (complete_body parts) r out"
      by (blast dest: complete_upload_frame)
    have step: "(p', u') = (case r of Some ex \<Rightarrow> (Threw ex, u1) | None \<Rightarrow> (Returned, u1))"
      using assms(1) F(2,3) N False parts run
      by (simp add: complete_turn_def RethrowIOError_def FinalizeMultipartUpload_def split: option.splits)
    then have pu: "u' = u1" "p' = Returned \<or> (\<exists>ex. p' = Threw ex)" by (auto split: option.splits)
    have sent: "up_sent u' = up_sent u @ xs" unfolding pu(1) u1(1) by simp
    have body: "complete_body parts \<noteq> []" by (simp add: complete_body_def)
    have "\<forall>p < ?N. \<exists>etag. up_etags u p = Some etag \<and> part_sent e content ps (up_id u) p etag (up_sent u')"
    proof (intro allI impI)
      fix j assume "j < ?N"
      then obtain etag where et: "up_etags u j = Some etag" using dom by (metis domD lessThan_iff)
      with T(6) have "part_sent e content ps (up_id u) j etag (up_sent u)" by blast
      then have "part_sent e content ps (up_id u) j etag (up_sent u')"
        by (rule part_sent_mono) (simp add: sent)
      with et show "\<exists>etag. up_etags u j = Some etag \<and> part_sent e content ps (up_id u) j etag (up_sent u')"
        by blast
    qed
    with parts have ok: "completes e content ps (up_sent u') ?q (complete_body parts)"
      unfolding completes_def by blast
    have "published e content ps u'"
      unfolding published_def
    proof (intro disjI2 conjI allI impI)
      obtain x where "x \<in> set xs" using u1(2) by (cases xs) auto
      with u1(3) obtain r out where "SentPost ?q (complete_body parts) r out \<in> set (up_sent u')"
        unfolding sent by fastforce
      with body show "\<exists>q b r out. SentPost q b r out \<in> set (up_sent u') \<and> b \<noteq> []" by blast
    next
      fix q b r out assume "SentPost q b r out \<in> set (up_sent u') \<and> b \<noteq> []"
      then have "SentPost q b r out \<in> set xs" using F(4) unfolding sent no_complete_def by auto
      with u1(3) have "q = ?q \<and> b = complete_body parts" by blast
      with ok show "completes e content ps (up_sent u') q b" by simp
    qed
    moreover have "single_ok content u'"
      using assms(3) u1(3) unfolding single_ok_def sent by fastforce
    moreover have "up_finalized u'" "up_flying u' = []" "up_part_size u' = up_part_size u"
      using fl unfolding pu(1) u1(1) by simp_all
    ultimately show ?thesis using F(1) pu(2) by (auto simp: phase_done_def)
  qed
qed

text \<open>FlushBuffer on a claimed buffer.\<close>

lemma claim_turn_free:
  assumes "up_errors u = []" and "up_buffers u = [(k, b)]" and "wb_part b = k" and "k < w16"
    and "wb_idx b \<noteq> 0" and "\<not> wb_uploading b"
  shows "claim_turn e b back u = (WaitingForThread (b\<lparr>wb_uploading := True\<rparr>) back, u\<lparr>up_buffers := []\<rparr>)"
  using assms by (simp add: claim_turn_def RethrowIOError_def put_buffer_def drop_buffer_def Let_def)

lemma holds_uploading [simp]:
  "holds content ps (b\<lparr>wb_uploading := x\<rparr>) k n = holds content ps b k n"
  "last_part content ps (b\<lparr>wb_uploading := x\<rparr>) = last_part content ps b"
  by (simp_all add: holds_def last_part_def)

lemma last_part_piece:
  assumes "last_part content ps b" and "0 < ps"
  shows "take (wb_idx b) (wb_data b) = piece content ps (length content div ps)"
    and "wb_part b = length content div ps" and "wb_idx b \<noteq> 0"
    and "part_count content ps = Suc (length content div ps)"
proof -
  let ?k = "length content div ps" and ?r = "length content mod ps"
  have b: "?r \<noteq> 0" "wb_part b = ?k" "wb_idx b = ?r" "take ?r (wb_data b) = slice content (?k * ps) ?r"
    using assms(1) by (auto simp: last_part_def holds_def)
  have "length content - ?k * ps = ?r" by (metis minus_div_mult_eq_mod)
  then have "slice content (?k * ps) ?r = piece content ps ?k"
    using assms(2) by (simp add: slice_def piece_def less_imp_le)
  with b show "take (wb_idx b) (wb_data b) = piece content ps ?k" "wb_part b = ?k" "wb_idx b \<noteq> 0"
    "part_count content ps = Suc ?k"
    using assms(2) by (simp_all add: part_count_mult)
qed

lemma finalize_phase_main:
  assumes "main_turn e p u = Some (p', u')" and "phase_finalize e content ps (cs, p, u)"
    and "single_ok content u" and ps: "0 < ps" "part_count content ps < w16"
    and fl: "up_in_progress u = 0 \<longrightarrow> up_flying u = [] \<or> p \<noteq> AwaitingUploads"
  shows "(phase_finalize e content ps (cs, p', u') \<or> phase_done e content ps (cs, p', u')) \<and>
    single_ok content u' \<and> up_part_size u' = up_part_size u"
proof -
  let ?k = "length content div ps"
  have F: "only_finalize cs" "up_errors u = []" "\<not> up_finalized u" "no_complete u" "up_offset u = length content"
    using assms(2) by (auto simp: phase_finalize_def)
  obtain L where L: "finalizing_at content ps L p u" "threads_ok e content ps L u"
    using assms(2) by (auto simp: phase_finalize_def)
  show ?thesis
  proof (cases p)
    case Finalizing
    then show ?thesis using finalize_turn_phase [OF _ _ assms(3) ps(1)] assms(1,2) by simp
  next
    case AwaitingUploads
    then show ?thesis using complete_turn_phase [OF _ _ assms(3) _ ps(1)] assms(1,2) fl
      by (auto split: if_splits)
  next
    case (FlushingAll bs)
    show ?thesis
    proof (cases bs)
      case Nil
      then have "up_buffers u = [] \<and> L = part_count content ps"
        using L(1) FlushingAll buf_at_end [of content ps "up_buffers u"] ps(1) by (auto simp: part_count_mult)
      moreover have "p' = AwaitingUploads" "u' = u" using assms(1) FlushingAll Nil by simp_all
      ultimately show ?thesis using F L(2) assms(3) by (auto simp: phase_finalize_def)
    next
      case (Cons b bs')
      then have "bs' = []" "up_buffers u = [(?k, b)]" "last_part content ps b" "\<not> wb_uploading b"
        "L = ?k" "up_initialized u"
        using L(1) FlushingAll buf_at_end [of content ps "up_buffers u"] by auto
      moreover from this have "p' = Claiming b (InFlushAll [])" "u' = u" using assms(1) FlushingAll Cons by simp_all
      ultimately show ?thesis using F L(2) assms(3) by (auto simp: phase_finalize_def)
    qed
  next
    case (Claiming b ret)
    then obtain bs where ret: "ret = InFlushAll bs" using L(1) by (cases ret) auto
    with L(1) Claiming have c: "bs = []" "last_part content ps b" "\<not> wb_uploading b" "up_buffers u = [(?k, b)]"
      "L = ?k" "up_initialized u" by auto
    have "?k < w16" using last_part_piece(4) [OF c(2) ps(1)] ps(2) by simp
    then have "p' = WaitingForThread (b\<lparr>wb_uploading := True\<rparr>) ret" "u' = u\<lparr>up_buffers := []\<rparr>"
      using claim_turn_free [OF F(2) c(4) last_part_piece(2) [OF c(2) ps(1)] _ last_part_piece(3) [OF c(2) ps(1)] c(3)]
        assms(1) Claiming by simp_all
    moreover have "threads_ok e content ps L (u\<lparr>up_buffers := []\<rparr>)" using L(2) by (subst threads_ok_frame) simp_all
    ultimately show ?thesis using F c ret assms(3)
      by (auto simp: phase_finalize_def no_complete_def single_ok_def)
  next
    case (WaitingForThread b ret)
    then obtain bs where ret: "ret = InFlushAll bs" using L(1) by (cases ret) auto
    let ?u = "u\<lparr>up_in_progress := (up_in_progress u + 1) mod w16\<rparr>"
    have "p' = Starting b ret" "u' = ?u" using assms(1) WaitingForThread by (auto split: if_splits)
    moreover have "threads_ok e content ps L ?u" using L(2) by (subst threads_ok_frame) simp_all
    ultimately show ?thesis using F L(1) WaitingForThread ret assms(3)
      by (auto simp: phase_finalize_def no_complete_def single_ok_def)
  next
    case (Starting b ret)
    then obtain bs where ret: "ret = InFlushAll bs" using L(1) by (cases ret) auto
    with L(1) Starting have c: "bs = []" "last_part content ps b" "up_buffers u = []" "L = ?k" "up_initialized u"
      by auto
    let ?u = "u\<lparr>up_flying := up_flying u @ [b]\<rparr>"
    have "p' = FlushingAll []" "u' = ?u" using assms(1) Starting ret c by (auto simp: start_turn_def)
    moreover have "threads_ok e content ps (Suc ?k) ?u"
      using threads_ok_start [OF L(2)] last_part_piece [OF c(2) ps(1)] c by simp
    ultimately show ?thesis using F c last_part_piece(4) [OF c(2) ps(1)] assms(3)
      by (auto simp: phase_finalize_def no_complete_def single_ok_def)
  next
    case (Writing data loc)
    then show ?thesis using L(1) by simp
  next
    case Returned
    then show ?thesis using assms(1) by simp
  next
    case (Threw ex)
    then show ?thesis using assms(1) by simp
  qed
qed

text \<open>One turn of Write: the bytes go to the buffer of their part.\<close>

lemma write_turn_buffer:
  assumes "buf_at content ps loc (up_buffers u)" and "up_part_size u = ps" and "0 < ps"
    and "loc div ps < w16" and "loc < w64"
  obtains b where "GetBuffer (loc div ps) u = (b, u\<lparr>up_buffers := [(loc div ps, b)]\<rparr>)"
    and "holds content ps b (loc div ps) (loc mod ps)" and "\<not> wb_uploading b"
proof (cases "loc mod ps = 0")
  case True
  let ?k = "loc div ps"
  have "?k * ps \<le> loc" by (metis div_mult_mod_eq le_add1)
  then have "?k * ps < w64" using assms(5) by (rule le_less_trans)
  then have "mul64 ?k ps = ?k * ps" by (rule mul64_exact)
  then have "GetBuffer ?k u = (new_write_buffer (?k * ps) ps, u\<lparr>up_buffers := [(?k, new_write_buffer (?k * ps) ps)]\<rparr>)"
    using assms(1,2,4) True by (simp add: GetBuffer_def buf_at_def Let_def)
  moreover have "holds content ps (new_write_buffer (?k * ps) ps) ?k (loc mod ps)"
    "\<not> wb_uploading (new_write_buffer (?k * ps) ps)"
    using assms(3) True by (simp_all add: holds_def new_write_buffer_def slice_0)
  ultimately show thesis by (rule that)
next
  case False
  then obtain b where b: "up_buffers u = [(loc div ps, b)]" "holds content ps b (loc div ps) (loc mod ps)"
    "\<not> wb_uploading b"
    using assms(1) by (auto simp: buf_at_def)
  then have "GetBuffer (loc div ps) u = (b, u\<lparr>up_buffers := [(loc div ps, b)]\<rparr>)"
    using assms(4) by (simp add: GetBuffer_def)
  then show thesis using b(2,3) by (rule that)
qed

lemma holds_extend:
  assumes "holds content ps b k r" and "r + length d \<le> ps" and "d = slice content (k * ps + r) (length d)"
  shows "holds content ps (b\<lparr>wb_data := overwrite (wb_data b) r d, wb_idx := r + length d\<rparr>) k (r + length d)"
proof -
  have b: "wb_part b = k" "wb_start b = k * ps" "length (wb_data b) = ps" "take r (wb_data b) = slice content (k * ps) r"
    using assms(1) by (auto simp: holds_def)
  have "take (r + length d) (overwrite (wb_data b) r d) = slice content (k * ps) r @ slice content (k * ps + r) (length d)"
    using take_overwrite_upto [of r d "wb_data b"] assms(2,3) b(3,4) by simp
  then show ?thesis using b assms(2) by (simp add: holds_def slice_append_slice)
qed

lemma write_turn_exact:
  assumes "buf_at content ps loc (up_buffers u)" and "up_part_size u = ps" and "0 < ps"
    and "loc div ps < w16" and "length content < w64" "ps < w64"
    and "loc = up_offset u" and "data \<noteq> []" and "drop loc content = data @ later"
  obtains b n where "write_turn data loc u =
      (if loc mod ps + n = ps
       then (Claiming b (InWrite (drop n data) n loc), u\<lparr>up_buffers := [(loc div ps, b)]\<rparr>)
       else (Writing [] (loc + n), count_bytes n (u\<lparr>up_buffers := [(loc div ps, b)]\<rparr>)))"
    and "n = min (length data) (ps - loc mod ps)"
    and "holds content ps b (loc div ps) (loc mod ps + n)" and "\<not> wb_uploading b"
proof -
  let ?k = "loc div ps" and ?r = "loc mod ps"
  have "length (drop loc content) = length (data @ later)" using assms(9) by simp
  then have "length content - loc = length data + length later" by simp
  moreover have "0 < length data" using assms(8) by simp
  ultimately have fit: "loc + length data \<le> length content" by linarith
  then have loc: "loc < w64" using assms(5) by simp
  have kr: "?k * ps + ?r = loc" by (rule div_mult_mod_eq)
  have r: "?r < ps" using assms(3) by simp
  obtain b where b: "GetBuffer ?k u = (b, u\<lparr>up_buffers := [(?k, b)]\<rparr>)" "holds content ps b ?k ?r" "\<not> wb_uploading b"
    using write_turn_buffer [OF assms(1-4) loc] by blast
  define n where "n = min (length data) (ps - ?r)"
  have bs: "wb_start b = ?k * ps" "wb_idx b = ?r" "length (wb_data b) = ps" using b(2) by (auto simp: holds_def)
  have idx: "sub64 loc (wb_start b) = ?r"
  proof -
    have "?k * ps \<le> loc" using kr by linarith
    then have "sub64 loc (?k * ps) = loc - ?k * ps" using loc by (simp add: sub64_exact)
    then show ?thesis unfolding bs(1) by (simp add: minus_div_mult_eq_mod)
  qed
  have sz: "sub64 ps ?r = ps - ?r" using r assms(6) by (simp add: sub64_exact)
  have n: "?r + n \<le> ps" "n \<le> length data" "add64 ?r n = ?r + n" "add64 loc n = loc + n"
    using r assms(5,6) fit by (auto simp: n_def add64_exact)
  let ?b = "b\<lparr>wb_data := overwrite (wb_data b) ?r (take n data), wb_idx := ?r + n\<rparr>"
  have d: "take n data = slice content (?k * ps + ?r) n"
    using kr assms(9) n(2) by (simp add: slice_def)
  have len: "length (take n data) = n" using n(2) by simp
  have h: "holds content ps ?b ?k (?r + n)"
    by (rule holds_extend [OF b(2), of "take n data", unfolded len, OF n(1) d])
  have put: "put_buffer ?k b' (u\<lparr>up_buffers := [(?k, b)]\<rparr>) = u\<lparr>up_buffers := [(?k, b')]\<rparr>" for b'
    by (simp add: put_buffer_def)
  have cases_eq: "(ps \<le> ?r + n) = (?r + n = ps)" using n(1) by auto
  have rest: "?r + n \<noteq> ps \<longrightarrow> drop n data = []" using r by (auto simp: n_def min_def)
  have "write_turn data loc u =
      (if ?r + n = ps then (Claiming ?b (InWrite (drop n data) n loc), u\<lparr>up_buffers := [(?k, ?b)]\<rparr>)
       else (Writing [] (loc + n), count_bytes n (u\<lparr>up_buffers := [(?k, ?b)]\<rparr>)))"
  proof -
    have off: "up_offset u = loc" and ps0: "(ps = 0) = False" and m: "?k mod w16 = ?k"
      and nb: "(length (wb_data b) < ?r + n) = False" and nidx: "add64 (wb_idx b) n = ?r + n"
      using assms(3,4,7) n(1,3) bs(2,3) by simp_all
    have widx: "wb_idx ?b = ?r + n" by simp
    have "write_turn data loc u =
        (if ps \<le> ?r + n then (Claiming ?b (InWrite (drop n data) n loc), u\<lparr>up_buffers := [(?k, ?b)]\<rparr>)
         else (Writing (drop n data) (loc + n), count_bytes n (u\<lparr>up_buffers := [(?k, ?b)]\<rparr>)))"
      unfolding write_turn_def Let_def assms(2) b(1) prod.case idx sz n_def [symmetric] off ps0 m nb nidx n(4) put
      using assms(8) by (simp only: simp_thms if_False widx)
    then show ?thesis using rest by (simp only: cases_eq split: if_split) simp
  qed
  then show thesis using n_def h b(3) by (intro that [of n ?b]) simp_all
qed

lemma div_mod_below:
  fixes loc n ps :: nat
  assumes "loc mod ps + n < ps"
  shows "(loc + n) div ps = loc div ps" "(loc + n) mod ps = loc mod ps + n"
proof -
  have eq: "loc + n = (loc mod ps + n) + (loc div ps) * ps" using div_mult_mod_eq [of loc ps] by linarith
  have "ps \<noteq> 0" using assms by simp
  then have "(loc + n) div ps = loc div ps + (loc mod ps + n) div ps" unfolding eq by (rule div_mult_self1)
  then show "(loc + n) div ps = loc div ps" using assms by simp
  have "(loc + n) mod ps = (loc mod ps + n) mod ps" unfolding eq by (rule mod_mult_self1)
  then show "(loc + n) mod ps = loc mod ps + n" using assms by simp
qed

lemma write_turn_phase:
  assumes "write_turn data loc u = (p', u')" and "phase_write e content ps (cs, Writing data loc, u)"
    and "up_part_size u = ps" and ps: "0 < ps" "part_count content ps < w16" "length content < w64" "ps < w64"
  shows "phase_write e content ps (cs, p', u') \<and> up_sent u' = up_sent u \<and> up_part_size u' = up_part_size u"
proof -
  have W: "FinalizeCall \<in> set cs" "up_errors u = []" "\<not> up_finalized u" "no_complete u"
    "loc = up_offset u" "drop loc content = data @ pending cs" "loc \<le> length content"
    "calls_from (loc + length data) cs" "buf_at content ps loc (up_buffers u)"
    "threads_ok e content ps (loc div ps) u"
    using assms(2) by (auto simp: phase_write_def)
  show ?thesis
  proof (cases "data = []")
    case True
    then have "p' = Returned" "u' = u" using assms(1) by (simp_all add: write_turn_def)
    with W True show ?thesis by (simp add: phase_write_def)
  next
    case False
    have k: "loc div ps < w16" using div_le_part_count [OF ps(1) W(7)] ps(2) by simp
    obtain b n where step: "write_turn data loc u =
      (if loc mod ps + n = ps
       then (Claiming b (InWrite (drop n data) n loc), u\<lparr>up_buffers := [(loc div ps, b)]\<rparr>)
       else (Writing [] (loc + n), count_bytes n (u\<lparr>up_buffers := [(loc div ps, b)]\<rparr>)))"
      and n: "n = min (length data) (ps - loc mod ps)"
      and h: "holds content ps b (loc div ps) (loc mod ps + n)" "\<not> wb_uploading b"
      using write_turn_exact [OF W(9) assms(3) ps(1) k ps(3,4) W(5) False W(6)] by blast
    have "length content - loc = length data + length (pending cs)"
      using arg_cong [OF W(6), of length] by simp
    then have fit: "loc + length data \<le> length content" using W(7) by linarith
    have nd: "n \<le> length data" "0 < n" using False n ps(1) by simp_all
    have later: "drop (loc + n) content = drop n data @ pending cs"
      using nd(1) W(6) by (metis add.commute drop_append diff_is_0_eq drop0 drop_drop)
    have calls: "calls_from (loc + n + length (drop n data)) cs" using W(8) nd(1) by simp
    show ?thesis
    proof (cases "loc mod ps + n = ps")
      case True
      let ?u = "u\<lparr>up_buffers := [(loc div ps, b)]\<rparr>"
      have pu: "p' = Claiming b (InWrite (drop n data) n loc)" "u' = ?u" using assms(1) step True by simp_all
      have "loc + n = (loc div ps + 1) * ps"
        using True div_mult_mod_eq [of loc ps] by (simp only: distrib_right mult_1)
      moreover have "threads_ok e content ps (loc div ps) ?u" using W(10) by (subst threads_ok_frame) simp_all
      ultimately show ?thesis
        using W h later calls fit nd True unfolding pu by (simp add: phase_write_def no_complete_def)
    next
      case False
      let ?u = "count_bytes n (u\<lparr>up_buffers := [(loc div ps, b)]\<rparr>)"
      have pu: "p' = Writing [] (loc + n)" "u' = ?u" using assms(1) step False by simp_all
      have all: "n = length data" and below: "loc mod ps + n < ps"
        using n False ps(1) mod_less_divisor [OF ps(1), of loc] by (auto simp: min_def split: if_splits)
      have add: "add64 loc n = loc + n" using fit all ps(3) by (simp add: add64_exact)
      have off: "up_offset ?u = loc + n" using W(5) add by (simp add: count_bytes_def)
      have bufs: "up_buffers ?u = [(loc div ps, b)]" by (simp add: count_bytes_def)
      have "buf_at content ps (loc + n) (up_buffers ?u)"
        using h nd(2) unfolding buf_at_def bufs div_mod_below [OF below] by simp
      moreover have "threads_ok e content ps ((loc + n) div ps) ?u"
        using W(10) unfolding div_mod_below(1) [OF below] by (subst threads_ok_frame) (simp_all add: count_bytes_def)
      moreover have "up_errors ?u = up_errors u" "up_finalized ?u = up_finalized u" "up_sent ?u = up_sent u"
        "up_part_size ?u = up_part_size u"
        by (simp_all add: count_bytes_def)
      ultimately show ?thesis
        using W off later calls fit all unfolding pu by (simp add: phase_write_def no_complete_def)
    qed
  qed
qed

lemma write_phase_main:
  assumes "main_turn e p u = Some (p', u')" and "phase_write e content ps (cs, p, u)"
    and "single_ok content u" and "up_part_size u = ps"
    and ps: "0 < ps" "part_count content ps < w16" "length content < w64" "ps < w64"
  shows "(phase_write e content ps (cs, p', u') \<or> phase_uncreated (cs, p', u')) \<and>
    single_ok content u' \<and> up_part_size u' = up_part_size u"
proof -
  have W: "FinalizeCall \<in> set cs" "up_errors u = []" "\<not> up_finalized u" "no_complete u"
    "writing_at content ps cs p u" "threads_ok e content ps (up_offset u div ps) u"
    using assms(2) by (auto simp: phase_write_def)
  show ?thesis
  proof (cases p)
    case (Writing data loc)
    then show ?thesis
      using write_turn_phase [of data loc u p' u' e content ps cs] assms by (auto simp: single_ok_def)
  next
    case (Claiming b ret)
    then obtain rest n loc where r: "ret = InWrite rest n loc" using W(5) by (cases ret) auto
    with W(5) Claiming have c: "loc = up_offset u" "loc + n \<le> length content"
      "holds content ps b (loc div ps) ps" "\<not> wb_uploading b" "up_buffers u = [(loc div ps, b)]" by auto
    have "loc div ps < w16" using div_le_part_count [OF ps(1), of loc content] c(2) ps(2) by simp
    then have "p' = WaitingForThread (b\<lparr>wb_uploading := True\<rparr>) ret" "u' = u\<lparr>up_buffers := []\<rparr>"
      using claim_turn_free [OF W(2) c(5) _ _ _ c(4)] c(3) ps(1) assms(1) Claiming by (auto simp: holds_def)
    moreover have "threads_ok e content ps (up_offset u div ps) (u\<lparr>up_buffers := []\<rparr>)"
      using W(6) by (subst threads_ok_frame) simp_all
    ultimately show ?thesis using W Claiming r assms(3)
      by (auto simp: phase_write_def no_complete_def single_ok_def)
  next
    case (WaitingForThread b ret)
    then obtain rest n loc where r: "ret = InWrite rest n loc" using W(5) by (cases ret) auto
    let ?u = "u\<lparr>up_in_progress := (up_in_progress u + 1) mod w16\<rparr>"
    have "p' = Starting b ret" "u' = ?u" using assms(1) WaitingForThread by (auto split: if_splits)
    moreover have "threads_ok e content ps (up_offset u div ps) ?u" using W(6) by (subst threads_ok_frame) simp_all
    ultimately show ?thesis using W WaitingForThread r assms(3)
      by (auto simp: phase_write_def no_complete_def single_ok_def)
  next
    case (Starting b ret)
    then obtain rest n loc where r: "ret = InWrite rest n loc" using W(5) by (cases ret) auto
    with W(5) Starting have c: "loc = up_offset u" "loc + n = (loc div ps + 1) * ps" "loc + n \<le> length content"
      "drop (loc + n) content = rest @ pending cs" "calls_from (loc + n + length rest) cs"
      "holds content ps b (loc div ps) ps" "up_buffers u = []" by auto
    have add: "add64 loc n = loc + n" using c(3) ps(3) by (simp add: add64_exact)
    have next_div: "(loc + n) div ps = Suc (loc div ps)" "(loc + n) mod ps = 0"
      unfolding c(2) using ps(1) by simp_all
    have b: "wb_part b = loc div ps" "take (wb_idx b) (wb_data b) = piece content ps (loc div ps)"
      using c(6) by (auto simp: holds_def piece_def)
    have going: "phase_write e content ps (cs, p'', u'') \<and> single_ok content u'' \<and> up_part_size u'' = up_part_size u"
      if "go_back ret (v\<lparr>up_flying := up_flying v @ [b]\<rparr>) = (p'', u'')"
        and "threads_ok e content ps (loc div ps) v" and "up_initialized v" and "no_complete v" and "single_ok content v"
        and "up_errors v = []" "\<not> up_finalized v" "up_offset v = up_offset u" "up_buffers v = []"
          "up_part_size v = up_part_size u" for v p'' u''
    proof -
      let ?v = "count_bytes n (v\<lparr>up_flying := up_flying v @ [b]\<rparr>)"
      have pu: "p'' = Writing rest (loc + n)" "u'' = ?v" using that(1) r add by simp_all
      have off: "up_offset ?v = loc + n" using add c(1) that(8) by (simp add: count_bytes_def)
      have "threads_ok e content ps (Suc (loc div ps)) (v\<lparr>up_flying := up_flying v @ [b]\<rparr>)"
        by (rule threads_ok_start [OF that(2) b that(3)])
      then have "threads_ok e content ps ((loc + n) div ps) ?v"
        unfolding next_div(1) by (subst threads_ok_frame [of _ "v\<lparr>up_flying := up_flying v @ [b]\<rparr>"])
          (simp_all add: count_bytes_def)
      moreover have "buf_at content ps (loc + n) (up_buffers ?v)"
        using that(9) next_div(2) by (simp add: buf_at_def count_bytes_def)
      moreover have "no_complete ?v" "single_ok content ?v" "up_errors ?v = []" "\<not> up_finalized ?v"
        "up_part_size ?v = up_part_size u"
        using that(4-7,10) by (simp_all add: count_bytes_def no_complete_def single_ok_def)
      ultimately show ?thesis using W(1) off c(3-5) unfolding pu by (simp add: phase_write_def)
    qed
    show ?thesis
    proof (cases "up_initialized u")
      case True
      then have "go_back ret (u\<lparr>up_flying := up_flying u @ [b]\<rparr>) = (p', u')"
        using assms(1) Starting by (simp add: start_turn_def)
      from going [OF this] W(2-6) True assms(3) c(1,7) show ?thesis by simp
    next
      case False
      then have L0: "loc div ps = 0" using threads_okD(7) [OF W(6)] c(1) by blast
      obtain res u1 where run: "InitializeMultipartUpload e u = (res, u1)" by fastforce
      note f = initialize_fields [OF run] and k = init_keeps [OF run]
      have fields: "up_errors u1 = []" "\<not> up_finalized u1" "up_offset u1 = up_offset u" "up_buffers u1 = []"
          "up_part_size u1 = up_part_size u" "no_complete u1" "single_ok content u1"
        using f W(2-4) c(7) k(1,2) assms(3) by simp_all
      show ?thesis
      proof (cases res)
        case (Inr i)
        then have "go_back ret ((u1\<lparr>up_id := i\<rparr>)\<lparr>up_flying := up_flying (u1\<lparr>up_id := i\<rparr>) @ [b]\<rparr>) = (p', u')"
          using assms(1) Starting False run by (simp add: start_turn_def)
        moreover have "threads_ok e content ps (loc div ps) (u1\<lparr>up_id := i\<rparr>)"
          by (rule threads_ok_unsent [OF W(6) [folded c(1)]]; use f k(4) False L0 in simp)
        moreover have "up_initialized (u1\<lparr>up_id := i\<rparr>)" using f(14) Inr by simp
        ultimately show ?thesis using going [of "u1\<lparr>up_id := i\<rparr>" p' u'] fields by simp
      next
        case (Inl ex)
        obtain ro u2 where nt: "NotifyUploadsInProgress u1 = (ro, u2)" by fastforce
        have thr: "\<exists>ex. p' = Threw ex" "u' = u2"
          using assms(1) Starting False run Inl nt by (auto simp: start_turn_def split: option.splits)
        have u2: "up_errors u2 = up_errors u1" "up_finalized u2 = up_finalized u1" "up_buffers u2 = up_buffers u1"
          "up_flying u2 = up_flying u1" "up_uploaded u2 = up_uploaded u1" "up_sent u2 = up_sent u1"
          "up_part_size u2 = up_part_size u1"
          by (subst notify_frame [OF nt], simp)+
        have tu: "threads_ok e content ps 0 u" using W(6) L0 c(1) by simp
        then have "up_flying u2 = []" "up_uploaded u2 = 0"
          using no_flying_at_0 [OF tu] threads_okD(3,5) [OF tu] f(4,5) u2(4,5) by simp_all
        moreover have "create_failed u2" using initialize_failed run Inl u2(6) unfolding create_failed_def by auto
        ultimately have "phase_uncreated (cs, p', u')"
          using thr c(5) u2 fields by (auto simp: phase_uncreated_def no_complete_def)
        then show ?thesis using fields u2 thr(2) by (simp add: single_ok_def)
      qed
    qed
  next
    case Returned
    then show ?thesis using assms(1) by simp
  qed (use W(5) in simp_all)
qed

section \<open>Every step keeps the invariant\<close>

text \<open>Uploads in progress: the flying ones, the ones about to notify, and the one being started.\<close>

fun starting :: "pc \<Rightarrow> nat" where
  "starting (Starting b r) = 1"
| "starting _ = 0"

definition count_ok :: "nat \<Rightarrow> config \<Rightarrow> bool" where
  "count_ok m c \<longleftrightarrow> (case c of (cs, p, u) \<Rightarrow> up_max_threads u = m \<and> up_in_progress u \<le> m \<and>
     (\<not> up_terminated u \<longrightarrow> up_in_progress u = length (up_flying u) + up_ending u + starting p))"

definition same_counts :: "upload \<Rightarrow> upload \<Rightarrow> bool" where
  "same_counts u u' \<longleftrightarrow> up_max_threads u' = up_max_threads u \<and> up_in_progress u' = up_in_progress u \<and>
     up_flying u' = up_flying u \<and> up_ending u' = up_ending u \<and> up_terminated u' = up_terminated u"

lemma impl_counts: "UploadBufferImplementation e b q single u = (r, u1) \<Longrightarrow> same_counts u u1"
  by (erule upload_impl_cases) (simp_all add: same_counts_def)

lemma init_counts: "InitializeMultipartUpload e u = (r, u1) \<Longrightarrow> same_counts u u1"
  by (simp add: same_counts_def initialize_fields)

lemma finalize_counts: "FinalizeMultipartUpload e u = (r, u1) \<Longrightarrow> same_counts u u1"
  by (auto simp: FinalizeMultipartUpload_def Let_def same_counts_def dest!: complete_upload_frame
      split: if_splits option.splits)

lemma go_back_counts:
  "go_back r u = (p, u1) \<Longrightarrow> same_counts u u1 \<and> starting p = 0"
  by (cases r) (auto simp: same_counts_def count_bytes_def)

lemma write_turn_counts:
  assumes "write_turn data loc u = (p', u')"
  shows "same_counts u u' \<and> starting p' = 0"
proof -
  obtain b u1 where g: "GetBuffer (loc div up_part_size u) u = (b, u1)" by fastforce
  have u1: "same_counts u u1"
    using g by (auto simp: GetBuffer_def same_counts_def Let_def split: option.splits)
  have "same_counts u (snd (write_turn data loc u)) \<and> starting (fst (write_turn data loc u)) = 0"
    unfolding write_turn_def Let_def g prod.case using u1
    by (simp add: same_counts_def put_buffer_def count_bytes_def)
  with assms show ?thesis by simp
qed

lemma claim_turn_counts: "claim_turn e b r u = (p', u') \<Longrightarrow> same_counts u u' \<and> starting p' = 0"
  by (auto simp: claim_turn_def put_buffer_def drop_buffer_def Let_def same_counts_def
      dest!: go_back_counts [unfolded same_counts_def] split: if_splits option.splits)

lemma finalize_turn_counts:
  assumes "finalize_turn e u = (p', u')"
  shows "same_counts u u' \<and> starting p' = 0"
proof -
  obtain r u1 where s: "UploadSingleBuffer e (hd (map snd (up_buffers u))) u = (r, u1)" by fastforce
  obtain r2 u2 where i: "InitializeMultipartUpload e u = (r2, u2)" by fastforce
  have c: "same_counts u u1" "same_counts u u2"
    using impl_counts s [unfolded UploadSingleBuffer_def] init_counts [OF i] by blast+
  have "u' \<in> {u, u1, u1\<lparr>up_finalized := True\<rparr>, u2} \<union> range (\<lambda>i. u2\<lparr>up_id := i\<rparr>) \<and> starting p' = 0"
    using assms unfolding finalize_turn_def Let_def s i
    by (auto split: if_splits option.splits sum.splits)
  with c show ?thesis by (auto simp: same_counts_def)
qed

lemma complete_turn_counts: "complete_turn e u = (p', u') \<Longrightarrow> same_counts u u' \<and> starting p' = 0"
  by (auto simp: complete_turn_def RethrowIOError_def same_counts_def
      dest!: finalize_counts [unfolded same_counts_def] split: if_splits option.splits prod.splits)

lemmas quiet_turns = write_turn_counts claim_turn_counts finalize_turn_counts complete_turn_counts

lemma start_turn_counts:
  assumes "start_turn e b r u = (p', u')" and "0 < up_in_progress u"
  shows "starting p' = 0 \<and> up_max_threads u' = up_max_threads u \<and> up_ending u' = up_ending u \<and>
    up_terminated u' = up_terminated u \<and>
    (up_in_progress u' = up_in_progress u \<and> length (up_flying u') = Suc (length (up_flying u)) \<or>
     up_in_progress u' = up_in_progress u - 1 \<and> up_flying u' = up_flying u)"
  using assms
  by (auto simp: start_turn_def NotifyUploadsInProgress_def same_counts_def Let_def
      dest!: go_back_counts init_counts split: if_splits sum.splits prod.splits option.splits)

lemma main_turn_counts:
  assumes "main_turn e p u = Some (p', u')" and "count_ok m (cs, p, u)" and "m < w16" and "\<not> up_terminated u"
  shows "count_ok m (cs', p', u')"
proof (cases "(e, p, u)" rule: main_turn.cases)
  case (3 e' b r u')
  with assms show ?thesis by (auto simp: count_ok_def split: if_splits)
next
  case (4 e' b r v)
  then have "0 < up_in_progress u" using assms(2,4) by (simp add: count_ok_def)
  with 4 assms start_turn_counts [of e b r u p' u'] show ?thesis by (auto simp: count_ok_def)
qed (use assms in \<open>auto simp: count_ok_def same_counts_def dest!: quiet_turns split: if_splits\<close>)

lemma main_step_inv:
  assumes inv: "upload_inv e content ps (cs, p, u)" and count: "count_ok m (cs, p, u)"
    and turn: "main_turn e p u = Some (p', u')" and nt: "\<not> up_terminated u"
    and ps: "0 < ps" "part_count content ps < w16" "length content < w64" "ps < w64"
  shows "upload_inv e content ps (cs, p', u')"
proof -
  have so: "single_ok content u" "up_part_size u = ps" using inv by (simp_all add: upload_inv_def)
  have fl: "up_in_progress u = 0 \<longrightarrow> up_flying u = [] \<or> p \<noteq> AwaitingUploads"
    using count nt by (auto simp: count_ok_def)
  consider "phase_write e content ps (cs, p, u)" | "phase_finalize e content ps (cs, p, u)"
    | "phase_error (cs, p, u)" | "phase_uncreated (cs, p, u)" | "phase_done e content ps (cs, p, u)"
    using inv nt by (auto simp: upload_inv_def phase_terminated_def)
  then show ?thesis
  proof cases
    case 1
    with write_phase_main [OF turn 1 so ps] so(2) show ?thesis by (auto simp: upload_inv_def)
  next
    case 2
    with finalize_phase_main [OF turn 2 so(1) ps(1,2) fl] so(2) show ?thesis by (auto simp: upload_inv_def)
  next
    case 3
    with error_phase_main [OF turn 3 so(1)] so(2) show ?thesis by (auto simp: upload_inv_def)
  next
    case 4
    with uncreated_phase_main [OF turn 4 so(1)] so(2) show ?thesis by (auto simp: upload_inv_def)
  next
    case 5
    with done_phase_main [OF turn 5] so show ?thesis by (auto simp: upload_inv_def)
  qed
qed

lemma call_step_inv:
  assumes "upload_inv e content ps (c # cs, Returned, u)" and "0 < ps"
  shows "upload_inv e content ps (cs, start_call c, u)"
proof -
  have so: "single_ok content u" "up_part_size u = ps" using assms(1) by (simp_all add: upload_inv_def)
  consider (w) "phase_write e content ps (c # cs, Returned, u)" | (f) "phase_finalize e content ps (c # cs, Returned, u)"
    | (e) "phase_error (c # cs, Returned, u)" | (x) "phase_uncreated (c # cs, Returned, u)"
    | (d) "phase_done e content ps (c # cs, Returned, u)" | (t) "phase_terminated (c # cs, Returned, u)"
    using assms(1) by (auto simp: upload_inv_def)
  then have "phase_write e content ps (cs, start_call c, u) \<or> phase_finalize e content ps (cs, start_call c, u) \<or>
    phase_error (cs, start_call c, u) \<or> phase_uncreated (cs, start_call c, u) \<or>
    phase_done e content ps (cs, start_call c, u) \<or> phase_terminated (cs, start_call c, u)"
  proof cases
    case w
    show ?thesis
    proof (cases c)
      case (WriteCall data loc)
      with w show ?thesis by (simp add: phase_write_def)
    next
      case FinalizeCall
      with w have "up_offset u = length content" "only_finalize cs" by (auto simp: phase_write_def)
      with w FinalizeCall show ?thesis by (simp add: phase_write_def phase_finalize_def)
    qed
  next
    case f
    then show ?thesis by (auto simp: phase_finalize_def buf_at_def)
  next
    case e
    then show ?thesis by (cases c) (auto simp: phase_error_def)
  next
    case x
    then show ?thesis by (auto simp: phase_uncreated_def)
  next
    case d
    then show ?thesis by (auto simp: phase_done_def)
  next
    case t
    then show ?thesis by (auto simp: phase_terminated_def)
  qed
  with so show ?thesis by (simp add: upload_inv_def)
qed

lemma calls_from_tail: "calls_from off (c # cs) \<Longrightarrow> \<exists>off. calls_from off cs"
  by (cases c) (auto intro: only_finalize_calls)

lemma abandon_step_inv:
  assumes "upload_inv e content ps (c # cs, Threw ex, u)"
  shows "upload_inv e content ps (if is_write c then (cs, Threw ex, u) else (cs, Finalizing, u))"
proof -
  have so: "single_ok content u" "up_part_size u = ps" using assms(1) by (simp_all add: upload_inv_def)
  let ?c = "if is_write c then (cs, Threw ex, u) else (cs, Finalizing, u)"
  consider (f) "phase_finalize e content ps (c # cs, Threw ex, u)"
    | (e) "phase_error (c # cs, Threw ex, u)" | (x) "phase_uncreated (c # cs, Threw ex, u)"
    | (d) "phase_done e content ps (c # cs, Threw ex, u)" | (t) "phase_terminated (c # cs, Threw ex, u)"
    using assms(1) by (auto simp: upload_inv_def phase_write_def)
  then have "phase_finalize e content ps ?c \<or> phase_error ?c \<or> phase_uncreated ?c \<or>
    phase_done e content ps ?c \<or> phase_terminated ?c"
  proof cases
    case f
    then show ?thesis by (auto simp: phase_finalize_def)
  next
    case e
    then show ?thesis by (simp add: phase_error_def)
  next
    case x
    then show ?thesis by (cases c) (auto simp: phase_uncreated_def intro: only_finalize_calls)
  next
    case d
    then show ?thesis by (auto simp: phase_done_def)
  next
    case t
    then show ?thesis by (simp add: phase_terminated_def)
  qed
  with so show ?thesis by (simp add: upload_inv_def)
qed

lemma upload_step_inv:
  assumes "upload_step e c c'" and "upload_inv e content ps c" and "count_ok m c" and "m < w16"
    and ps: "0 < ps" "part_count content ps < w16" "length content < w64" "ps < w64"
  shows "upload_inv e content ps c' \<and> count_ok m c'"
  using assms(1-3)
proof (induction rule: upload_step.induct)
  case (main_step p u p' u' cs)
  then show ?case using main_step_inv [OF _ _ _ _ ps] main_turn_counts [OF _ _ assms(4)] by blast
next
  case (call_step u c cs)
  have "starting (start_call c) = 0" by (cases c) simp_all
  then show ?case using call_step call_step_inv [OF _ ps(1)] by (auto simp: count_ok_def)
next
  case (abandon_step u c cs ex)
  then show ?case using abandon_step_inv [of e content ps c cs ex u] by (auto simp: count_ok_def)
next
  case (thread_step k u cs p)
  let ?u0 = "u\<lparr>up_flying := take k (up_flying u) @ drop (Suc k) (up_flying u)\<rparr>"
  let ?b = "up_flying u ! k"
  obtain r u1 where run: "UploadBufferImplementation e ?b (part_query e (wb_part ?b) (up_id u)) False ?u0 = (r, u1)"
    by fastforce
  have len: "length (up_flying u) = Suc (length (take k (up_flying u) @ drop (Suc k) (up_flying u)))"
    using thread_step(1) by simp
  have "count_ok m (cs, p, UploadBuffer e k u)"
  proof (cases r)
    case None
    then have U: "UploadBuffer e k u = u1\<lparr>up_ending := Suc (up_ending u1)\<rparr>"
      using run by (simp add: UploadBuffer_def Let_def)
    have c: "up_max_threads u1 = up_max_threads u" "up_in_progress u1 = up_in_progress u" "up_ending u1 = up_ending u"
      "up_flying u1 = take k (up_flying u) @ drop (Suc k) (up_flying u)"
      using impl_counts [OF run] by (simp_all add: same_counts_def)
    have "Suc (length (up_flying u1)) = length (up_flying u)" unfolding c(4) by (rule len [symmetric])
    then show ?thesis using thread_step(2,4) c(1-3) unfolding U by (simp add: count_ok_def)
  next
    case (Some ex)
    then have U: "UploadBuffer e k u = u1\<lparr>up_terminated := True\<rparr>"
      using run by (simp add: UploadBuffer_def Let_def)
    have "up_max_threads u1 = up_max_threads u" "up_in_progress u1 = up_in_progress u"
      using impl_counts [OF run] by (simp_all add: same_counts_def)
    then show ?thesis using thread_step(4) unfolding U by (simp add: count_ok_def)
  qed
  moreover have "upload_inv e content ps (cs, p, UploadBuffer e k u)"
    using thread_step_inv [OF thread_step(3,1,2) ps(1,2)] .
  ultimately show ?case by blast
next
  case (notify_step u cs p)
  then have "count_ok m (cs, p, UploadBuffer_notify u)"
    by (auto simp: count_ok_def UploadBuffer_notify_def NotifyUploadsInProgress_def)
  with notify_step notify_step_inv show ?case by blast
qed

lemma upload_reachable_inv:
  assumes "upload_reachable e c0 c" and "upload_inv e content ps c0" and "count_ok m c0" and "m < w16"
    and ps: "0 < ps" "part_count content ps < w16" "length content < w64" "ps < w64"
  shows "upload_inv e content ps c \<and> count_ok m c"
  using assms(1)
proof induction
  case reach_start
  then show ?case using assms(2,3) by simp
next
  case (reach_step c c')
  then show ?case using upload_step_inv [OF _ _ _ assms(4) ps] by blast
qed

lemma start_inv:
  assumes "calls_from 0 cs" and "FinalizeCall \<in> set cs" and "0 < ps"
  shows "upload_inv e (pending cs) ps (cs, Returned, new_upload ps m inp)"
    and "count_ok m (cs, Returned, new_upload ps m inp)"
  using assms
  by (simp_all add: upload_inv_def phase_write_def new_upload_def count_ok_def no_complete_def single_ok_def
      buf_at_def threads_ok_def)

section \<open>Only the data is completed\<close>

text \<open>The parts in order make up the data.\<close>

lemma concat_pieces:
  assumes "0 < ps"
  shows "concat (map (piece content ps) [0..<part_count content ps]) = content"
proof -
  have upto: "concat (map (piece content ps) [0..<n]) = take (n * ps) content" for n
  proof (induction n)
    case 0
    then show ?case by simp
  next
    case (Suc n)
    have "take (Suc n * ps) content = take (n * ps) content @ take ps (drop (n * ps) content)"
      by (simp only: mult_Suc add.commute [of ps] take_add)
    with Suc show ?case by (simp add: piece_def slice_def)
  qed
  have "length content \<le> part_count content ps * ps"
  proof (cases "length content mod ps = 0")
    case True
    then show ?thesis using assms by (auto simp: part_count_mult)
  next
    case False
    have "length content \<le> length content div ps * ps + ps"
      using div_mult_mod_eq [of "length content" ps] mod_less_divisor [OF assms, of "length content"] by linarith
    then show ?thesis using False assms by (simp add: part_count_mult add.commute)
  qed
  then show ?thesis by (simp add: upto)
qed

lemma upload_inv_requests:
  assumes "upload_inv e content ps (cs, p, u)"
  shows "(\<forall>q b r out. SentPost q b r out \<in> set (up_sent u) \<and> b \<noteq> [] \<longrightarrow> completes e content ps (up_sent u) q b) \<and>
    (up_finalized u \<longrightarrow> published e content ps u)"
proof -
  have "no_complete u \<and> \<not> up_finalized u \<or> published e content ps u"
    using assms unfolding upload_inv_def phase_defs prod.case by blast
  then show ?thesis unfolding no_complete_def published_def by blast
qed

text \<open>
  C1: A multipart upload publishes exactly what was written. A client writes its data in
  consecutive writes and then finalizes (and may finalize again); upload threads run in any
  interleaving, any request may fail, and after an exception the client only finalizes. Then every
  CompleteMultipartUpload request lists all parts, in order, each with the ETag that S3 returned
  for exactly the bytes of that part under the same upload id, and the parts make up the data; a
  single PUT carries the whole data; an upload marked finalized was published in one of the two
  ways; and when the last call returns without an exception, the upload is finalized, or there was
  no data, or the upload could not be created.
\<close>

theorem published_upload_is_the_data:
  assumes "calls_from 0 cs" and "FinalizeCall \<in> set cs"
    and "0 < ps" and "part_count (pending cs) ps < w16" and "length (pending cs) < w64" and "ps < w64" and "m < w16"
    and "upload_reachable e (cs, Returned, new_upload ps m inp) (cs', p, u)"
  shows "(\<forall>q b r out. SentPost q b r out \<in> set (up_sent u) \<and> b \<noteq> [] \<longrightarrow>
        completes e (pending cs) ps (up_sent u) q b) \<and>
     concat (map (piece (pending cs) ps) [0..<part_count (pending cs) ps]) = pending cs \<and>
     (\<forall>d r. SentPut '''' d r \<in> set (up_sent u) \<longrightarrow> d = pending cs) \<and>
     (up_finalized u \<longrightarrow> published e (pending cs) ps u) \<and>
     (cs' = [] \<and> p = Returned \<and> \<not> up_terminated u \<longrightarrow> up_finalized u \<or> pending cs = [] \<or> create_failed u)"
proof -
  have inv: "upload_inv e (pending cs) ps (cs', p, u)"
    using upload_reachable_inv [OF assms(8) start_inv [OF assms(1-3)] assms(7) assms(3-6)] by blast
  have "single_ok (pending cs) u" using inv by (simp add: upload_inv_def)
  moreover have "up_finalized u \<or> pending cs = [] \<or> create_failed u"
    if "cs' = [] \<and> p = Returned \<and> \<not> up_terminated u"
    using inv that unfolding upload_inv_def phase_defs by auto
  ultimately show ?thesis
    using upload_inv_requests [OF inv] concat_pieces [OF assms(3)] unfolding single_ok_def by blast
qed

theorem published_upload_is_the_data_witness:
  "\<exists>u. upload_reachable demo_upload (demo_calls, Returned, new_upload 2 1 (up_demo_input, demo_world)) ([], Returned, u) \<and>
     published demo_upload ''abc'' 2 u \<and> up_uploaded u = 2"
proof -
  obtain u where u: "run_moves demo_upload demo_moves demo_start = Some ([], Returned, u)" "up_finalized u"
    "up_uploaded u = 2" using demo_run by blast
  have d: "calls_from 0 demo_calls" "FinalizeCall \<in> set demo_calls" "pending demo_calls = ''abc''"
    by (simp_all add: demo_calls_def)
  have r: "upload_reachable demo_upload (demo_calls, Returned, new_upload 2 1 (up_demo_input, demo_world))
      ([], Returned, u)"
    using run_moves_reachable [OF u(1) reach_start] by (simp add: demo_start_def)
  have "up_finalized u \<longrightarrow> published demo_upload (pending demo_calls) 2 u"
    using published_upload_is_the_data [OF d(1,2) _ _ _ _ _ r] d(3) by (simp add: part_count_def)
  with u r d(3) show ?thesis by auto
qed

end
