(* ===== verification/S3UploadEnds.thy ===== *)
theory S3UploadEnds
  imports S3UploadSafe
begin

text \<open>
  Every multipart upload ends: the measure that each step of S3Upload decreases, and the absence of
  a configuration in which threads wait for each other, provided the thread limit is not 0. With a
  limit of 0 the first full part waits for ever.
\<close>

section \<open>Writes stay in bounds\<close>

text \<open>A buffer starts where its key says, and no write goes beyond the offset b.\<close>

fun write_end :: "pc \<Rightarrow> nat" where
  "write_end (Writing data loc) = loc + length data"
| "write_end (Claiming _ (InWrite rest n loc)) = loc + n + length rest"
| "write_end (WaitingForThread _ (InWrite rest n loc)) = loc + n + length rest"
| "write_end (Starting _ (InWrite rest n loc)) = loc + n + length rest"
| "write_end _ = 0"

fun call_end :: "call \<Rightarrow> nat" where
  "call_end (WriteCall data loc) = loc + length data"
| "call_end FinalizeCall = 0"

definition buffers_placed :: "nat \<Rightarrow> upload \<Rightarrow> bool" where
  "buffers_placed ps u \<longleftrightarrow> (\<forall>kb \<in> set (up_buffers u). wb_start (snd kb) = fst kb * ps)"

definition in_bounds :: "nat \<Rightarrow> nat \<Rightarrow> config \<Rightarrow> bool" where
  "in_bounds ps m c \<longleftrightarrow> (case c of (cs, p, u) \<Rightarrow> up_part_size u = ps \<and> write_end p \<le> m \<and>
     (\<forall>c \<in> set cs. call_end c \<le> m) \<and> (\<exists>off. calls_from off cs) \<and>
     (if in_write p then p = Returned \<and> only_finalize cs \<or> buffers_placed ps u
      else only_finalize cs \<or> (\<exists>ex. p = Threw ex)))"

definition bounds_ok :: "nat \<Rightarrow> nat \<Rightarrow> bool" where
  "bounds_ok ps b \<longleftrightarrow> 0 < ps \<and> ps < w64 \<and> b < w64 \<and> b div ps < w16"

section \<open>The measure\<close>

fun flush_left :: "return_to \<Rightarrow> nat" where
  "flush_left (InWrite rest n loc) = 5 * length rest + 1"
| "flush_left (InFlushAll bs) = 5 * length bs + 2"

fun steps_left :: "pc \<Rightarrow> upload \<Rightarrow> nat" where
  "steps_left (Writing data loc) u = 5 * length data + 1"
| "steps_left (Claiming b r) u = flush_left r + 3"
| "steps_left (WaitingForThread b r) u = flush_left r + 2"
| "steps_left (Starting b r) u = flush_left r + 1"
| "steps_left Finalizing u = 5 * length (up_buffers u) + 3"
| "steps_left (FlushingAll bs) u = 5 * length bs + 2"
| "steps_left AwaitingUploads u = 1"
| "steps_left Returned u = 0"
| "steps_left (Threw ex) u = 0"

definition upload_order :: "(config \<times> config) set" where
  "upload_order = measures [\<lambda>(cs, p, u). length cs, \<lambda>(cs, p, u). steps_left p u,
     \<lambda>(cs, p, u). 2 * length (up_flying u) + up_ending u]"

lemma wf_upload_order: "wf upload_order"
  by (simp add: upload_order_def)

text \<open>A turn of Write makes progress, and keeps the bounds.\<close>

lemma GetBuffer_bounds:
  assumes "up_part_size u = ps" and "buffers_placed ps u" and "GetBuffer k u = (b, u1)" and "k < w16" and "k * ps < w64"
  shows "wb_start b = k * ps \<and> buffers_placed ps u1 \<and> up_part_size u1 = ps"
proof -
  have m: "mul64 k ps = k * ps" by (rule mul64_exact [OF assms(5)])
  show ?thesis
  proof (cases "map_of (up_buffers u) k")
    case None
    then show ?thesis using assms
      by (auto simp: GetBuffer_def Let_def m new_write_buffer_def buffers_placed_def)
  next
    case (Some b')
    then have "(k, b') \<in> set (up_buffers u)" by (rule map_of_SomeD)
    then have "wb_start b' = k * ps" using assms(2) unfolding buffers_placed_def by force
    then show ?thesis using assms Some by (auto simp: GetBuffer_def)
  qed
qed

lemma put_buffer_bounds:
  "buffers_placed ps u \<Longrightarrow> wb_start b = k * ps \<Longrightarrow> buffers_placed ps (put_buffer k b u)"
  by (auto simp: put_buffer_def buffers_placed_def)

lemma keeps_size [simp]:
  "up_part_size (put_buffer k b u) = up_part_size u" "up_part_size (drop_buffer k u) = up_part_size u"
  "up_part_size (count_bytes n u) = up_part_size u" "buffers_placed ps (count_bytes n u) = buffers_placed ps u"
  by (simp_all add: put_buffer_def drop_buffer_def count_bytes_def buffers_placed_def)

lemma write_turn_bounds:
  assumes "in_bounds ps m (cs, Writing data loc, u)" and "bounds_ok ps m" and "write_turn data loc u = (p', u')"
  shows "in_bounds ps m (cs, p', u') \<and> steps_left p' u' < steps_left (Writing data loc) u"
proof -
  have B: "up_part_size u = ps" "loc + length data \<le> m" "\<forall>c \<in> set cs. call_end c \<le> m"
    "\<exists>off. calls_from off cs" "buffers_placed ps u"
    using assms(1) by (simp_all add: in_bounds_def)
  have ok: "0 < ps" "ps < w64" "m < w64" "m div ps < w16" using assms(2) by (simp_all add: bounds_ok_def)
  show ?thesis
  proof (cases "data = [] \<or> loc \<noteq> up_offset u")
    case True
    then have "u' = u \<and> (p' = Returned \<or> (\<exists>ex. p' = Threw ex))"
      using assms(3) by (cases "data = []") (auto simp: write_turn_def)
    then show ?thesis using B by (auto simp: in_bounds_def)
  next
    case False
    let ?k = "loc div ps"
    have k: "?k < w16" using ok(4) B(2) div_le_mono [of loc m ps] by linarith
    have kl: "?k * ps \<le> loc" "loc < w64" using B(2) ok(3) by simp_all
    then have kw: "?k * ps < w64" by linarith
    obtain b u1 where g: "GetBuffer ?k u = (b, u1)" by fastforce
    have G: "wb_start b = ?k * ps" "buffers_placed ps u1" "up_part_size u1 = ps"
      using GetBuffer_bounds [OF B(1,5) g k kw] by simp_all
    have "sub64 loc (wb_start b) = loc - ?k * ps" using G(1) sub64_exact [OF kl] by simp
    then have idx: "sub64 loc (wb_start b) = loc mod ps" by (simp add: minus_div_mult_eq_mod)
    define n where "n = min (length data) (ps - loc mod ps)"
    have sz: "sub64 ps (loc mod ps) = ps - loc mod ps" using ok(1,2) by (simp add: sub64_exact)
    have n: "0 < n" "n \<le> length data" using False ok(1) by (simp_all add: n_def)
    have add: "add64 loc n = loc + n" using n(2) B(2) ok(3) by (simp add: add64_exact)
    define b1 where "b1 = b\<lparr>wb_data := overwrite (wb_data b) (loc mod ps) (take n data), wb_idx := add64 (wb_idx b) n\<rparr>"
    have st: "wb_start b1 = ?k * ps" using G(1) by (simp add: b1_def)
    define u2 where "u2 = put_buffer ?k b1 u1"
    have u2: "buffers_placed ps u2" "up_part_size u2 = ps"
      using put_buffer_bounds [OF G(2) st] G(3) by (simp_all add: u2_def)
    have step: "write_turn data loc u =
        (if length (wb_data b) < loc mod ps + n then (Threw (Exn Undefined ''copy outside a buffer'' None), u1)
         else if ps \<le> wb_idx b1 then (Claiming b1 (InWrite (drop n data) n loc), u2)
         else (Writing (drop n data) (loc + n), count_bytes n u2))"
    proof -
      have off: "up_offset u = loc" and ps0: "(ps = 0) = False" and km: "?k mod w16 = ?k"
        and d0: "(data = []) = False"
        using False ok(1) k by simp_all
      show ?thesis
        unfolding write_turn_def Let_def B(1) g prod.case off ps0 km idx sz n_def [symmetric] b1_def [symmetric]
          u2_def [symmetric] add d0
        by (simp only: simp_thms if_False)
    qed
    have "5 * (length data - n) + 4 < 5 * length data + 1" using n by linarith
    then show ?thesis using assms(3) step u2 G(3) B(2-4) n
      by (auto simp: in_bounds_def split: if_splits)
  qed
qed

section \<open>Every step decreases the measure\<close>

lemma go_back_bounds:
  assumes "go_back r u = (p', u')" and "in_bounds ps m (cs, Starting b r, u)" and "m < w64"
  shows "in_bounds ps m (cs, p', u') \<and> steps_left p' u' = flush_left r"
proof (cases r)
  case (InWrite rest n loc)
  have B: "up_part_size u = ps" "loc + n + length rest \<le> m" "\<forall>c \<in> set cs. call_end c \<le> m"
    "\<exists>off. calls_from off cs" "buffers_placed ps u"
    using assms(2) InWrite by (simp_all add: in_bounds_def)
  have "add64 loc n = loc + n" using B(2) assms(3) by (simp add: add64_exact)
  then have "p' = Writing rest (loc + n)" "u' = count_bytes n u" using assms(1) InWrite by simp_all
  with B InWrite show ?thesis by (simp add: in_bounds_def)
next
  case (InFlushAll bs)
  have B: "up_part_size u = ps" "\<forall>c \<in> set cs. call_end c \<le> m" "\<exists>off. calls_from off cs" "only_finalize cs"
    using assms(2) InFlushAll by (simp_all add: in_bounds_def)
  have "p' = FlushingAll bs" "u' = u" using assms(1) InFlushAll by simp_all
  with B InFlushAll show ?thesis by (simp add: in_bounds_def)
qed

lemma in_bounds_back:
  "in_bounds ps m (cs, Claiming b r, u) = in_bounds ps m (cs, Starting b' r, u)"
  "in_bounds ps m (cs, WaitingForThread b r, u) = in_bounds ps m (cs, Starting b' r, u)"
  by (cases r; simp add: in_bounds_def)+

lemma in_bounds_same:
  "in_bounds ps m (cs, p, u) \<Longrightarrow> up_part_size u' = up_part_size u \<Longrightarrow>
   set (up_buffers u') \<subseteq> set (up_buffers u) \<Longrightarrow> in_bounds ps m (cs, p, u')"
  by (auto simp: in_bounds_def buffers_placed_def split: if_splits)

lemma in_bounds_threw:
  "in_bounds ps m (cs, p, u) \<Longrightarrow> up_part_size u' = up_part_size u \<Longrightarrow> in_bounds ps m (cs, Threw ex, u')"
  by (auto simp: in_bounds_def)

lemma claim_turn_bounds:
  assumes "claim_turn e b r u = (p', u')" and "in_bounds ps m (cs, Claiming b r, u)" and "m < w64"
  shows "in_bounds ps m (cs, p', u') \<and> steps_left p' u' < steps_left (Claiming b r) u"
proof -
  let ?b = "b\<lparr>wb_uploading := True\<rparr>" and ?k = "wb_part b mod w16"
  let ?u1 = "put_buffer ?k ?b u"
  have st: "in_bounds ps m (cs, Starting b r, u)" using assms(2) in_bounds_back(1) by blast
  consider (again) "go_back r u = (p', u')" | (threw) ex where "p' = Threw ex" "u' = ?u1"
    | (free) "p' = WaitingForThread ?b r" "u' = drop_buffer ?k ?u1"
  proof (cases "wb_idx b = 0 \<or> wb_uploading b")
    case True
    then show thesis using assms(1) by (intro again) (simp add: claim_turn_def)
  next
    case False
    show thesis
    proof (cases "RethrowIOError e u")
      case None
      with False show thesis using assms(1) by (intro free) (simp_all add: claim_turn_def Let_def)
    next
      case (Some ex)
      with False show thesis using assms(1) by (intro threw [of ex]) (simp_all add: claim_turn_def Let_def)
    qed
  qed
  then show ?thesis
  proof cases
    case again
    from go_back_bounds [OF again st assms(3)] show ?thesis by simp
  next
    case threw
    then show ?thesis using in_bounds_threw [OF assms(2)] by simp
  next
    case free
    have "set (up_buffers u') \<subseteq> set (up_buffers u)" unfolding free(2)
      by (auto simp: drop_buffer_def put_buffer_def split: if_splits)
    then have "in_bounds ps m (cs, Starting b r, u')"
      by (intro in_bounds_same [OF st]) (simp_all add: free(2))
    then show ?thesis using in_bounds_back(2) [of ps m cs ?b r u' b] free(1) by simp
  qed
qed

lemma start_turn_bounds:
  assumes "start_turn e b r u = (p', u')" and "in_bounds ps m (cs, Starting b r, u)" and "m < w64"
  shows "in_bounds ps m (cs, p', u') \<and> steps_left p' u' < steps_left (Starting b r) u"
proof -
  obtain res u1 where i: "InitializeMultipartUpload e u = (res, u1)" by fastforce
  note f = initialize_fields [OF i]
  obtain ro u2 where n: "NotifyUploadsInProgress u1 = (ro, u2)" by fastforce
  have u2: "up_part_size u2 = up_part_size u" using f(7) arg_cong [OF notify_frame [OF n], of up_part_size] by simp
  consider (go) v where "go_back r (v\<lparr>up_flying := up_flying v @ [b]\<rparr>) = (p', u')"
      "up_part_size v = up_part_size u" "up_buffers v = up_buffers u"
    | (threw) ex where "p' = Threw ex" "up_part_size u' = up_part_size u"
  proof (cases "up_initialized u")
    case True
    then show thesis using assms(1) by (intro go [of u]) (simp_all add: start_turn_def)
  next
    case False
    show thesis
    proof (cases res)
      case (Inr x)
      then show thesis using assms(1) False i f by (intro go [of "u1\<lparr>up_id := x\<rparr>"]) (simp_all add: start_turn_def)
    next
      case (Inl ex)
      then show thesis using assms(1) False i n u2 threw by (auto simp: start_turn_def split: option.splits)
    qed
  qed
  then show ?thesis
  proof cases
    case go
    have "in_bounds ps m (cs, Starting b r, v\<lparr>up_flying := up_flying v @ [b]\<rparr>)"
      by (rule in_bounds_same [OF assms(2)]) (simp_all add: go)
    from go_back_bounds [OF go(1) this assms(3)] show ?thesis by simp
  next
    case threw
    then show ?thesis using in_bounds_threw [OF assms(2)] by simp
  qed
qed

lemma finalize_turn_bounds:
  assumes "finalize_turn e u = (p', u')" and "in_bounds ps m (cs, Finalizing, u)"
  shows "in_bounds ps m (cs, p', u') \<and> steps_left p' u' < steps_left Finalizing u"
proof -
  obtain r u1 where s: "UploadSingleBuffer e (hd (map snd (up_buffers u))) u = (r, u1)" by fastforce
  obtain r2 u2 where i: "InitializeMultipartUpload e u = (r2, u2)" by fastforce
  have "up_part_size u1 = up_part_size u"
    using s [unfolded UploadSingleBuffer_def] by (rule upload_impl_cases) simp_all
  moreover have "up_part_size u2 = up_part_size u" by (rule initialize_fields(7) [OF i])
  moreover have "u' \<in> {u, u1, u1\<lparr>up_finalized := True\<rparr>, u2} \<union> range (\<lambda>i. u2\<lparr>up_id := i\<rparr>) \<and>
      (p' = Returned \<or> (\<exists>ex. p' = Threw ex) \<or> p' = FlushingAll (map snd (up_buffers u)))"
    using assms(1) unfolding finalize_turn_def Let_def s i
    by (auto split: if_splits option.splits sum.splits)
  ultimately show ?thesis using assms(2) by (auto simp: in_bounds_def)
qed

lemma complete_turn_bounds:
  assumes "complete_turn e u = (p', u')" and "in_bounds ps m (cs, AwaitingUploads, u)"
  shows "in_bounds ps m (cs, p', u') \<and> steps_left p' u' < steps_left AwaitingUploads u"
proof -
  obtain r u1 where f: "FinalizeMultipartUpload e u = (r, u1)" by fastforce
  then have "up_part_size u1 = up_part_size u"
    by (auto simp: FinalizeMultipartUpload_def Let_def dest!: complete_upload_frame split: if_splits option.splits)
  moreover have "(u' = u \<or> u' = u1) \<and> (p' = Returned \<or> (\<exists>ex. p' = Threw ex))"
    using assms(1) unfolding complete_turn_def f by (auto split: if_splits option.splits)
  ultimately show ?thesis using assms(2) by (auto simp: in_bounds_def)
qed

lemma main_turn_bounds:
  assumes "main_turn e p u = Some (p', u')" and "in_bounds ps b (cs, p, u)" and "bounds_ok ps b"
  shows "in_bounds ps b (cs, p', u') \<and> steps_left p' u' < steps_left p u"
proof -
  have b: "b < w64" using assms(3) by (simp add: bounds_ok_def)
  show ?thesis
  proof (cases p)
    case (Writing data loc)
    then show ?thesis using assms write_turn_bounds [of ps b cs data loc u p' u'] by simp
  next
    case (Claiming w r)
    then show ?thesis using assms claim_turn_bounds [OF _ _ b, of e w r u p' u' ps cs] by simp
  next
    case (WaitingForThread w r)
    then have "p' = Starting w r" "u' = u\<lparr>up_in_progress := (up_in_progress u + 1) mod w16\<rparr>"
      using assms(1) by (simp_all split: if_splits)
    moreover have "in_bounds ps b (cs, Starting w r, u)"
      using assms(2) WaitingForThread in_bounds_back(2) by blast
    ultimately show ?thesis using in_bounds_same WaitingForThread by simp
  next
    case (Starting w r)
    then show ?thesis using assms start_turn_bounds [OF _ _ b, of e w r u p' u' ps cs] by simp
  next
    case Finalizing
    then show ?thesis using assms finalize_turn_bounds [of e u p' u' ps b cs] by simp
  next
    case (FlushingAll bs)
    then have "u' = u \<and> (bs = [] \<and> p' = AwaitingUploads \<or>
        (\<exists>w ws. bs = w # ws \<and> (p' = FlushingAll ws \<or> p' = Claiming w (InFlushAll ws))))"
      using assms(1) by (cases bs) (simp_all split: if_splits)
    then show ?thesis using assms(2) FlushingAll by (elim conjE disjE exE) (simp_all add: in_bounds_def)
  next
    case AwaitingUploads
    then have "complete_turn e u = (p', u')" using assms(1) by (simp split: if_splits)
    from complete_turn_bounds [OF this] AwaitingUploads assms(2) show ?thesis by simp
  qed (use assms(1) in simp_all)
qed

lemma UploadBuffer_frame:
  assumes "k < length (up_flying u)"
  shows "up_part_size (UploadBuffer e k u) = up_part_size u" "up_buffers (UploadBuffer e k u) = up_buffers u"
    "2 * length (up_flying (UploadBuffer e k u)) + up_ending (UploadBuffer e k u) <
     2 * length (up_flying u) + up_ending u"
proof -
  let ?b = "up_flying u ! k" and ?f = "take k (up_flying u) @ drop (Suc k) (up_flying u)"
  let ?u0 = "u\<lparr>up_flying := ?f\<rparr>"
  obtain r u1 where run: "UploadBufferImplementation e ?b (part_query e (wb_part ?b) (up_id u)) False ?u0 = (r, u1)"
    by fastforce
  then have "up_flying u1 = ?f \<and> up_ending u1 = up_ending u \<and> up_part_size u1 = up_part_size u \<and>
      up_buffers u1 = up_buffers u"
    by (rule upload_impl_cases) simp_all
  then have f: "up_flying u1 = ?f" "up_ending u1 = up_ending u" "up_part_size u1 = up_part_size u"
    "up_buffers u1 = up_buffers u" by simp_all
  have "UploadBuffer e k u = (case r of Some _ \<Rightarrow> u1\<lparr>up_terminated := True\<rparr> | None \<Rightarrow> u1\<lparr>up_ending := Suc (up_ending u1)\<rparr>)"
    by (simp only: UploadBuffer_def Let_def run prod.case)
  then have "up_part_size (UploadBuffer e k u) = up_part_size u1 \<and> up_buffers (UploadBuffer e k u) = up_buffers u1 \<and>
      up_flying (UploadBuffer e k u) = ?f \<and> up_ending (UploadBuffer e k u) \<le> Suc (up_ending u)"
    using f by (cases r) simp_all
  then have g: "up_part_size (UploadBuffer e k u) = up_part_size u" "up_buffers (UploadBuffer e k u) = up_buffers u"
    "length (up_flying (UploadBuffer e k u)) = length ?f" "up_ending (UploadBuffer e k u) \<le> Suc (up_ending u)"
    using f(3,4) by simp_all
  show "up_part_size (UploadBuffer e k u) = up_part_size u" by (rule g(1))
  show "up_buffers (UploadBuffer e k u) = up_buffers u" by (rule g(2))
  have "Suc (length ?f) = length (up_flying u)" using assms by simp
  then show "2 * length (up_flying (UploadBuffer e k u)) + up_ending (UploadBuffer e k u) <
     2 * length (up_flying u) + up_ending u"
    using g(3,4) by linarith
qed

lemma steps_left_frame: "up_buffers u' = up_buffers u \<Longrightarrow> steps_left p u' = steps_left p u"
  by (cases p) simp_all

lemma in_bounds_frame:
  "in_bounds ps b (cs, p, u) \<Longrightarrow> up_part_size u' = up_part_size u \<Longrightarrow> up_buffers u' = up_buffers u \<Longrightarrow>
   in_bounds ps b (cs, p, u')"
  by (rule in_bounds_same) auto

lemma start_call_bounds:
  assumes "in_bounds ps b (c # cs, Returned, u)"
  shows "in_bounds ps b (cs, start_call c, u)"
proof -
  have B: "up_part_size u = ps" "call_end c \<le> b" "\<forall>c \<in> set cs. call_end c \<le> b"
    "\<exists>off. calls_from off (c # cs)" "only_finalize (c # cs) \<or> buffers_placed ps u"
    using assms by (simp_all add: in_bounds_def)
  have cs: "\<exists>off. calls_from off cs" using B(4) calls_from_tail by blast
  show ?thesis
  proof (cases c)
    case (WriteCall d loc)
    with B cs show ?thesis by (simp add: in_bounds_def)
  next
    case FinalizeCall
    then have "only_finalize cs" using B(4) by simp
    with FinalizeCall B(1-3) cs show ?thesis by (simp add: in_bounds_def)
  qed
qed

lemma abandon_bounds:
  assumes "in_bounds ps b (c # cs, Threw ex, u)"
  shows "in_bounds ps b (if is_write c then (cs, Threw ex, u) else (cs, Finalizing, u))"
proof -
  have B: "up_part_size u = ps" "\<forall>c \<in> set cs. call_end c \<le> b" "\<exists>off. calls_from off (c # cs)"
    using assms by (simp_all add: in_bounds_def)
  have cs: "\<exists>off. calls_from off cs" using B(3) calls_from_tail by blast
  show ?thesis
  proof (cases c)
    case (WriteCall d loc)
    with B(1,2) cs show ?thesis by (simp add: in_bounds_def)
  next
    case FinalizeCall
    then have "only_finalize cs" using B(3) by simp
    with FinalizeCall B(1,2) cs show ?thesis by (simp add: in_bounds_def)
  qed
qed

lemma upload_step_decreases:
  assumes "upload_step e c c'" and "in_bounds ps b c" and "bounds_ok ps b"
  shows "in_bounds ps b c' \<and> (c', c) \<in> upload_order"
  using assms(1,2)
proof (induction rule: upload_step.induct)
  case (main_step p u p' u' cs)
  from main_turn_bounds [OF main_step(1,3) assms(3)] show ?case by (simp add: upload_order_def)
next
  case (call_step u c cs)
  from start_call_bounds [OF call_step(2)] show ?case by (simp add: upload_order_def)
next
  case (abandon_step u c cs ex)
  from abandon_bounds [OF abandon_step(2)] show ?case by (simp add: upload_order_def)
next
  case (thread_step k u cs p)
  note f = UploadBuffer_frame [OF thread_step(1), of e]
  show ?case using in_bounds_frame [OF thread_step(3) f(1,2)] f(3) steps_left_frame [OF f(2), of p]
    by (simp add: upload_order_def)
next
  case (notify_step u cs p)
  have f: "up_part_size (UploadBuffer_notify u) = up_part_size u" "up_buffers (UploadBuffer_notify u) = up_buffers u"
    "up_flying (UploadBuffer_notify u) = up_flying u" "up_ending (UploadBuffer_notify u) = up_ending u - 1"
    by (simp_all add: UploadBuffer_notify_def NotifyUploadsInProgress_def)
  show ?case using in_bounds_frame [OF notify_step(3) f(1,2)] f(3,4) steps_left_frame [OF f(2), of p] notify_step(1)
    by (simp add: upload_order_def)
qed

section \<open>Nothing waits for ever\<close>

text \<open>A run that has ended: the process terminated, or every call returned or threw and no thread is left.\<close>

definition ended :: "config \<Rightarrow> bool" where
  "ended c \<longleftrightarrow> (case c of (cs, p, u) \<Rightarrow> up_terminated u \<or>
     cs = [] \<and> up_flying u = [] \<and> up_ending u = 0 \<and> (p = Returned \<or> (\<exists>ex. p = Threw ex)))"

lemma stuck_threads:
  assumes "\<nexists>c'. upload_step e (cs, p, u) c'" and "\<not> up_terminated u"
  shows "up_flying u = []" "up_ending u = 0" "main_turn e p u = None"
    "p = Returned \<or> (\<exists>ex. p = Threw ex) \<Longrightarrow> cs = []"
proof -
  show "up_flying u = []" using assms thread_step [of 0 u e cs p] by (cases "up_flying u") auto
  show "up_ending u = 0" using assms notify_step [of u e cs p] by auto
  show "main_turn e p u = None" using assms main_step [of e p u _ _ cs] by (cases "main_turn e p u") auto
  show "p = Returned \<or> (\<exists>ex. p = Threw ex) \<Longrightarrow> cs = []"
    using assms call_step [of u e _ _] abandon_step [of u e _ _] by (cases cs) blast+
qed

lemma main_turn_None:
  "main_turn e p u = None \<Longrightarrow> p = Returned \<or> (\<exists>ex. p = Threw ex) \<or>
   p = AwaitingUploads \<and> up_in_progress u \<noteq> 0 \<or>
   (\<exists>b r. p = WaitingForThread b r \<and> up_max_threads u \<le> up_in_progress u)"
  by (cases "(e, p, u)" rule: main_turn.cases) (auto split: if_splits)

lemma stuck_ended:
  assumes "\<nexists>c'. upload_step e c c'" and "count_ok m c"
  shows "ended c \<or> m = 0 \<and> (\<exists>cs b r u. c = (cs, WaitingForThread b r, u))"
proof -
  obtain cs p u where c: "c = (cs, p, u)" by (metis surj_pair)
  show ?thesis
  proof (cases "up_terminated u")
    case True
    then show ?thesis by (simp add: c ended_def)
  next
    case False
    note s = stuck_threads [OF assms(1) [unfolded c] False]
    have n: "up_in_progress u = starting p" "up_max_threads u = m"
      using assms(2) s(1,2) False by (simp_all add: c count_ok_def)
    show ?thesis using main_turn_None [OF s(3)]
    proof (elim disjE conjE exE)
      assume "p = AwaitingUploads" and "up_in_progress u \<noteq> 0"
      then show ?thesis using n(1) by simp
    next
      fix b r assume "p = WaitingForThread b r" and "up_max_threads u \<le> up_in_progress u"
      then show ?thesis using n c by simp
    qed (use s c in \<open>simp_all add: ended_def\<close>)
  qed
qed

lemma pending_bounds:
  "calls_from off cs \<Longrightarrow> c \<in> set cs \<Longrightarrow> call_end c \<le> off + length (pending cs)"
proof (induction off cs rule: calls_from.induct)
  case (2 loc d l cs)
  then show ?case by (auto simp: add.assoc dest: 2(1))
next
  case (3 loc cs)
  then have "c = FinalizeCall" by (auto simp: only_finalize_def)
  then show ?case by simp
qed simp

lemma start_bounds:
  assumes "calls_from 0 cs"
  shows "in_bounds ps (length (pending cs)) (cs, Returned, new_upload ps m inp)"
  using assms pending_bounds [OF assms]
  by (auto simp: in_bounds_def new_upload_def buffers_placed_def)

lemma no_infinite_run:
  assumes "in_bounds ps b c0" and "bounds_ok ps b"
  shows "\<not> (\<exists>run. run 0 = c0 \<and> (\<forall>i. upload_step e (run i) (run (Suc i))))"
proof
  assume "\<exists>run. run 0 = c0 \<and> (\<forall>i. upload_step e (run i) (run (Suc i)))"
  then obtain run where "run 0 = c0" and run: "\<forall>i. upload_step e (run i) (run (Suc i))" by blast
  have "in_bounds ps b (run i)" for i
  proof (induction i)
    case 0
    then show ?case using assms(1) \<open>run 0 = c0\<close> by simp
  next
    case (Suc i)
    then show ?case using run upload_step_decreases [OF _ _ assms(2)] by blast
  qed
  then have "\<forall>i. (run (Suc i), run i) \<in> upload_order"
    using run upload_step_decreases [OF _ _ assms(2)] by blast
  then show False using wf_upload_order by (auto simp: wf_iff_no_infinite_down_chain)
qed

lemma upload_bounds_ok:
  "0 < ps \<Longrightarrow> ps < w64 \<Longrightarrow> part_count content ps < w16 \<Longrightarrow> length content < w64 \<Longrightarrow> bounds_ok ps (length content)"
  using div_le_part_count [of ps "length content" content] by (simp add: bounds_ok_def)

section \<open>A thread limit of 0\<close>

text \<open>While nothing was sent, the writing thread is in its first part.\<close>

definition untouched :: "upload_env \<Rightarrow> bytes \<Rightarrow> nat \<Rightarrow> config \<Rightarrow> bool" where
  "untouched e content ps c \<longleftrightarrow> (case c of (cs, p, u) \<Rightarrow>
     upload_inv e content ps c \<and> count_ok 0 c \<and> up_sent u = [] \<and> up_errors u = [] \<and>
     up_etags u = Map.empty \<and> \<not> up_finalized u \<and> \<not> up_terminated u)"

lemma untouched_counts:
  assumes "untouched e content ps (cs, p, u)"
  shows "up_flying u = []" "up_ending u = 0" "starting p = 0" "up_max_threads u = 0" "up_in_progress u = 0"
  using assms by (auto simp: untouched_def count_ok_def)

lemma untouched_phase:
  assumes "untouched e content ps (cs, p, u)" and "0 < ps" and "ps \<le> length content"
  shows "phase_write e content ps (cs, p, u) \<and> up_offset u < ps"
proof -
  have u: "upload_inv e content ps (cs, p, u)" "up_sent u = []" "up_errors u = []" "up_etags u = Map.empty"
    "\<not> up_finalized u" "\<not> up_terminated u"
    using assms(1) by (simp_all add: untouched_def)
  note f = untouched_counts(1) [OF assms(1)]
  have L: "L = 0" if "threads_ok e content ps L u" for L
    using that f u(4) by (auto simp: threads_ok_def)
  have len: "0 < length content div ps" using assms(2,3) by (simp add: div_greater_zero_iff)
  then have parts: "0 < part_count content ps" using div_le_part_count [OF assms(2), of "length content" content] by simp
  have "\<not> finalizing_at content ps 0 p u"
    using len parts assms(2,3) by (cases "(content, ps, 0::nat, p, u)" rule: finalizing_at.cases) auto
  then have "\<not> phase_finalize e content ps (cs, p, u)" using L by (auto simp: phase_finalize_def)
  moreover have "\<not> phase_error (cs, p, u)" "\<not> phase_uncreated (cs, p, u)" "\<not> phase_done e content ps (cs, p, u)"
    "\<not> phase_terminated (cs, p, u)"
    using u by (simp_all add: phase_error_def phase_uncreated_def create_failed_def phase_done_def phase_terminated_def)
  ultimately have w: "phase_write e content ps (cs, p, u)" using u(1) by (simp add: upload_inv_def)
  then have "up_offset u div ps = 0" using L by (simp add: phase_write_def)
  with w assms(2) show ?thesis by (simp add: div_eq_0_iff)
qed

definition same_sent :: "upload \<Rightarrow> upload \<Rightarrow> bool" where
  "same_sent u u' \<longleftrightarrow> up_sent u' = up_sent u \<and> up_errors u' = up_errors u \<and> up_etags u' = up_etags u \<and>
     up_finalized u' = up_finalized u \<and> up_terminated u' = up_terminated u"

lemma go_back_sent: "go_back r u = (p', u') \<Longrightarrow> same_sent u u'"
  by (cases r) (auto simp: same_sent_def count_bytes_def)

lemma write_turn_sent:
  assumes "write_turn data loc u = (p', u')"
  shows "same_sent u u'"
proof -
  obtain b u1 where g: "GetBuffer (loc div up_part_size u) u = (b, u1)" by fastforce
  have u1: "same_sent u u1"
    using g by (auto simp: GetBuffer_def same_sent_def Let_def split: option.splits)
  have "same_sent u (snd (write_turn data loc u))"
    unfolding write_turn_def Let_def g prod.case using u1
    by (simp add: same_sent_def put_buffer_def count_bytes_def)
  with assms show ?thesis by simp
qed

lemma claim_turn_sent:
  assumes "claim_turn e b r u = (p', u')"
  shows "same_sent u u'"
proof (cases "wb_idx b = 0 \<or> wb_uploading b")
  case True
  then show ?thesis using assms go_back_sent by (simp add: claim_turn_def)
next
  case False
  then have "u' = put_buffer (wb_part b mod w16) (b\<lparr>wb_uploading := True\<rparr>) u \<or>
      u' = drop_buffer (wb_part b mod w16) (put_buffer (wb_part b mod w16) (b\<lparr>wb_uploading := True\<rparr>) u)"
    using assms by (cases "RethrowIOError e u") (simp_all add: claim_turn_def Let_def)
  then show ?thesis by (elim disjE) (simp_all add: same_sent_def put_buffer_def drop_buffer_def)
qed

lemma untouched_step:
  assumes "upload_step e c c'" and "untouched e content ps c" and "ps \<le> length content"
    and ps: "0 < ps" "part_count content ps < w16" "length content < w64" "ps < w64"
  shows "untouched e content ps c'"
proof -
  obtain cs p u where c: "c = (cs, p, u)" by (metis surj_pair)
  obtain cs' p' u' where c': "c' = (cs', p', u')" by (metis surj_pair)
  note t = assms(2) [unfolded c]
  have w: "phase_write e content ps (cs, p, u)" using untouched_phase [OF t ps(1) assms(3)] by blast
  note n = untouched_counts [OF t]
  have inv: "upload_inv e content ps c' \<and> count_ok 0 c'"
  proof (rule upload_step_inv [OF assms(1) _ _ _ ps])
    show "upload_inv e content ps c" "count_ok 0 c" "(0::nat) < w16" using t by (simp_all add: untouched_def c)
  qed
  have "same_sent u u'"
    using assms(1) [unfolded c c']
  proof (cases rule: upload_step.cases)
    case main_step
    show ?thesis
    proof (cases p)
      case (Writing data loc)
      then show ?thesis using main_step write_turn_sent by simp
    next
      case (Claiming b r)
      then show ?thesis using main_step claim_turn_sent by simp
    qed (use main_step n w in \<open>auto simp: phase_write_def\<close>)
  next
    case (abandon_step c ex)
    then show ?thesis using w by (simp add: phase_write_def)
  qed (use n in \<open>simp_all add: same_sent_def\<close>)
  with inv t show ?thesis by (simp add: untouched_def c c' same_sent_def)
qed

lemma untouched_waits:
  assumes "untouched e content ps c" and "\<nexists>c'. upload_step e c c'" and "0 < ps" and "ps \<le> length content"
  shows "\<exists>cs b r u. c = (cs, WaitingForThread b r, u)"
proof -
  obtain cs p u where c: "c = (cs, p, u)" by (metis surj_pair)
  have w: "phase_write e content ps (cs, p, u)" using untouched_phase [OF assms(1) [unfolded c] assms(3,4)] by blast
  have "count_ok 0 c" using assms(1) by (simp add: untouched_def c)
  from stuck_ended [OF assms(2) this] show ?thesis
  proof
    assume "ended c"
    moreover have "\<not> up_terminated u" using assms(1) by (simp add: untouched_def c)
    moreover have "FinalizeCall \<in> set cs" using w by (simp add: phase_write_def)
    then have "cs \<noteq> []" by (cases cs) simp_all
    ultimately show ?thesis by (simp add: c ended_def)
  qed (use c in blast)
qed

section \<open>Properties\<close>



text \<open>
  With s3_uploader_thread_limit set to 0, which the setting allows, writing one full part hangs:
  every run of such an upload stops inside FlushBuffer, at the wait for a free upload thread,
  and nothing was sent.
\<close>

theorem no_threads_hangs:
  assumes "calls_from 0 cs" and "FinalizeCall \<in> set cs"
    and "0 < ps" and "part_count (pending cs) ps < w16" and "length (pending cs) < w64" and "ps < w64"
    and "ps \<le> length (pending cs)"
  shows "\<not> (\<exists>run. run 0 = (cs, Returned, new_upload ps 0 inp) \<and> (\<forall>i. upload_step e (run i) (run (Suc i)))) \<and>
     (\<forall>cs' p u. upload_reachable e (cs, Returned, new_upload ps 0 inp) (cs', p, u) \<longrightarrow> up_sent u = [] \<and>
        ((\<nexists>c'. upload_step e (cs', p, u) c') \<longrightarrow> (\<exists>b r. p = WaitingForThread b r)))"
proof -
  have start: "untouched e (pending cs) ps (cs, Returned, new_upload ps 0 inp)"
    using start_inv [OF assms(1-3)] by (simp add: untouched_def new_upload_def)
  have "untouched e (pending cs) ps c" if "upload_reachable e (cs, Returned, new_upload ps 0 inp) c" for c
    using that
  proof induction
    case (reach_step c c')
    then show ?case using untouched_step [OF _ _ assms(7,3-6)] by blast
  qed (rule start)
  then have "up_sent u = [] \<and> ((\<nexists>c'. upload_step e (cs', p, u) c') \<longrightarrow> (\<exists>b r. p = WaitingForThread b r))"
    if "upload_reachable e (cs, Returned, new_upload ps 0 inp) (cs', p, u)" for cs' p u
    using that untouched_waits [of e "pending cs" ps "(cs', p, u)"] assms(3,7) by (auto simp: untouched_def)
  then show ?thesis
    by (intro conjI no_infinite_run [OF start_bounds [OF assms(1)] upload_bounds_ok [OF assms(3,6,4,5)]]) simp
qed

theorem no_threads_hangs_witness:
  "\<exists>cs b r u. upload_reachable demo_upload (demo_calls, Returned, new_upload 2 0 (up_demo_input, demo_world))
       (cs, WaitingForThread b r, u) \<and> up_sent u = []"
proof -
  obtain b r u where "run_moves demo_upload (take 3 demo_moves)
      (demo_calls, Returned, new_upload 2 0 (up_demo_input, demo_world)) = Some (tl demo_calls, WaitingForThread b r, u)"
    using demo_wait by blast
  from run_moves_reachable [OF this reach_start]
  have run: "upload_reachable demo_upload (demo_calls, Returned, new_upload 2 0 (up_demo_input, demo_world))
      (tl demo_calls, WaitingForThread b r, u)" .
  moreover have "calls_from 0 demo_calls" "FinalizeCall \<in> set demo_calls" "pending demo_calls = ''abc''"
    by (simp_all add: demo_calls_def)
  ultimately have "up_sent u = []"
    using no_threads_hangs [of demo_calls 2 "(up_demo_input, demo_world)" demo_upload] by (simp add: part_count_def)
  with run show ?thesis by blast
qed

section \<open>Uploads without data\<close>

text \<open>The run of a handle that is closed without a write.\<close>

definition empty_run :: "config \<Rightarrow> bool" where
  "empty_run c \<longleftrightarrow> (case c of (cs, p, u) \<Rightarrow> up_flying u = [] \<and> up_ending u = 0 \<and> up_buffers u = [] \<and>
     up_errors u = [] \<and> up_uploaded u = 0 \<and> \<not> up_finalized u \<and>
     (cs = [FinalizeCall] \<and> p = Returned \<and> up_sent u = [] \<and> \<not> up_initialized u \<or>
      cs = [] \<and> p = Finalizing \<and> up_sent u = [] \<and> \<not> up_initialized u \<or>
      cs = [] \<and> (\<exists>r out. up_sent u = [SentPost ''uploads='' [] r out]) \<and>
        (up_initialized u \<and> p \<in> {FlushingAll [], AwaitingUploads, Returned} \<or> (\<exists>ex. p = Threw ex))))"

lemma empty_run_main:
  assumes "main_turn e p u = Some (p', u')" and "empty_run (cs, p, u)"
  shows "empty_run (cs, p', u')"
proof -
  have X: "up_flying u = []" "up_ending u = 0" "up_buffers u = []" "up_errors u = []" "up_uploaded u = 0"
    "\<not> up_finalized u"
    using assms(2) by (simp_all add: empty_run_def)
  consider (start) "cs = []" "p = Finalizing" "up_sent u = []" "\<not> up_initialized u"
    | (on) r out where "cs = []" "up_sent u = [SentPost ''uploads='' [] r out]" "up_initialized u"
        "p = FlushingAll [] \<or> p = AwaitingUploads"
    using assms by (auto simp: empty_run_def)
  then show ?thesis
  proof cases
    case start
    obtain res u1 where i: "InitializeMultipartUpload e u = (res, u1)" by fastforce
    note f = initialize_fields [OF i]
    obtain r out where sent: "up_sent u1 = [SentPost ''uploads='' [] r out]"
      by (rule initialize_frame [OF i]) (simp add: start(3))
    have "(\<exists>ex. p' = Threw ex \<and> u' = u1) \<or> (\<exists>i. p' = FlushingAll [] \<and> u' = u1\<lparr>up_id := i\<rparr> \<and> up_initialized u1)"
      using assms(1) start X(3,6) i f(14) by (cases res) (auto simp: finalize_turn_def)
    then show ?thesis using f X sent start(1) by (elim disjE exE conjE) (simp_all add: empty_run_def)
  next
    case on
    then have "u' = u \<and> (p' = AwaitingUploads \<or> p' = Returned)"
      using assms(1) X by (auto simp: complete_turn_def RethrowIOError_def split: if_splits)
    then show ?thesis using X on by (auto simp: empty_run_def)
  qed
qed

lemma empty_run_step:
  assumes "upload_step e c c'" and "empty_run c"
  shows "empty_run c'"
  using assms
proof (induction rule: upload_step.induct)
  case (main_step p u p' u' cs)
  then show ?case using empty_run_main by blast
qed (auto simp: empty_run_def)

text \<open>
  A handle that is opened for writing and closed without a write leaves no object: every run
  sends at most the request that creates a multipart upload. It uploads no part and never completes
  the upload, and when Finalize returns without an exception the created upload is left open.
\<close>

theorem empty_file_never_completed:
  assumes "upload_reachable e ([FinalizeCall], Returned, new_upload ps m inp) (cs, p, u)"
  shows "(up_sent u = [] \<or> (\<exists>r out. up_sent u = [SentPost ''uploads='' [] r out])) \<and> \<not> up_finalized u \<and>
     (cs = [] \<and> p = Returned \<longrightarrow> up_initialized u \<and> up_sent u \<noteq> [])"
proof -
  have "empty_run ([FinalizeCall], Returned, new_upload ps m inp)"
    by (simp add: empty_run_def new_upload_def)
  with assms have "empty_run (cs, p, u)"
    by (induction "(cs, p, u)" arbitrary: cs p u rule: upload_reachable.induct) (auto intro: empty_run_step)
  then show ?thesis by (auto simp: empty_run_def)
qed

theorem empty_file_never_completed_witness:
  "\<exists>u. upload_reachable demo_upload ([FinalizeCall], Returned, new_upload 2 1 (up_demo_input, demo_world)) ([], Returned, u) \<and>
     up_initialized u \<and> \<not> up_finalized u"
proof -
  obtain u where "run_moves demo_upload [CallMove, MainMove, MainMove, MainMove]
      ([FinalizeCall], Returned, new_upload 2 1 (up_demo_input, demo_world)) = Some ([], Returned, u)"
    using demo_empty by blast
  from run_moves_reachable [OF this reach_start] empty_file_never_completed
  show ?thesis by blast
qed

section \<open>Exceptions in upload threads\<close>

text \<open>
  Only IO and HTTP exceptions of a part's upload are kept for the writing thread. When
  PutRequest throws another one, as the refresh of an expired secret does with the type of
  the secret provider's exception, it leaves the body of the detached thread: the process
  terminates, and no step follows.
\<close>

theorem refresh_failure_terminates:
  assumes "k < length (up_flying u)" and "\<not> up_terminated u"
    and "fst (PutRequest_s3 (ue_s3 e) (ue_path e) (take (wb_idx (up_flying u ! k)) (wb_data (up_flying u ! k)))
           (part_query e (wb_part (up_flying u ! k)) (up_id u)) (up_input u)) = Inl ex"
    and "ex_type ex \<noteq> ExIO" and "ex_type ex \<noteq> ExHTTP"
  shows "\<exists>u'. upload_step e (cs, p, u) (cs, p, u') \<and> up_terminated u' \<and> \<not> (\<exists>c'. upload_step e (cs, p, u') c')"
proof -
  let ?b = "up_flying u ! k"
  obtain inp where "PutRequest_s3 (ue_s3 e) (ue_path e) (take (wb_idx ?b) (wb_data ?b))
      (part_query e (wb_part ?b) (up_id u)) (up_input u) = (Inl ex, inp)"
    using assms(3) by (metis prod.collapse)
  then have "up_terminated (UploadBuffer e k u)"
    using assms(4,5) by (simp add: UploadBuffer_def UploadBufferImplementation_def upload_put_def Let_def)
  moreover have "\<not> (\<exists>c'. upload_step e (cs, p, UploadBuffer e k u) c')"
    using calculation by (auto elim: upload_stepE)
  ultimately show ?thesis using thread_step [OF assms(1,2)] by blast
qed

theorem refresh_failure_terminates_witness:
  "\<exists>u'. upload_step refused_upload ([FinalizeCall], Returned,
       (new_upload 2 1 (up_demo_input, demo_world))\<lparr>up_flying := [new_write_buffer 0 2]\<rparr>)
     ([FinalizeCall], Returned, u') \<and> up_terminated u'"
proof -
  let ?u = "(new_upload 2 1 (up_demo_input, demo_world))\<lparr>up_flying := [new_write_buffer 0 2]\<rparr>"
  have f: "0 < length (up_flying ?u)" "\<not> up_terminated ?u" "up_input ?u = (up_demo_input, demo_world)"
    by (simp_all add: new_upload_def)
  have "fst (PutRequest_s3 (ue_s3 refused_upload) (ue_path refused_upload) d q (up_input ?u)) = Inl refused_exn" for d q
    using refused_put [of d q] f(3) by auto
  from refresh_failure_terminates [where cs = "[FinalizeCall]" and p = Returned, OF f(1,2) this]
  show ?thesis by (auto simp: refused_exn_def)
qed

end
