(* ===== verification/S3Open.thy ===== *)
theory S3Open
  imports S3UploadSafe HttpOpen
begin

text \<open>
  Opening and closing an S3 file (src/s3fs.cpp: S3FileHandle::Initialize, FinalizeUpload, FileSync,
  RemoveFile): the retry in another region, and the part size of an upload with its bounds.
\<close>

section \<open>Initialize\<close>

text \<open>The context and the refresh setting, kept in the handle and in the input it shares.\<close>

definition set_refresh_context :: "opener option \<Rightarrow> s3h \<Rightarrow> s3h" where
  "set_refresh_context opn h =
     (let refresh = IsS3CredentialRefreshEnabled opn;
          ctx = (case opn of None \<Rightarrow> False | Some op \<Rightarrow> op_context op) \<and> refresh
      in h\<lparr>sh_refresh_enabled := refresh, sh_context := ctx, si_refresh_enabled := refresh, si_context := ctx\<rparr>)"

text \<open>What the handler makes of a failure: an exception, or the region to try.\<close>

definition open_redirect :: "s3_env \<Rightarrow> s3h \<Rightarrow> exn \<Rightarrow> exn + string" where
  "open_redirect e h ex =
     (case ex_resp ex of
        None \<Rightarrow> Inl ex
      | Some r \<Rightarrow>
          (let st = to_string (status r);
               correct_region = (if st = ''301'' \<or> st = ''400'' then header_value r ''x-amz-bucket-region'' else '''')
           in if st = ''403''
              then Inl (Exn (ex_type ex) (ex_msg ex @
                     (if is_gcs_path (sv_su e) (h_path h) then GetGCSAuthError (sh_auth h)
                      else GetS3AuthError (sh_auth h))) (ex_resp ex))
              else if correct_region = '''' then Inl ex else Inr correct_region))"

definition reread_region :: "s3_env \<Rightarrow> string \<Rightarrow> s3h \<Rightarrow> world \<Rightarrow> s3h" where
  "reread_region e correct_region h w =
     sh_SetRegion (sv_su e) correct_region
       (h\<lparr>sh_auth := ReadFromOpener (sv_su e) (sv_reader e (w_secrets w) (h_path h)) (h_path h)\<rparr>)"

text \<open>
  The part size; None where the code divides by zero. bs is Storage::DEFAULT_BLOCK_SIZE.
\<close>

definition upload_part_size :: "nat \<Rightarrow> s3_config \<Rightarrow> nat option" where
  "upload_part_size bs cfg =
     (if max_parts_per_file cfg = 0 then None
      else
        (let required_part_size = max_file_size cfg div max_parts_per_file cfg;
             minimum_part_size = max 5242880 required_part_size
         in Some (mul64 (sub64 (add64 minimum_part_size bs) 1 div bs) bs)))"

definition Initialize_s3 :: "nat \<Rightarrow> s3_env \<Rightarrow> opener option \<Rightarrow> s3h \<Rightarrow> world \<Rightarrow>
    (exn + nat option) \<times> s3h \<times> world" where
  "Initialize_s3 bs e opn h0 w0 =
     (let finish = (\<lambda>(ex, h, w). case ex of
            Some ex \<Rightarrow> (Inl ex, h, w)
          | None \<Rightarrow>
              (if of_write (h_flags h)
               then (case upload_part_size bs (sh_config h) of
                       None \<Rightarrow> (Inl (Exn Undefined ''division by zero'' None), h, w)
                     | Some ps \<Rightarrow> (Inr (Some ps), h, w))
               else (Inr None, h, w)))
      in case Initialize (sv_env e) (s3_ops e) opn (set_refresh_context opn h0) w0 of
           (None, h, w) \<Rightarrow> finish (None, h, w)
         | (Some ex, h, w) \<Rightarrow>
             (case open_redirect e h ex of
                Inl ex2 \<Rightarrow> (Inl ex2, h, w)
              | Inr r \<Rightarrow> finish (Initialize (sv_env e) (s3_ops e) opn (reread_region e r h w) w)))"

text \<open>The upload of a handle opened for writing.\<close>

definition open_upload :: "nat \<Rightarrow> s3h \<Rightarrow> world \<Rightarrow> upload" where
  "open_upload part_size h w = new_upload part_size (max_upload_threads (sh_config h)) (input_of h, w)"

section \<open>Closing and removing\<close>

text \<open>Close and FileSync: the call of the upload, if there is one.\<close>

definition FinalizeUpload :: "s3h \<Rightarrow> call list" where
  "FinalizeUpload h = (if of_write (h_flags h) then [FinalizeCall] else [])"

definition RemoveFile :: "s3_env \<Rightarrow> (file_info \<Rightarrow> open_flags \<Rightarrow> world \<Rightarrow> (exn + s3h option) \<times> world) \<Rightarrow>
    string \<Rightarrow> world \<Rightarrow> exn option \<times> world" where
  "RemoveFile e open_file path w =
     (case open_file \<lparr>fi_path = path, fi_ext = None\<rparr> (READ_FLAGS\<lparr>of_read := False, of_null_if_not_exists := True\<rparr>) w of
        (Inl ex, w1) \<Rightarrow> (Some ex, w1)
      | (Inr None, w1) \<Rightarrow> (Some (Exn ExIO ''Could not remove file'' None), w1)
      | (Inr (Some h), w1) \<Rightarrow>
          (case DeleteRequest_s3 e (h_path h) h w1 of
             (Inl ex, h1, w2) \<Rightarrow> (Some ex, w2)
           | (Inr None, h1, w2) \<Rightarrow> (Some no_response, w2)
           | (Inr (Some r), h1, w2) \<Rightarrow>
               ((if status r \<noteq> OK_200 \<and> status r \<noteq> 204 then Some (Exn ExIO ''Could not remove file'' None)
                 else None), w2)))"

section \<open>The part size\<close>

lemma round_up_dvd:
  assumes "(0::nat) < bs"
  shows "n \<le> (n + bs - 1) div bs * bs" "(n + bs - 1) div bs * bs < n + bs"
proof -
  have "(n + bs - 1) mod bs < bs" using assms by simp
  moreover have "(n + bs - 1) div bs * bs + (n + bs - 1) mod bs = n + bs - 1" by simp
  ultimately show "n \<le> (n + bs - 1) div bs * bs" "(n + bs - 1) div bs * bs < n + bs"
    using assms by linarith+
qed

lemma upload_part_size_exact:
  assumes "0 < bs" and "0 < max_parts_per_file cfg" and "max 5242880 (max_file_size cfg) + bs < w64"
  shows "upload_part_size bs cfg =
    Some ((max 5242880 (max_file_size cfg div max_parts_per_file cfg) + bs - 1) div bs * bs)"
proof -
  let ?n = "max 5242880 (max_file_size cfg div max_parts_per_file cfg)"
  have "max_file_size cfg div max_parts_per_file cfg \<le> max_file_size cfg" by simp
  then have n: "?n + bs < w64" using assms(3) by linarith
  then have "sub64 (add64 ?n bs) 1 = ?n + bs - 1" using assms(1) by (simp add: add64_exact sub64_exact)
  moreover have "(?n + bs - 1) div bs * bs < w64" using round_up_dvd(2) [OF assms(1), of ?n] n by linarith
  ultimately show ?thesis using assms(2) by (simp add: upload_part_size_def Let_def mul64_exact)
qed

text \<open>
  C35: The part size that opening for writing chooses: at least the 5 MiB S3 demands, a multiple of
  the block size, at most a block more than needed, and never smaller than the largest file divided
  by the number of parts, rounded down. So it makes an upload that the write path's bounds allow,
  and a file of the largest size fits into the permitted number of parts whenever the division is
  exact or a block boundary was not hit.
\<close>

theorem part_size_bounds:
  assumes "0 < bs" and "0 < max_parts_per_file cfg" and "max 5242880 (max_file_size cfg) + bs < w64"
  shows "\<exists>ps. upload_part_size bs cfg = Some ps \<and> 5242880 \<le> ps \<and> bs dvd ps \<and>
     ps < max 5242880 (max_file_size cfg div max_parts_per_file cfg) + bs \<and> ps < w64 \<and>
     max_file_size cfg < (ps + 1) * max_parts_per_file cfg \<and>
     (max_file_size cfg mod max_parts_per_file cfg = 0 \<or> ps \<noteq> max_file_size cfg div max_parts_per_file cfg \<longrightarrow>
        max_file_size cfg \<le> ps * max_parts_per_file cfg)"
proof -
  let ?F = "max_file_size cfg" and ?M = "max_parts_per_file cfg"
  let ?n = "max 5242880 (?F div ?M)"
  let ?ps = "(?n + bs - 1) div bs * bs"
  have n: "?n \<le> ?ps" "?ps < ?n + bs" by (rule round_up_dvd [OF assms(1)])+
  have "?F div ?M \<le> ?F" by simp
  then have w: "?ps < w64" using assms(3) n(2) by linarith
  have q: "?F div ?M \<le> ?ps" using n(1) by linarith
  have F: "?F = ?F div ?M * ?M + ?F mod ?M" by simp
  have "?F mod ?M < ?M" using assms(2) by simp
  then have "?F < (?F div ?M + 1) * ?M" using F by (simp only: distrib_right)
  also have "(?F div ?M + 1) * ?M \<le> (?ps + 1) * ?M" using q by (intro mult_right_mono) simp_all
  finally have lt: "?F < (?ps + 1) * ?M" .
  have "?F \<le> ?ps * ?M" if "?F mod ?M = 0 \<or> ?ps \<noteq> ?F div ?M"
  proof (cases "?F mod ?M = 0")
    case True
    then have "?F = ?F div ?M * ?M" using F by linarith
    also have "\<dots> \<le> ?ps * ?M" using q by (intro mult_right_mono) simp_all
    finally show ?thesis .
  next
    case False
    then have "?F div ?M + 1 \<le> ?ps" using that q by linarith
    then have "(?F div ?M + 1) * ?M \<le> ?ps * ?M" by (intro mult_right_mono) simp_all
    then show ?thesis using \<open>?F < (?F div ?M + 1) * ?M\<close> by linarith
  qed
  moreover have "5242880 \<le> ?ps" "bs dvd ?ps" using n(1) by simp_all
  ultimately show ?thesis using upload_part_size_exact [OF assms] n(2) w lt by blast
qed

theorem part_size_bounds_witness:
  "upload_part_size 262144 \<lparr>max_file_size = 800000000000, max_parts_per_file = 10000, max_upload_threads = 50\<rparr>
     = Some 80216064 \<and> 5242880 \<le> (80216064::nat) \<and> (262144::nat) dvd 80216064"
proof -
  let ?cfg = "\<lparr>max_file_size = 800000000000, max_parts_per_file = 10000, max_upload_threads = 50\<rparr>"
  have "upload_part_size 262144 ?cfg = Some 80216064"
    by (simp add: upload_part_size_def Let_def add64_def sub64_def mul64_def)
  with part_size_bounds [of 262144 ?cfg] show ?thesis by simp
qed

text \<open>The assertion after it fails where the division is not exact and hits a block boundary.\<close>

lemma part_size_assertion_fails:
  "upload_part_size 262144 \<lparr>max_file_size = 52428800001, max_parts_per_file = 10000, max_upload_threads = 50\<rparr>
     = Some 5242880 \<and> 5242880 * 10000 < (52428800001::nat)"
  by (simp add: upload_part_size_def Let_def add64_def sub64_def mul64_def)

text \<open>
  The second attempt in the region S3 named reads the credentials from the secrets and settings
  again, and so without those of the URL's query, which CreateHandle had read.
\<close>

lemma region_retry_drops_query:
  assumes "Initialize (sv_env e) (s3_ops e) opn (set_refresh_context opn h0) w0 = (Some ex, h, w)"
    and "open_redirect e h ex = Inr r"
  shows "\<exists>h1. sh_auth h1 = SetRegion (sv_su e) r (ReadFromOpener (sv_su e) (sv_reader e (w_secrets w) (h_path h)) (h_path h)) \<and>
     snd (Initialize_s3 bs e opn h0 w0) = snd (Initialize (sv_env e) (s3_ops e) opn h1 w)"
proof -
  let ?h1 = "reread_region e r h w"
  obtain res h2 w2 where i: "Initialize (sv_env e) (s3_ops e) opn ?h1 w = (res, h2, w2)" by (metis surj_pair)
  have "snd (Initialize_s3 bs e opn h0 w0) = (h2, w2)"
    using assms i by (simp add: Initialize_s3_def Let_def split: option.split)
  then show ?thesis using i by (intro exI [of _ ?h1]) (simp add: reread_region_def sh_SetRegion_def)
qed

end
