(* ===== verification/S3List.thy ===== *)
theory S3List
  imports S3Retry
begin

text \<open>
  The ListObjectsV2 request (AWSListObjectV2::Request in src/s3fs.cpp): its query, the retries after a
  refresh and in another region, and the bound on them.
\<close>

section \<open>The request\<close>

text \<open>
  TryRefreshS3AuthParams on the opener's context; the state is the authentication parameters, the
  HTTP parameters and the world.
\<close>

type_synonym list_state = "s3_auth \<times> httpfs_params \<times> world"

definition TryRefreshS3AuthParams :: "s3_env \<Rightarrow> opener option \<Rightarrow> string \<Rightarrow> s3_auth \<Rightarrow> s3_refreshable \<Rightarrow>
    bool \<Rightarrow> list_state \<Rightarrow> (exn + bool) \<times> list_state" where
  "TryRefreshS3AuthParams e opn path request_auth request_http preserve_region s =
     (let (a, p, w) = s
      in case TryRefreshS3AuthMaterial e (case opn of None \<Rightarrow> False | Some op \<Rightarrow> op_context op) (opn \<noteq> None)
                path request_auth request_http (IsS3CredentialRefreshEnabled opn) preserve_region
                (a, p, None) (w_secrets w) of
           (Inl ex, m) \<Rightarrow> (Inl ex, a, p, w\<lparr>w_secrets := m\<rparr>)
         | (Inr (b, a', p', _), m) \<Rightarrow> (Inr b, a', p', w\<lparr>w_secrets := m\<rparr>))"

text \<open>The parameters in the order of the map's keys, and their encoding.\<close>

definition list_params :: "string_util \<Rightarrow> string \<Rightarrow> bool \<Rightarrow> nat option \<Rightarrow> string \<Rightarrow> (string \<times> string) list" where
  "list_params su continuation_token use_delimiter max_keys key =
     (if continuation_token \<noteq> '''' then [(''continuation-token'', UrlEncode su continuation_token True)] else []) @
     (if use_delimiter then [(''delimiter'', ''%2F'')] else []) @
     [(''encoding-type'', ''url''), (''list-type'', ''2'')] @
     (case max_keys of None \<Rightarrow> [] | Some n \<Rightarrow> [(''max-keys'', to_string n)]) @
     [(''prefix'', UrlEncode su key True)]"

definition encode_params :: "(string \<times> string) list \<Rightarrow> string" where
  "encode_params ps = butlast (concat (map (\<lambda>(k, v). k @ ''='' @ v @ ''&'') ps))"

definition list_url :: "string_util \<Rightarrow> string \<Rightarrow> string \<Rightarrow> string" where
  "list_url su full_host listobjectv2_url =
     (if su_starts_with su listobjectv2_url full_host then listobjectv2_url
      else if hd listobjectv2_url = CHR ''/'' then full_host @ listobjectv2_url
      else full_host @ ''/'' @ listobjectv2_url)"

datatype list_turn = ListAgain bool bool list_state | ListStop "exn + bytes" list_state

text \<open>What the loop makes of an answer that was not a refresh: an error, another region, or the body.\<close>

definition list_answer :: "s3_env \<Rightarrow> string \<Rightarrow> response \<Rightarrow> bool \<Rightarrow> bool \<Rightarrow> list_state \<Rightarrow> list_turn" where
  "list_answer e path r ra rr s =
     (let (a, p, w) = s;
          named = has_header r ''x-amz-bucket-region'';
          response_region = header_value r ''x-amz-bucket-region'';
          error = (if 400 \<le> status r then Some (GetS3Error e a r (su_rtrim (sv_su e) path ''/'')) else None);
          other = \<not> rr \<and> named \<and> response_region \<noteq> region a
      in if status r = MovedPermanently_301 \<and> \<not> other
         then ListStop (Inl (Exn ExHTTP ''HTTP 301 response when running glob'' (Some r))) s
         else
           (let updated_bucket_region =
                  (if (status r = MovedPermanently_301 \<or> error \<noteq> None) \<and> other then response_region else '''')
            in if error \<noteq> None \<and> updated_bucket_region = '''' then ListStop (Inl (the error)) s
               else if updated_bucket_region \<noteq> ''''
               then ListAgain ra True (SetRegion (sv_su e) updated_bucket_region a, p, w)
               else ListStop (Inr (body r)) s))"

definition list_turn :: "s3_env \<Rightarrow> opener option \<Rightarrow> string \<Rightarrow> string \<Rightarrow> bool \<Rightarrow> nat option \<Rightarrow>
    bool \<Rightarrow> bool \<Rightarrow> list_state \<Rightarrow> list_turn" where
  "list_turn e opn path continuation_token use_delimiter max_keys ra rr s =
     (let (a, p, w) = s; su = sv_su e
      in case S3UrlParse su path a of
           Inl ex \<Rightarrow> ListStop (Inl ex) s
         | Inr u \<Rightarrow>
             (let req_path = take (length (u_path u) - length (u_key u)) (u_path u);
                  encoded_params = encode_params (list_params su continuation_token use_delimiter max_keys (u_key u));
                  hm = CreateS3Header su (sv_crypto e) (sv_now e (w_clock w)) req_path encoded_params (u_host u)
                         ''s3'' ''GET'' a '''' '''' '''' '''' '''';
                  actual_path = list_url su (u_http_proto u @ u_host u) (req_path @ ''?'' @ encoded_params);
                  request = (base_request GET actual_path hm p)\<lparr>rq_cancellation := False\<rparr>;
                  s1 = (a, p, tick w)
              in case plain_outcome (e_net (sv_env e) (w_clock w) request None) of
                   Inl ex \<Rightarrow> ListStop (Inl ex) s1
                 | Inr None \<Rightarrow> ListStop (Inl (Exn Undefined ''no response'' None)) s1
                 | Inr (Some r) \<Rightarrow>
                     (if has_request_error r then ListStop (Inl (Exn ExIO ''error for HTTP GET'' None)) s1
                      else if \<not> ra \<and> IsAuthRefreshFailure r
                      then (case TryRefreshS3AuthParams e opn path a (SnapshotRefreshableHTTPParams p) rr s1 of
                              (Inl ex, s2) \<Rightarrow> ListStop (Inl ex) s2
                            | (Inr True, s2) \<Rightarrow> ListAgain True rr s2
                            | (Inr False, s2) \<Rightarrow> list_answer e path r ra rr s2)
                      else list_answer e path r ra rr s1)))"

text \<open>The loop, with the iterations left.\<close>

abbreviation (input) retries_exceeded :: exn where
  "retries_exceeded \<equiv> Exn ExInvalidInput
     ''Exceeded retry count in AWSListObjectV2::Request while retrying region redirects or credential refresh'' None"

fun list_loop :: "s3_env \<Rightarrow> opener option \<Rightarrow> string \<Rightarrow> string \<Rightarrow> bool \<Rightarrow> nat option \<Rightarrow> nat \<Rightarrow>
    bool \<Rightarrow> bool \<Rightarrow> list_state \<Rightarrow> (exn + bytes) \<times> list_state" where
  "list_loop e opn path token delim max_keys 0 ra rr s = (Inl retries_exceeded, s)"
| "list_loop e opn path token delim max_keys (Suc n) ra rr s =
     (case list_turn e opn path token delim max_keys ra rr s of
        ListStop res s1 \<Rightarrow> (res, s1)
      | ListAgain ra1 rr1 s1 \<Rightarrow> list_loop e opn path token delim max_keys n ra1 rr1 s1)"

definition ListRequest :: "s3_env \<Rightarrow> opener option \<Rightarrow> string \<Rightarrow> string \<Rightarrow> bool \<Rightarrow> nat option \<Rightarrow>
    list_state \<Rightarrow> (exn + bytes) \<times> list_state" where
  "ListRequest e opn path token delim max_keys s = list_loop e opn path token delim max_keys 3 False False s"

section \<open>The retries are bounded\<close>

text \<open>A turn that goes on sets one more of the two flags.\<close>

lemma list_answer_again:
  "list_answer e path r ra rr s = ListAgain ra1 rr1 s1 \<Longrightarrow> ra1 = ra \<and> \<not> rr \<and> rr1 \<and> w_clock (snd (snd s1)) = w_clock (snd (snd s))"
  by (auto simp: list_answer_def Let_def split: if_splits prod.splits)

lemma refresh_params_clock:
  "TryRefreshS3AuthParams e opn path ra rh keep s = (b, s1) \<Longrightarrow> w_clock (snd (snd s1)) = w_clock (snd (snd s))"
  by (auto simp: TryRefreshS3AuthParams_def Let_def split: prod.splits sum.splits)

lemma list_answer_clock:
  "list_answer e path r ra rr s = ListStop res s1 \<Longrightarrow> s1 = s"
  by (auto simp: list_answer_def Let_def split: if_splits prod.splits)

lemma list_turn_again:
  assumes "list_turn e opn path token delim mk ra rr s = ListAgain ra1 rr1 s1"
  shows "(\<not> ra \<and> ra1 \<and> rr1 = rr \<or> ra1 = ra \<and> \<not> rr \<and> rr1) \<and> w_clock (snd (snd s1)) = Suc (w_clock (snd (snd s)))"
proof -
  obtain a p w where s: "s = (a, p, w)" by (metis surj_pair)
  show ?thesis
    using assms unfolding list_turn_def Let_def s
    by (auto simp: tick_def dest!: list_answer_again refresh_params_clock
        split: sum.splits option.splits if_splits prod.splits bool.splits)
qed

lemma list_turn_stop:
  assumes "list_turn e opn path token delim mk ra rr s = ListStop res s1"
  shows "w_clock (snd (snd s1)) \<le> Suc (w_clock (snd (snd s)))"
proof -
  obtain a p w where s: "s = (a, p, w)" by (metis surj_pair)
  show ?thesis
    using assms unfolding list_turn_def Let_def s
    by (auto simp: tick_def dest!: list_answer_clock refresh_params_clock
        split: sum.splits option.splits if_splits prod.splits bool.splits)
qed

lemma list_loop_bounded:
  "flags_left ra rr < n \<Longrightarrow> list_loop e opn path token delim mk n ra rr s = (res, s1) \<Longrightarrow>
   w_clock (snd (snd s1)) \<le> w_clock (snd (snd s)) + flags_left ra rr + 1 \<and>
   (\<exists>ra1 rr1 s0. list_turn e opn path token delim mk ra1 rr1 s0 = ListStop res s1)"
proof (induction n arbitrary: ra rr s)
  case (Suc n)
  show ?case
  proof (cases "list_turn e opn path token delim mk ra rr s")
    case (ListStop r s2)
    then have "r = res" "s2 = s1" using Suc.prems(2) by simp_all
    then have "list_turn e opn path token delim mk ra rr s = ListStop res s1" using ListStop by simp
    moreover have "w_clock (snd (snd s1)) \<le> w_clock (snd (snd s)) + flags_left ra rr + 1"
      using list_turn_stop [OF calculation] by simp
    ultimately show ?thesis by blast
  next
    case (ListAgain ra2 rr2 s2)
    note f = list_turn_again [OF ListAgain]
    have less: "Suc (flags_left ra2 rr2) = flags_left ra rr" using f by (auto simp: flags_left_def)
    have run: "list_loop e opn path token delim mk n ra2 rr2 s2 = (res, s1)" using Suc.prems(2) ListAgain by simp
    from Suc.IH [OF _ run] Suc.prems(1) less f show ?thesis by auto
  qed
qed simp
lemma list_turn_body:
  assumes "list_turn e opn path token delim mk ra rr s = ListStop (Inr b) s1"
  shows "\<exists>k rq r. plain_outcome (e_net (sv_env e) k rq None) = Inr (Some r) \<and> rq_method rq = GET \<and>
     status r < 400 \<and> \<not> has_request_error r \<and> body r = b"
proof -
  obtain a p w where s: "s = (a, p, w)" by (metis surj_pair)
  have answer: "status r < 400 \<and> body r = b" if "list_answer e path r ra rr s0 = ListStop (Inr b) s1" for r ra s0
    using that by (auto simp: list_answer_def Let_def split: if_splits prod.splits)
  show ?thesis
    using assms unfolding list_turn_def Let_def s
    by (auto simp: base_request_def dest!: answer split: sum.splits option.splits if_splits prod.splits bool.splits
        intro!: exI) 
qed

text \<open>
  Listing one page sends at most three requests, one more for a credential refresh and one for
  another region, and the loop is never exhausted: its result is the result of one of its turns,
  so the exception behind the loop is not thrown. A page it returns is the body of a GET that was
  answered without a request error and with a status below 400.
\<close>

theorem list_request_bounded:
  assumes "ListRequest e opn path token delim mk s = (res, s1)"
  shows "w_clock (snd (snd s1)) \<le> w_clock (snd (snd s)) + 3 \<and>
     (\<exists>ra rr s0. list_turn e opn path token delim mk ra rr s0 = ListStop res s1) \<and>
     (\<forall>b. res = Inr b \<longrightarrow> (\<exists>k rq r. plain_outcome (e_net (sv_env e) k rq None) = Inr (Some r) \<and>
        rq_method rq = GET \<and> status r < 400 \<and> \<not> has_request_error r \<and> body r = b))"
proof -
  have run: "list_loop e opn path token delim mk 3 False False s = (res, s1)"
    using assms by (simp add: ListRequest_def)
  have f: "flags_left False False = 2" by (simp add: flags_left_def)
  from list_loop_bounded [OF _ run] f have
    "w_clock (snd (snd s1)) \<le> w_clock (snd (snd s)) + 3"
    "\<exists>ra rr s0. list_turn e opn path token delim mk ra rr s0 = ListStop res s1" by auto
  then show ?thesis using list_turn_body by blast
qed

definition page_env :: s3_env where
  "page_env = demo_s3 ((demo_env [] [])\<lparr>e_net := \<lambda>k rq cl. \<lparr>attempts = [Attempt [] (Inr (Some
     ((demo_response 200 Map.empty)\<lparr>body := ''page''\<rparr>)))], client_after = cl\<rparr>\<rparr>)"

lemma page_listed:
  "ListRequest page_env opn ''s3://b/k'' token delim mk (demo_auth 0, demo_params, w) =
     (Inr ''page'', demo_auth 0, demo_params, tick w)"
proof -
  have su: "sv_su page_env = ref_su" by (simp add: page_env_def demo_s3_def)
  show ?thesis
    by (simp add: ListRequest_def numeral_3_eq_3 list_turn_def Let_def su demo_parse page_env_def demo_s3_def
        plain_outcome_def has_request_error_def IsAuthRefreshFailure_def list_answer_def demo_response_def)
qed

theorem list_request_bounded_witness:
  "\<exists>k rq r. plain_outcome (e_net (sv_env page_env) k rq None) = Inr (Some r) \<and> rq_method rq = GET \<and>
     body r = ''page'' \<and> w_clock (tick demo_world) \<le> w_clock demo_world + 3"
  using list_request_bounded [OF page_listed [of None "[]" False None demo_world]] by auto

end
