(* ===== verification/S3Glob.thy ===== *)
theory S3Glob
  imports S3List S3Xml
begin

text \<open>
  Globbing on S3 (src/s3fs.cpp: Match, S3GlobResult, ListFilesExtended, RemoveDirectory): the matcher against
  its specification, the expansion of a pattern page by page, and what a paged listing yields.
\<close>

section \<open>Matching path components\<close>

text \<open>
  Match on the components of a key and of a pattern; g is DuckDB's Glob on one component. An
  incomplete key (completed false) matches when it can still be continued to one.
\<close>

function (sequential) Match :: "(string \<Rightarrow> string \<Rightarrow> bool) \<Rightarrow> bool \<Rightarrow> string list \<Rightarrow> string list \<Rightarrow> bool"
  and match_from :: "(string \<Rightarrow> string \<Rightarrow> bool) \<Rightarrow> bool \<Rightarrow> string list \<Rightarrow> string list \<Rightarrow> bool"
  and star_loop :: "(string \<Rightarrow> string \<Rightarrow> bool) \<Rightarrow> bool \<Rightarrow> string list \<Rightarrow> string list \<Rightarrow> bool" where
  "Match g completed key pattern = (if key = [] \<and> \<not> completed then True else match_from g completed key pattern)"
| "match_from g completed (k # ks) (p # ps) =
     (if p = ''**'' then (if ps = [] then True else star_loop g completed (k # ks) ps)
      else if \<not> g k p then False
      else match_from g completed ks ps)"
| "match_from g completed key pattern =
     (if pattern \<noteq> [] \<and> \<not> completed then True else key = [] \<and> pattern = [])"
| "star_loop g completed [] ps = (\<not> completed)"
| "star_loop g completed (k # ks) ps = (Match g completed (k # ks) ps \<or> star_loop g completed ks ps)"
  by pat_completeness auto
termination
  by (relation "measure (\<lambda>x. case x of
       Inl (g, c, k, p) \<Rightarrow> 3 * (length k + length p) + 1
     | Inr (Inl (g, c, k, p)) \<Rightarrow> 3 * (length k + length p)
     | Inr (Inr (g, c, k, p)) \<Rightarrow> 3 * (length k + length p) + 2)") simp_all

text \<open>
  The specification: a component matches a component, the last ** one or more components, another
  ** any number of them.
\<close>

inductive glob_match :: "(string \<Rightarrow> string \<Rightarrow> bool) \<Rightarrow> string list \<Rightarrow> string list \<Rightarrow> bool" for g where
  gm_end: "glob_match g [] []"
| gm_one: "p \<noteq> ''**'' \<Longrightarrow> g k p \<Longrightarrow> glob_match g ks ps \<Longrightarrow> glob_match g (k # ks) (p # ps)"
| gm_last: "ks \<noteq> [] \<Longrightarrow> glob_match g ks [''**'']"
| gm_stars: "ps \<noteq> [] \<Longrightarrow> glob_match g ks ps \<Longrightarrow> glob_match g (xs @ ks) (''**'' # ps)"

inductive_cases glob_match_consE: "glob_match g ks (p # ps)"
inductive_simps glob_match_nil: "glob_match g ks []"

lemma glob_match_nonempty: "glob_match g ks ps \<Longrightarrow> ps \<noteq> [] \<Longrightarrow> ks \<noteq> []"
  by (induction rule: glob_match.induct) auto

lemma star_loop_iff: "star_loop g c key ps \<longleftrightarrow> \<not> c \<or> (\<exists>xs ks. key = xs @ ks \<and> ks \<noteq> [] \<and> Match g c ks ps)"
proof (induction key)
  case (Cons k key)
  have "(\<exists>xs ks. k # key = xs @ ks \<and> ks \<noteq> [] \<and> Match g c ks ps) \<longleftrightarrow>
      Match g c (k # key) ps \<or> (\<exists>xs ks. key = xs @ ks \<and> ks \<noteq> [] \<and> Match g c ks ps)"
    (is "?l \<longleftrightarrow> ?m \<or> ?r")
  proof
    assume ?l
    then obtain xs ks where "k # key = xs @ ks" "ks \<noteq> []" "Match g c ks ps" by blast
    then show "?m \<or> ?r" by (cases xs) auto
  next
    assume "?m \<or> ?r"
    then show ?l by (metis append_Cons append_Nil list.distinct(1))
  qed
  then show ?case using Cons by (simp del: Match.simps)
qed simp

lemma match_from_glob: "match_from g True key pattern \<longleftrightarrow> glob_match g key pattern"
proof (induction "length key + length pattern" arbitrary: key pattern rule: less_induct)
  case less
  show ?case
  proof (cases pattern)
    case Nil
    then show ?thesis by (cases key) (simp_all add: glob_match_nil)
  next
    case (Cons p ps)
    show ?thesis
    proof (cases key)
      case Nil
      then show ?thesis using Cons glob_match_nonempty [of g key pattern] by auto
    next
      case (Cons k ks)
      show ?thesis
      proof (cases "p = ''**''")
        case False
        have "match_from g True ks ps \<longleftrightarrow> glob_match g ks ps"
          using less [of ks ps] Cons \<open>pattern = p # ps\<close> by simp
        then show ?thesis using False Cons \<open>pattern = p # ps\<close>
          by (auto intro: gm_one elim: glob_match_consE)
      next
        case True
        show ?thesis
        proof (cases "ps = []")
          case True
          then show ?thesis using \<open>p = ''**''\<close> Cons \<open>pattern = p # ps\<close> by (auto intro: gm_last)
        next
          case False
          have ih: "Match g True zs ps \<longleftrightarrow> glob_match g zs ps" if "key = xs @ zs" for xs zs
            using less [of zs ps] that \<open>pattern = p # ps\<close> by simp
          have "match_from g True key pattern \<longleftrightarrow> (\<exists>xs zs. key = xs @ zs \<and> zs \<noteq> [] \<and> glob_match g zs ps)"
            using True False Cons \<open>pattern = p # ps\<close> ih by (auto simp: star_loop_iff simp del: Match.simps)
          also have "\<dots> \<longleftrightarrow> (\<exists>xs zs. key = xs @ zs \<and> glob_match g zs ps)"
            using glob_match_nonempty False by blast
          also have "\<dots> \<longleftrightarrow> glob_match g key pattern"
            using True False \<open>pattern = p # ps\<close> by (auto intro: gm_stars elim!: glob_match_consE)
          finally show ?thesis .
        qed
      qed
    qed
  qed
qed

lemma match_from_prefix: "glob_match g (q @ r) pattern \<Longrightarrow> match_from g False q pattern"
proof (induction q arbitrary: pattern)
  case Nil
  then show ?case by (cases pattern) (simp_all add: glob_match_nil)
next
  case (Cons k q)
  show ?case
  proof (cases pattern)
    case Nil
    then show ?thesis using Cons.prems by (simp add: glob_match_nil)
  next
    case (Cons p ps)
    show ?thesis
    proof (cases "p = ''**''")
      case True
      then show ?thesis using Cons by (simp add: star_loop_iff del: Match.simps star_loop.simps)
    next
      case False
      then have "g k p \<and> glob_match g (q @ r) ps"
        using Cons.prems Cons by (auto elim: glob_match_consE)
      then show ?thesis using False Cons Cons.IH by simp
    qed
  qed
qed

text \<open>
  C14: The matcher computes its specification on complete keys, and the pruning of the hierarchical
  listing is sound: a common prefix of a key that matches the pattern is never skipped.
\<close>

theorem match_is_glob:
  "(Match g True key pattern \<longleftrightarrow> glob_match g key pattern) \<and>
   (glob_match g key pattern \<longrightarrow> Match g False (take n key) pattern)"
proof -
  have "Match g False (take n key) pattern" if "glob_match g key pattern"
    using match_from_prefix [of g "take n key" "drop n key" pattern] that by simp
  then show ?thesis using match_from_glob by simp
qed

theorem match_is_glob_witness:
  "glob_match (\<lambda>k p. k = p) [''a'', ''b'', ''c''] [''a'', ''**'', ''c''] \<and>
   Match (\<lambda>k p. k = p) False [''a'', ''b''] [''a'', ''**'', ''c'']"
proof -
  have "Match (\<lambda>k p. k = p) True [''a'', ''b'', ''c''] [''a'', ''**'', ''c'']" by simp
  then show ?thesis
    using match_is_glob [of "\<lambda>k p. k = p" "[''a'', ''b'', ''c'']" "[''a'', ''**'', ''c'']" 2] by simp
qed
section \<open>Expanding a pattern\<close>

datatype glob_type = HIERARCHICAL | LISTING | UNKNOWN

text \<open>A listed file with the region it was found in.\<close>

type_synonym glob_file = "s3_entry \<times> string option"

record s3_glob =
  gl_pattern :: string
  gl_finished :: bool
  gl_auth :: s3_auth
  gl_shared_path :: string
  gl_url :: parsed_s3_url
  gl_main_token :: string
  gl_prefix :: string
  gl_prefix_token :: string
  gl_prefixes :: "string list"
  gl_type :: glob_type
  gl_files :: "glob_file list"

definition new_glob :: "string \<Rightarrow> s3_auth \<Rightarrow> s3_glob" where
  "new_glob pattern a =
     \<lparr>gl_pattern = pattern, gl_finished = False, gl_auth = a, gl_shared_path = '''',
      gl_url = \<lparr>u_http_proto = '''', u_prefix = '''', u_host = '''', u_bucket = '''', u_key = '''', u_path = '''',
         u_query_param = '''', u_trimmed = ''''\<rparr>,
      gl_main_token = '''', gl_prefix = '''', gl_prefix_token = '''', gl_prefixes = [], gl_type = UNKNOWN,
      gl_files = []\<rparr>"

abbreviation (input) only_pattern :: "s3_glob \<Rightarrow> s3_glob" where
  "only_pattern g \<equiv> g\<lparr>gl_finished := True,
     gl_files := [(\<lparr>se_path = gl_pattern g, se_last_modified = None, se_etag = None, se_size = None\<rparr>, None)]\<rparr>"

definition S3GlobResult :: "s3_env \<Rightarrow> opener option \<Rightarrow> string \<Rightarrow> world \<Rightarrow> exn + s3_glob" where
  "S3GlobResult e opn pattern w =
     (if opn = None then Inl (Exn ExInternal ''Cannot S3 Glob without FileOpener'' None)
      else
        (let a = ReadFromOpener (sv_su e) (sv_reader e (w_secrets w) pattern) pattern;
             g = new_glob pattern a
         in if s3_url_compatibility_mode a then Inr (only_pattern g)
            else
              (case S3UrlParse (sv_su e) pattern a of
                 Inl ex \<Rightarrow> Inl ex
               | Inr u \<Rightarrow>
                   (case find_first_of (u_trimmed u) [CHR ''*'', CHR ''['', CHR 0x5C] of
                      None \<Rightarrow> Inr (only_pattern (g\<lparr>gl_url := u\<rparr>))
                    | Some pos \<Rightarrow>
                        (case ReadQueryParams (sv_parse_get e) (u_query_param u) a of
                           Inl ex \<Rightarrow> Inl ex
                         | Inr a1 \<Rightarrow> Inr (g\<lparr>gl_url := u, gl_shared_path := take pos (u_trimmed u),
                                                gl_auth := a1\<rparr>))))))"

text \<open>A request of the glob: fresh HTTP parameters, the glob's authentication parameters.\<close>

definition glob_request :: "s3_env \<Rightarrow> opener option \<Rightarrow> string \<Rightarrow> string \<Rightarrow> bool \<Rightarrow> httpfs_params \<Rightarrow>
    s3_glob \<Rightarrow> world \<Rightarrow> (exn + bytes) \<times> httpfs_params \<times> s3_glob \<times> world" where
  "glob_request e opn path token delim p g w =
     (case ListRequest e opn path token delim None (gl_auth g, p, w) of
        (res, a, p1, w1) \<Rightarrow> (res, p1, g\<lparr>gl_auth := a\<rparr>, w1))"

definition pattern_splits :: "s3_env \<Rightarrow> s3_glob \<Rightarrow> string list" where
  "pattern_splits e g = su_split (sv_su e) (u_key (gl_url g)) ''/''"

text \<open>One page below the current common prefix.\<close>

definition expand_prefix :: "s3_env \<Rightarrow> opener option \<Rightarrow> httpfs_params \<Rightarrow> s3_glob \<Rightarrow> world \<Rightarrow>
    (exn + s3_entry list) \<times> s3_glob \<times> world" where
  "expand_prefix e opn p g w =
     (let su = sv_su e;
          prefix_path = u_prefix (gl_url g) @ u_bucket (gl_url g) @ ''/'' @ gl_prefix g;
          g1 = g\<lparr>gl_prefix := UrlDecode su (gl_prefix g)\<rparr>;
          next_prefix = (\<lambda>(res, g, w).
            (res, if gl_prefix_token g \<noteq> '''' then g
                  else if gl_prefixes g = [] then g\<lparr>gl_prefix := ''''\<rparr>
                  else g\<lparr>gl_prefix := last (gl_prefixes g), gl_prefixes := butlast (gl_prefixes g)\<rparr>, w))
      in if \<not> Match (su_glob su) False (su_split su (gl_prefix g1) ''/'') (pattern_splits e g)
         then next_prefix (Inr [], g1, w)
         else
           (case glob_request e opn (UrlDecode su prefix_path) (gl_prefix_token g1) True p g1 w of
              (Inl ex, _, g2, w1) \<Rightarrow> (Inl ex, g2, w1)
            | (Inr prefix_res, _, g2, w1) \<Rightarrow>
                (case ParseFileList su prefix_res of
                   Inl ex \<Rightarrow> (Inl ex, g2, w1)
                 | Inr keys \<Rightarrow>
                     (case ParseCommonPrefix prefix_res of
                        Inl ex \<Rightarrow> (Inl ex, g2, w1)
                      | Inr more_prefixes \<Rightarrow>
                          (let g3 = g2\<lparr>gl_prefixes := gl_prefixes g2 @ more_prefixes\<rparr>
                           in case ParseContinuationToken prefix_res of
                                Inl ex \<Rightarrow> (Inl ex, g3, w1)
                              | Inr token \<Rightarrow> next_prefix (Inr keys, g3\<lparr>gl_prefix_token := token\<rparr>, w1))))))"

text \<open>The folders of the listed files.\<close>

definition folders :: "string_util \<Rightarrow> s3_entry list \<Rightarrow> string set" where
  "folders su keys = (\<lambda>k. concat (map (\<lambda>y. y @ ''/'') (butlast (su_split su (se_path k) ''/'')))) ` set keys"

text \<open>The answer of a top-level request becomes the files and the common prefixes of the page.\<close>

definition take_page :: "string_util \<Rightarrow> bytes \<Rightarrow> string \<Rightarrow> s3_glob \<Rightarrow> (exn + s3_entry list) \<times> s3_glob" where
  "take_page su response_str next_token g =
     (let g1 = g\<lparr>gl_main_token := next_token\<rparr>
      in case ParseFileList su response_str of
           Inl ex \<Rightarrow> (Inl ex, g1)
         | Inr keys \<Rightarrow>
             (case ParseCommonPrefix response_str of
                Inl ex \<Rightarrow> (Inl ex, g1)
              | Inr ps \<Rightarrow>
                  (Inr keys, if ps = [] then g1\<lparr>gl_prefixes := []\<rparr>
                             else g1\<lparr>gl_prefix := last ps, gl_prefixes := butlast ps\<rparr>)))"

text \<open>One page of the main listing.\<close>

definition expand_main :: "s3_env \<Rightarrow> opener option \<Rightarrow> httpfs_params \<Rightarrow> s3_glob \<Rightarrow> world \<Rightarrow>
    (exn + s3_entry list) \<times> s3_glob \<times> world" where
  "expand_main e opn p g w =
     (let su = sv_su e
      in if gl_prefixes g \<noteq> []
         then (Inl (Exn ExInternal ''We have common prefixes but we are doing a top-level request'' None), g, w)
         else
           (let allow = (case opn of None \<Rightarrow> True
                   | Some op \<Rightarrow> (case op_bool op ''s3_allow_recursive_globbing'' of None \<Rightarrow> True | Some b \<Rightarrow> b));
                investigate = str_find (u_key (gl_url g)) ''**'' 0 = None \<and> allow \<and> gl_type g = UNKNOWN;
                delim = (gl_type g = HIERARCHICAL)
            in case glob_request e opn (gl_shared_path g) (gl_main_token g) delim p g w of
                 (Inl ex, _, g1, w1) \<Rightarrow> (Inl ex, g1, w1)
               | (Inr response_str, p1, g1, w1) \<Rightarrow>
                   (case ParseContinuationToken response_str of
                      Inl ex \<Rightarrow> (Inl ex, g1, w1)
                    | Inr token \<Rightarrow>
                        (if \<not> (investigate \<and> token \<noteq> '''')
                         then (case take_page su response_str token g1 of (r, g2) \<Rightarrow> (r, g2, w1))
                         else
                           (case ParseFileList su response_str of
                              Inl ex \<Rightarrow> (Inl ex, g1, w1)
                            | Inr keys \<Rightarrow>
                                (if card (folders su keys) * 100 < length keys
                                 then (case glob_request e opn (gl_shared_path g1) (gl_main_token g1) True p1 g1 w1 of
                                         (Inl ex, _, g2, w2) \<Rightarrow> (Inl ex, g2, w2)
                                       | (Inr response2, _, g2, w2) \<Rightarrow>
                                           (case ParseContinuationToken response2 of
                                              Inl ex \<Rightarrow> (Inl ex, g2, w2)
                                            | Inr token2 \<Rightarrow>
                                                (case take_page su response2 token2 (g2\<lparr>gl_type := HIERARCHICAL\<rparr>) of
                                                   (r, g3) \<Rightarrow> (r, g3, w2))))
                                 else (case take_page su response_str token (g1\<lparr>gl_type := LISTING\<rparr>) of
                                         (r, g2) \<Rightarrow> (r, g2, w1))))))))"

text \<open>The files of a page that match, with their full URL and region.\<close>

definition glob_file :: "s3_glob \<Rightarrow> s3_entry \<Rightarrow> glob_file" where
  "glob_file g k =
     (k\<lparr>se_path := u_prefix (gl_url g) @ u_bucket (gl_url g) @ ''/'' @ se_path k @
         (if u_query_param (gl_url g) \<noteq> '''' then CHR ''?'' # u_query_param (gl_url g) else '''')\<rparr>,
      if region (gl_auth g) \<noteq> '''' then Some (region (gl_auth g)) else None)"

definition key_matches :: "s3_env \<Rightarrow> s3_glob \<Rightarrow> s3_entry \<Rightarrow> bool" where
  "key_matches e g k = Match (su_glob (sv_su e)) True (su_split (sv_su e) (se_path k) ''/'') (pattern_splits e g)"

definition ExpandNextPath :: "s3_env \<Rightarrow> opener option \<Rightarrow> s3_glob \<Rightarrow> world \<Rightarrow> (exn + bool) \<times> s3_glob \<times> world" where
  "ExpandNextPath e opn g w =
     (if gl_finished g then (Inr False, g, w)
      else
        (let p = sv_params e (w_secrets w) (gl_pattern g)
         in case (if gl_prefix g \<noteq> '''' then expand_prefix e opn p g w else expand_main e opn p g w) of
              (Inl ex, g1, w1) \<Rightarrow> (Inl ex, g1, w1)
            | (Inr s3_keys, g1, w1) \<Rightarrow>
                (let g2 = (if gl_main_token g1 = '''' \<and> gl_prefix g1 = '''' then g1\<lparr>gl_finished := True\<rparr> else g1)
                 in (Inr True, g2\<lparr>gl_files := gl_files g2 @ map (glob_file g2) (filter (key_matches e g2) s3_keys)\<rparr>,
                     w1))))"

section \<open>A paged listing\<close>

text \<open>The caller's loop over ExpandNextPath, with a bound on its turns.\<close>

fun expand_all :: "s3_env \<Rightarrow> opener option \<Rightarrow> nat \<Rightarrow> s3_glob \<Rightarrow> world \<Rightarrow> (exn + s3_glob) option" where
  "expand_all e opn 0 g w = None"
| "expand_all e opn (Suc n) g w =
     (case ExpandNextPath e opn g w of
        (Inl ex, _, _) \<Rightarrow> Some (Inl ex)
      | (Inr False, g1, _) \<Rightarrow> Some (Inr g1)
      | (Inr True, g1, w1) \<Rightarrow> expand_all e opn n g1 w1)"

definition recursive_allowed :: "opener option \<Rightarrow> bool" where
  "recursive_allowed opn = (case opn of None \<Rightarrow> True
     | Some op \<Rightarrow> (case op_bool op ''s3_allow_recursive_globbing'' of None \<Rightarrow> True | Some b \<Rightarrow> b))"

definition investigates :: "opener option \<Rightarrow> s3_glob \<Rightarrow> bool" where
  "investigates opn g \<longleftrightarrow> str_find (u_key (gl_url g)) ''**'' 0 = None \<and> recursive_allowed opn \<and> gl_type g = UNKNOWN"

text \<open>
  A page of the flat listing: the service answers the request for its token with a body that lists
  the keys, no common prefixes, and the next token.
\<close>

record page =
  pg_token :: string
  pg_body :: bytes
  pg_keys :: "s3_entry list"
  pg_next :: string

definition serves_page :: "s3_env \<Rightarrow> opener option \<Rightarrow> s3_glob \<Rightarrow> page \<Rightarrow> bool" where
  "serves_page e opn g pg \<longleftrightarrow>
     (\<forall>p w. \<exists>p1 w1. ListRequest e opn (gl_shared_path g) (pg_token pg) False None (gl_auth g, p, w)
        = (Inr (pg_body pg), gl_auth g, p1, w1)) \<and>
     ParseFileList (sv_su e) (pg_body pg) = Inr (pg_keys pg) \<and> ParseCommonPrefix (pg_body pg) = Inr [] \<and>
     ParseContinuationToken (pg_body pg) = Inr (pg_next pg)"

text \<open>A chain of pages from a token to the last page, which has no next token.\<close>

fun pages_from :: "string \<Rightarrow> page list \<Rightarrow> bool" where
  "pages_from t [] \<longleftrightarrow> False"
| "pages_from t [pg] \<longleftrightarrow> pg_token pg = t \<and> pg_next pg = ''''"
| "pages_from t (pg # pgs) \<longleftrightarrow> pg_token pg = t \<and> pg_next pg \<noteq> '''' \<and> pages_from (pg_next pg) pgs"

definition same_target :: "s3_glob \<Rightarrow> s3_glob \<Rightarrow> bool" where
  "same_target g g1 \<longleftrightarrow> gl_url g1 = gl_url g \<and> gl_auth g1 = gl_auth g \<and> gl_shared_path g1 = gl_shared_path g"

definition between_pages :: "s3_glob \<Rightarrow> bool" where
  "between_pages g \<longleftrightarrow> gl_prefix g = '''' \<and> gl_prefixes g = [] \<and> gl_type g \<noteq> HIERARCHICAL"

lemma same_target_facts:
  assumes "same_target g g1"
  shows "glob_file g1 = glob_file g" "key_matches e g1 = key_matches e g" "serves_page e opn g1 = serves_page e opn g"
  using assms by (auto simp: same_target_def glob_file_def key_matches_def pattern_splits_def serves_page_def fun_eq_iff)

lemma expand_page:
  assumes "serves_page e opn g pg" and "gl_main_token g = pg_token pg" and "\<not> gl_finished g" and "between_pages g"
    and "investigates opn g \<Longrightarrow> \<not> card (folders (sv_su e) (pg_keys pg)) * 100 < length (pg_keys pg)"
  shows "\<exists>g1 w1. ExpandNextPath e opn g w = (Inr True, g1, w1) \<and> same_target g g1 \<and> between_pages g1 \<and>
     gl_files g1 = gl_files g @ map (glob_file g) (filter (key_matches e g) (pg_keys pg)) \<and>
     gl_main_token g1 = pg_next pg \<and> gl_finished g1 = (pg_next pg = '''') \<and>
     (pg_next pg \<noteq> '''' \<longrightarrow> \<not> investigates opn g1)"
proof -
  let ?p = "sv_params e (w_secrets w) (gl_pattern g)" and ?su = "sv_su e"
  obtain p1 w1 where rq: "ListRequest e opn (gl_shared_path g) (pg_token pg) False None (gl_auth g, ?p, w)
      = (Inr (pg_body pg), gl_auth g, p1, w1)"
    and pf: "ParseFileList ?su (pg_body pg) = Inr (pg_keys pg)" and pc: "ParseCommonPrefix (pg_body pg) = Inr []"
    and pt: "ParseContinuationToken (pg_body pg) = Inr (pg_next pg)"
    using assms(1) unfolding serves_page_def by blast
  have B: "gl_prefix g = ''''" "gl_prefixes g = []" "gl_type g \<noteq> HIERARCHICAL" using assms(4) by (simp_all add: between_pages_def)
  have gr: "glob_request e opn (gl_shared_path g) (gl_main_token g) (gl_type g = HIERARCHICAL) ?p g w
      = (Inr (pg_body pg), p1, g, w1)"
    using rq B(3) assms(2) by (simp add: glob_request_def)
  have ra: "(case opn of None \<Rightarrow> True | Some op \<Rightarrow> (case op_bool op ''s3_allow_recursive_globbing'' of None \<Rightarrow> True | Some b \<Rightarrow> b))
      = recursive_allowed opn"
    by (simp add: recursive_allowed_def)
  define g1 where "g1 = (if investigates opn g \<and> pg_next pg \<noteq> '''' then g\<lparr>gl_type := LISTING\<rparr> else g)\<lparr>gl_main_token := pg_next pg, gl_prefixes := []\<rparr>"
  have em: "expand_main e opn ?p g w = (Inr (pg_keys pg), g1, w1)"
    unfolding expand_main_def Let_def gr prod.case sum.case pt ra investigates_def [symmetric] pf
    using B(2) assms(5) by (simp add: take_page_def Let_def pf pc g1_def)
  have st: "same_target g g1" "same_target g (g1\<lparr>gl_finished := True\<rparr>)" by (simp_all add: same_target_def g1_def)
  have px: "gl_prefix g1 = ''''" "gl_main_token g1 = pg_next pg" using B(1) by (simp_all add: g1_def)
  define g2 where "g2 = (if pg_next pg = '''' then g1\<lparr>gl_finished := True\<rparr> else g1)"
  have st2: "same_target g g2" using st by (simp add: g2_def)
  have run: "ExpandNextPath e opn g w = (Inr True,
      g2\<lparr>gl_files := gl_files g2 @ map (glob_file g2) (filter (key_matches e g2) (pg_keys pg))\<rparr>, w1)"
    unfolding ExpandNextPath_def Let_def using assms(3) B(1) em px by (simp add: g2_def)
  have f: "gl_files g2 = gl_files g" "gl_main_token g2 = pg_next pg" "gl_finished g2 = (pg_next pg = '''')"
    "gl_prefix g2 = ''''" "gl_prefixes g2 = []" "gl_type g2 \<noteq> HIERARCHICAL"
    "pg_next pg \<noteq> '''' \<Longrightarrow> \<not> investigates opn g2"
    using B assms(3) by (auto simp: g2_def g1_def investigates_def)
  show ?thesis unfolding run same_target_facts(1) [OF st2] same_target_facts(2) [OF st2] f(1)
    using st2 f by (simp add: same_target_def between_pages_def investigates_def)
qed

lemma expand_pages:
  assumes "pages_from (gl_main_token g) pgs" and "\<forall>pg \<in> set pgs. serves_page e opn g pg"
    and "\<not> gl_finished g" and "between_pages g"
    and "investigates opn g \<Longrightarrow> \<not> card (folders (sv_su e) (pg_keys (hd pgs))) * 100 < length (pg_keys (hd pgs))"
  shows "\<exists>g1. expand_all e opn (Suc (length pgs)) g w = Some (Inr g1) \<and> gl_finished g1 \<and>
     gl_files g1 = gl_files g @ map (glob_file g) (filter (key_matches e g) (concat (map pg_keys pgs)))"
  using assms
proof (induction pgs arbitrary: g w)
  case (Cons pg pgs)
  have tok: "gl_main_token g = pg_token pg" using Cons.prems(1) by (cases pgs) simp_all
  have "serves_page e opn g pg" using Cons.prems(2) by simp
  from expand_page [OF this tok Cons.prems(3,4), of w] Cons.prems(5) obtain g1 w1 where
    run: "ExpandNextPath e opn g w = (Inr True, g1, w1)" and st: "same_target g g1" and b: "between_pages g1"
    and files: "gl_files g1 = gl_files g @ map (glob_file g) (filter (key_matches e g) (pg_keys pg))"
    and next_tok: "gl_main_token g1 = pg_next pg" "gl_finished g1 = (pg_next pg = '''')"
      "pg_next pg \<noteq> '''' \<Longrightarrow> \<not> investigates opn g1" by auto
  show ?case
  proof (cases pgs)
    case Nil
    then have "gl_finished g1" using Cons.prems(1) next_tok(2) by simp
    then have "ExpandNextPath e opn g1 w1 = (Inr False, g1, w1)" by (simp add: ExpandNextPath_def)
    then show ?thesis using run files Nil \<open>gl_finished g1\<close> by simp
  next
    case (Cons pg2 pgs2)
    then have ch: "pg_next pg \<noteq> ''''" "pages_from (gl_main_token g1) pgs"
      using Cons.prems(1) next_tok(1) by simp_all
    have "\<exists>g2. expand_all e opn (Suc (length pgs)) g1 w1 = Some (Inr g2) \<and> gl_finished g2 \<and>
        gl_files g2 = gl_files g1 @ map (glob_file g1) (filter (key_matches e g1) (concat (map pg_keys pgs)))"
      using Cons.IH [OF ch(2) _ _ b] Cons.prems(2) next_tok ch(1) same_target_facts(3) [OF st] by simp
    then show ?thesis using run files same_target_facts(1,2) [OF st] by simp
  qed
qed simp

text \<open>
  C13: A glob over a flat listing is exact: given the service's pages for the pattern's constant
  prefix, chained by their tokens, expanding the pattern ends after the last page with the keys
  of all pages that match the pattern's specification, in the order of the listing and
  as full URLs. This holds whenever the code does not turn to the hierarchical listing.
\<close>

theorem flat_glob_is_exact:
  assumes "pages_from '''' pgs" and "\<forall>pg \<in> set pgs. serves_page e opn g pg"
    and "gl_main_token g = ''''" and "gl_files g = []" and "\<not> gl_finished g" and "between_pages g"
    and "investigates opn g \<Longrightarrow> \<not> card (folders (sv_su e) (pg_keys (hd pgs))) * 100 < length (pg_keys (hd pgs))"
  shows "\<exists>g1. expand_all e opn (Suc (length pgs)) g w = Some (Inr g1) \<and> gl_finished g1 \<and>
     gl_files g1 = map (glob_file g)
       (filter (\<lambda>k. glob_match (su_glob (sv_su e)) (su_split (sv_su e) (se_path k) ''/'') (pattern_splits e g))
         (concat (map pg_keys pgs)))"
proof -
  have "key_matches e g = (\<lambda>k. glob_match (su_glob (sv_su e)) (su_split (sv_su e) (se_path k) ''/'') (pattern_splits e g))"
    by (simp add: fun_eq_iff key_matches_def match_from_glob)
  moreover have "pages_from (gl_main_token g) pgs" using assms(1,3) by simp
  ultimately show ?thesis using expand_pages [OF _ assms(2,5,6,7), of w] assms(4) by auto
qed

text \<open>Two pages of a bucket, told apart by the token in the URL.\<close>

definition two_pages :: "page list" where
  "two_pages =
     [\<lparr>pg_token = '''', pg_body = ''<Contents><Key>k1</Key></Contents><NextContinuationToken>t</NextContinuationToken>'',
       pg_keys = [\<lparr>se_path = ''k1'', se_last_modified = None, se_etag = None, se_size = None\<rparr>], pg_next = ''t''\<rparr>,
      \<lparr>pg_token = ''t'', pg_body = ''<Contents><Key>k/y</Key></Contents><Contents><Key>k2</Key></Contents>'',
       pg_keys = [\<lparr>se_path = ''k/y'', se_last_modified = None, se_etag = None, se_size = None\<rparr>,
                  \<lparr>se_path = ''k2'', se_last_modified = None, se_etag = None, se_size = None\<rparr>], pg_next = ''''\<rparr>]"

definition paged_env :: s3_env where
  "paged_env = demo_s3 ((demo_env [] [])\<lparr>e_net := \<lambda>k rq cl. \<lparr>attempts = [Attempt [] (Inr (Some
     ((demo_response 200 Map.empty)\<lparr>body := pg_body (two_pages !
        (if str_find (rq_url rq) ''continuation-token'' 0 = None then 0 else 1))\<rparr>)))], client_after = cl\<rparr>\<rparr>)"

lemma paged_urls:
  "str_find (list_url ref_su ''https://b.s3.eu.amazonaws.com''
     (CHR ''/'' # CHR ''?'' # encode_params (list_params ref_su '''' False None ''k''))) ''continuation-token'' 0 = None"
  "str_find (list_url ref_su ''https://b.s3.eu.amazonaws.com''
     (CHR ''/'' # CHR ''?'' # encode_params (list_params ref_su ''t'' False None ''k''))) ''continuation-token'' 0 \<noteq> None"
  by code_simp+

lemma paged_listed:
  assumes "pg \<in> set two_pages"
  shows "ListRequest paged_env opn ''s3://b/k'' (pg_token pg) False None (demo_auth 0, p, w) =
     (Inr (pg_body pg), demo_auth 0, p, tick w)"
proof -
  have su: "sv_su paged_env = ref_su" by (simp add: paged_env_def demo_s3_def)
  show ?thesis using assms
    by (auto simp: ListRequest_def numeral_3_eq_3 list_turn_def Let_def su demo_parse paged_env_def demo_s3_def
        plain_outcome_def has_request_error_def IsAuthRefreshFailure_def list_answer_def demo_response_def
        base_request_def paged_urls two_pages_def)
qed

definition yields :: "'e + 'v \<Rightarrow> 'v \<Rightarrow> bool" where
  "yields r v \<longleftrightarrow> (case r of Inl _ \<Rightarrow> False | Inr v' \<Rightarrow> v' = v)"

lemma yields_iff: "yields r v \<longleftrightarrow> r = Inr v"
  by (simp add: yields_def split: sum.split)

lemma paged_parses:
  "list_all (\<lambda>pg. yields (ParseFileList ref_su (pg_body pg)) (pg_keys pg) \<and> yields (ParseCommonPrefix (pg_body pg)) [] \<and>
     yields (ParseContinuationToken (pg_body pg)) (pg_next pg)) two_pages"
  by code_simp

definition demo_glob :: s3_glob where
  "demo_glob = (new_glob ''s3://b/k*'' (demo_auth 0))\<lparr>gl_shared_path := ''s3://b/k'',
     gl_url := (gl_url (new_glob [] (demo_auth 0)))\<lparr>u_prefix := ''s3://'', u_bucket := ''b'', u_key := ''k*''\<rparr>\<rparr>"

theorem flat_glob_is_exact_witness:
  "\<exists>g1. expand_all paged_env None 3 demo_glob demo_world = Some (Inr g1) \<and>
     map (se_path \<circ> fst) (gl_files g1) = [''s3://b/k1'', ''s3://b/k2'']"
proof -
  have g: "gl_main_token demo_glob = ''''" "gl_files demo_glob = []" "\<not> gl_finished demo_glob" "between_pages demo_glob"
    "gl_shared_path demo_glob = ''s3://b/k''" "gl_auth demo_glob = demo_auth 0"
    by (simp_all add: demo_glob_def new_glob_def between_pages_def)
  have su: "sv_su paged_env = ref_su" by (simp add: paged_env_def demo_s3_def)
  have pages: "\<forall>pg \<in> set two_pages. serves_page paged_env None demo_glob pg"
    using paged_parses paged_listed [of _ None] unfolding serves_page_def g(5,6) su list_all_iff yields_iff by blast
  have "pages_from '''' two_pages" by (simp add: two_pages_def)
  moreover have "\<not> card (folders (sv_su paged_env) (pg_keys (hd two_pages))) * 100 < length (pg_keys (hd two_pages))"
    by (simp add: two_pages_def folders_def)
  ultimately obtain g1 where g1: "expand_all paged_env None 3 demo_glob demo_world = Some (Inr g1)"
    "gl_files g1 = map (glob_file demo_glob) (filter (\<lambda>k. glob_match (su_glob (sv_su paged_env))
       (su_split (sv_su paged_env) (se_path k) ''/'') (pattern_splits paged_env demo_glob)) (concat (map pg_keys two_pages)))"
    using flat_glob_is_exact [OF _ pages g(1-4), of demo_world] by (auto simp: two_pages_def numeral_3_eq_3)
  have "filter (\<lambda>k. Match (su_glob ref_su) True (su_split ref_su (se_path k) ''/'') (su_split ref_su ''k*'' ''/''))
      (concat (map pg_keys two_pages)) = [hd (pg_keys (two_pages ! 0)), last (pg_keys (two_pages ! 1))]"
    by code_simp
  with g1 show ?thesis
    by (simp add: su match_from_glob [symmetric] pattern_splits_def demo_glob_def glob_file_def two_pages_def new_glob_def)
qed

text \<open>
  While a common prefix has further pages, the state keeps it decoded, and the next page decodes it
  again: for a folder whose name contains an escape sequence that is another folder.
\<close>

lemma continued_prefix_decoded_twice:
  assumes "expand_prefix e opn p g w = (Inr keys, g1, w1)" and "gl_prefix_token g1 \<noteq> ''''"
  shows "gl_prefix g1 = UrlDecode (sv_su e) (gl_prefix g)"
  using assms
  by (auto simp: expand_prefix_def glob_request_def Let_def split: if_splits prod.splits sum.splits)

end
