(* ===== verification/S3Delete.thy ===== *)
theory S3Delete
  imports S3Glob S3Input "HOL-Library.Multiset" "HOL-Library.Char_ord" "HOL-Library.List_Lexorder" "HOL-Library.Product_Lexorder"
begin

text \<open>
  Removing S3 files in batches (src/s3fs.cpp: S3DeleteBatchKeyBuilder, CreateDeleteBatchKey, RemoveFiles,
  RemoveDirectory, ListFilesExtended): which files share a request, and what its body asks for.
\<close>

section \<open>The key of a batch\<close>

record delete_url =
  du_prefix :: string
  du_http_proto :: string
  du_host :: string
  du_path :: string
  du_auth :: s3_auth

record delete_batch =
  db_url :: delete_url
  db_keys :: "string list"
  db_paths :: "string list"

text \<open>AddString, AddBool and AddIndex; Build joins the parts.\<close>

definition key_part :: "string \<Rightarrow> string" where
  "key_part value = to_string (length value) @ '':'' @ value @ '';''"

definition bool_part :: "bool \<Rightarrow> string" where
  "bool_part b = (if b then ''1'' else ''0'')"

definition build_key :: "string list \<Rightarrow> string" where
  "build_key ps = concat (map key_part ps)"

definition url_key_parts :: "delete_url \<Rightarrow> string list" where
  "url_key_parts u = [du_prefix u, du_http_proto u, du_host u, du_path u]"

definition auth_key_parts :: "s3_auth \<Rightarrow> string list" where
  "auth_key_parts a =
     [region a, access_key_id a, secret_access_key a, session_token a, endpoint a, kms_key_id a, url_style a,
      bool_part (use_ssl a), bool_part (s3_url_compatibility_mode a), bool_part (requester_pays a),
      oauth2_bearer_token a]"

definition http_key_parts :: "s3_refreshable \<Rightarrow> string list" where
  "http_key_parts r =
     [rf_http_proxy r, to_string (rf_http_proxy_port r), rf_http_proxy_username r, rf_http_proxy_password r,
      bool_part (rf_override_verify_ssl r), bool_part (rf_verify_ssl r), rf_bearer_token r] @
     concat (map (\<lambda>(k, v). [k, v]) (sort (rf_extra_headers r)))"

definition secret_key_parts :: "secret_entry \<Rightarrow> string list" where
  "secret_key_parts entry =
     (let s = se_secret entry
      in [sec_type s, sec_provider s, sec_name s, se_storage entry, to_string (se_persist entry),
          to_string (length (sec_scope s))] @ sec_scope s)"

text \<open>The secrets the path selects, with the score of each match.\<close>

definition selected_secret_parts :: "s3_env \<Rightarrow> (string \<Rightarrow> string \<Rightarrow> nat) \<Rightarrow> opener option \<Rightarrow> nat \<Rightarrow> string \<Rightarrow>
    string list" where
  "selected_secret_parts e score opn m path =
     (case opn of
        None \<Rightarrow> ['''']
      | Some op \<Rightarrow>
          (if op_database op = None then ['''']
           else concat (map (\<lambda>ty. ty # (case sv_lookup e m path ty of
                   None \<Rightarrow> ['''']
                 | Some entry \<Rightarrow> to_string (score path ty) # secret_key_parts entry)) secret_types)))"

definition GetDeleteBatchLookupDirectory :: "string \<Rightarrow> string" where
  "GetDeleteBatchLookupDirectory path =
     (case rfind_char path (CHR ''/'') of None \<Rightarrow> path | Some slash_pos \<Rightarrow> take (slash_pos + 1) path)"

definition HasRefreshableS3Secret :: "s3_env \<Rightarrow> opener option \<Rightarrow> nat \<Rightarrow> string \<Rightarrow> bool" where
  "HasRefreshableS3Secret e opn m path \<longleftrightarrow>
     opn \<noteq> None \<and> (case sv_reader e m path of None \<Rightarrow> False | Some sr \<Rightarrow> sr_secret sr ''refresh_info'' \<noteq> None)"

definition refresh_key_part :: "s3_env \<Rightarrow> opener option \<Rightarrow> nat \<Rightarrow> string \<Rightarrow> string" where
  "refresh_key_part e opn m path =
     (if IsS3CredentialRefreshEnabled opn \<and> HasRefreshableS3Secret e opn m path
      then GetDeleteBatchLookupDirectory path else '''')"

definition CreateDeleteBatchKey :: "s3_env \<Rightarrow> (string \<Rightarrow> string \<Rightarrow> nat) \<Rightarrow> opener option \<Rightarrow> nat \<Rightarrow>
    delete_url \<Rightarrow> s3_refreshable \<Rightarrow> string \<Rightarrow> string" where
  "CreateDeleteBatchKey e score opn m u r path =
     build_key (url_key_parts u @ auth_key_parts (du_auth u) @ http_key_parts r @
       selected_secret_parts e score opn m path @ [refresh_key_part e opn m path])"

section \<open>Collecting the batches\<close>

definition delete_target :: "s3_env \<Rightarrow> nat \<Rightarrow> string \<Rightarrow> exn + delete_url \<times> string" where
  "delete_target e m path =
     (let a = ReadFromOpener (sv_su e) (sv_reader e m path) path
      in case S3UrlParse (sv_su e) path a of
           Inl ex \<Rightarrow> Inl ex
         | Inr u \<Rightarrow>
             (case ReadQueryParams (sv_parse_get e) (u_query_param u) a of
                Inl ex \<Rightarrow> Inl ex
              | Inr a1 \<Rightarrow> Inr (\<lparr>du_prefix = u_prefix u, du_http_proto = u_http_proto u, du_host = u_host u,
                                du_path = GetS3BucketPath u, du_auth = a1\<rparr>, u_key u)))"

text \<open>The unordered_map of batches, listed in the order of insertion.\<close>

fun add_to_batch :: "string \<Rightarrow> delete_url \<Rightarrow> string \<Rightarrow> string \<Rightarrow> (string \<times> delete_batch) list \<Rightarrow>
    (string \<times> delete_batch) list" where
  "add_to_batch bk u key path [] = [(bk, \<lparr>db_url = u, db_keys = [key], db_paths = [path]\<rparr>)]"
| "add_to_batch bk u key path ((bk1, b) # bs) =
     (if bk1 = bk then (bk1, b\<lparr>db_keys := db_keys b @ [key], db_paths := db_paths b @ [path]\<rparr>) # bs
      else (bk1, b) # add_to_batch bk u key path bs)"

fun collect_batches :: "s3_env \<Rightarrow> (string \<Rightarrow> string \<Rightarrow> nat) \<Rightarrow> opener option \<Rightarrow> nat \<Rightarrow> string list \<Rightarrow>
    (string \<times> delete_batch) list \<Rightarrow> exn + (string \<times> delete_batch) list" where
  "collect_batches e score opn m [] bs = Inr bs"
| "collect_batches e score opn m (path # paths) bs =
     (case delete_target e m path of
        Inl ex \<Rightarrow> Inl ex
      | Inr (u, key) \<Rightarrow>
          (let batch_key = CreateDeleteBatchKey e score opn m u (ReadRefreshableHTTPParams e m path) path
           in collect_batches e score opn m paths (add_to_batch batch_key u key path bs)))"

section \<open>The requests\<close>

definition delete_body :: "string list \<Rightarrow> string" where
  "delete_body keys =
     ''<?xml version='' @ QUOTE @ ''1.0'' @ QUOTE @ '' encoding='' @ QUOTE @ ''UTF-8'' @ QUOTE @ ''?>'' @
     ''<Delete xmlns='' @ QUOTE @ ''http://s3.amazonaws.com/doc/2006-03-01/'' @ QUOTE @ ''>'' @
     concat (map (\<lambda>k. ''<Object><Key>'' @ k @ ''</Key></Object>'') keys) @
     ''<Quiet>true</Quiet>'' @ ''</Delete>''"

text \<open>
  One attempt of the request for a body; md5 is the Base64 text of its MD5 hash. The state is the
  batch's authentication parameters and the world.
\<close>

datatype delete_turn = DeleteAgain "s3_auth \<times> world"
  | DeleteDone "exn + response option" bytes "s3_auth \<times> world"

definition delete_turn :: "s3_env \<Rightarrow> post_transport \<Rightarrow> (bytes \<Rightarrow> string) \<Rightarrow> opener option \<Rightarrow> string \<Rightarrow> bytes \<Rightarrow>
    bool \<Rightarrow> s3_auth \<times> world \<Rightarrow> delete_turn" where
  "delete_turn e post_net md5 opn lookup_url req_body retried s =
     (let (a, w) = s; su = sv_su e; p = sv_params e (w_secrets w) lookup_url
      in case S3UrlParse su lookup_url a of
           Inl ex \<Rightarrow> DeleteDone (Inl ex) '''' s
         | Inr u \<Rightarrow>
             (let path = GetS3BucketPath u;
                  hm = CreateS3Header su (sv_crypto e) (sv_now e (w_clock w)) path ''delete='' (u_host u) ''s3'' ''POST''
                         a '''' '''' (GetPayloadHash (sv_crypto e) req_body) ''application/xml'' (md5 req_body);
                  http_url = u_http_proto u @ u_host u @ UrlEncode su path False @ ''?'' @ ''delete'';
                  (res, result, p1) = PostRequest (post_net (w_clock w)) http_url hm req_body p;
                  s1 = (a, tick w)
              in case res of
                   Inl ex \<Rightarrow> DeleteDone (Inl ex) result s1
                 | Inr None \<Rightarrow> DeleteDone (Inr None) result s1
                 | Inr (Some r0) \<Rightarrow>
                     (let r = r0\<lparr>body := result\<rparr>
                      in if \<not> retried \<and> IsAuthRefreshFailure r
                         then (case TryRefreshS3AuthParams e opn lookup_url a (SnapshotRefreshableHTTPParams p) False
                                      (a, p1, tick w) of
                                 (Inl ex, a2, _, w2) \<Rightarrow> DeleteDone (Inl ex) result (a2, w2)
                               | (Inr True, a2, _, w2) \<Rightarrow> DeleteAgain (a2, w2)
                               | (Inr False, a2, _, w2) \<Rightarrow> DeleteDone (Inr (Some r)) result (a2, w2))
                         else DeleteDone (Inr (Some r)) result s1)))"

text \<open>The loop around it makes at most two turns; then the answer is checked.\<close>

definition delete_chunk :: "s3_env \<Rightarrow> post_transport \<Rightarrow> (bytes \<Rightarrow> string) \<Rightarrow> opener option \<Rightarrow> string \<Rightarrow> bytes \<Rightarrow>
    s3_auth \<times> world \<Rightarrow> exn option \<times> s3_auth \<times> world" where
  "delete_chunk e post_net md5 opn lookup_url req_body s =
     (let turn = delete_turn e post_net md5 opn lookup_url req_body
      in case (case turn False s of DeleteAgain s1 \<Rightarrow> turn True s1 | t \<Rightarrow> t) of
           DeleteAgain s1 \<Rightarrow> (Some (Exn Diverges '''' None), s1)
         | DeleteDone (Inl ex) _ s1 \<Rightarrow> (Some ex, s1)
         | DeleteDone (Inr None) _ s1 \<Rightarrow> (Some (Exn Undefined ''no response'' None), s1)
         | DeleteDone (Inr (Some r)) result s1 \<Rightarrow>
             (if status r \<noteq> OK_200 then (Some (Exn ExIO ''Failed to remove files'' None), s1)
              else (case FindTagContents result ''Error'' 0 of
                      Inl ex \<Rightarrow> (Some ex, s1)
                    | Inr (Some _) \<Rightarrow> (Some (Exn ExIO ''Failed to remove files'' None), s1)
                    | Inr None \<Rightarrow> (None, s1))))"

abbreviation (input) MAX_KEYS_PER_REQUEST :: nat where "MAX_KEYS_PER_REQUEST \<equiv> 1000"

text \<open>The chunks of a batch from a start: the keys of each with the path whose secrets it uses.\<close>

function chunks_from :: "delete_batch \<Rightarrow> nat \<Rightarrow> (string list \<times> string) list" where
  "chunks_from b batch_start =
     (if batch_start < length (db_keys b)
      then (slice (db_keys b) batch_start MAX_KEYS_PER_REQUEST, db_paths b ! batch_start) #
           chunks_from b (batch_start + MAX_KEYS_PER_REQUEST)
      else [])"
  by pat_completeness auto
termination
  by (relation "measure (\<lambda>(b, batch_start). length (db_keys b) - batch_start)") auto

declare chunks_from.simps [simp del]

fun delete_chunks :: "s3_env \<Rightarrow> post_transport \<Rightarrow> (bytes \<Rightarrow> string) \<Rightarrow> opener option \<Rightarrow> (string list \<times> string) list \<Rightarrow>
    s3_auth \<times> world \<Rightarrow> exn option \<times> s3_auth \<times> world" where
  "delete_chunks e post_net md5 opn [] s = (None, s)"
| "delete_chunks e post_net md5 opn ((keys, lookup_url) # cs) s =
     (case delete_chunk e post_net md5 opn lookup_url (delete_body keys) s of
        (Some ex, s1) \<Rightarrow> (Some ex, s1)
      | (None, s1) \<Rightarrow> delete_chunks e post_net md5 opn cs s1)"

fun delete_batches :: "s3_env \<Rightarrow> post_transport \<Rightarrow> (bytes \<Rightarrow> string) \<Rightarrow> opener option \<Rightarrow> delete_batch list \<Rightarrow> world \<Rightarrow>
    exn option \<times> world" where
  "delete_batches e post_net md5 opn [] w = (None, w)"
| "delete_batches e post_net md5 opn (b # bs) w =
     (case delete_chunks e post_net md5 opn (chunks_from b 0) (du_auth (db_url b), w) of
        (Some ex, _, w1) \<Rightarrow> (Some ex, w1)
      | (None, _, w1) \<Rightarrow> delete_batches e post_net md5 opn bs w1)"

text \<open>RemoveFiles; iter is the order in which the unordered_map is iterated.\<close>

definition RemoveFiles :: "s3_env \<Rightarrow> post_transport \<Rightarrow> (bytes \<Rightarrow> string) \<Rightarrow> (string \<Rightarrow> string \<Rightarrow> nat) \<Rightarrow>
    ((string \<times> delete_batch) list \<Rightarrow> (string \<times> delete_batch) list) \<Rightarrow> opener option \<Rightarrow> string list \<Rightarrow> world \<Rightarrow>
    exn option \<times> world" where
  "RemoveFiles e post_net md5 score iter opn paths w =
     (case collect_batches e score opn (w_secrets w) paths [] of
        Inl ex \<Rightarrow> (Some ex, w)
      | Inr bs \<Rightarrow> delete_batches e post_net md5 opn (map snd (iter bs)) w)"
section \<open>Directories\<close>

text \<open>
  ListFilesExtended: the files below a directory, relative to it, handed to the callback one by one
  until one does not start with the directory.
\<close>

fun emit_files :: "string_util \<Rightarrow> string \<Rightarrow> glob_file list \<Rightarrow> exn option \<times> glob_file list" where
  "emit_files su base [] = (None, [])"
| "emit_files su base ((f, r) # fs) =
     (if \<not> su_starts_with su (se_path f) base
      then (Some (Exn ExInvalidInput ''Globbed directory, but found file that does not start with base path'' None), [])
      else (case emit_files su base fs of
              (ex, out) \<Rightarrow> (ex, (f\<lparr>se_path := drop (length base) (se_path f)\<rparr>, r) # out)))"

definition ListFilesExtended :: "string_util \<Rightarrow> string \<Rightarrow> (string \<Rightarrow> exn + glob_file list) \<Rightarrow> string \<Rightarrow>
    (exn + bool) \<times> glob_file list" where
  "ListFilesExtended su sep glob_files directory =
     (let trimmed_dir = su_rtrim su directory sep
      in case glob_files (su_join_path su trimmed_dir ''**'') of
           Inl ex \<Rightarrow> (Inl ex, [])
         | Inr files \<Rightarrow>
             (if files = [] then (Inr False, [])
              else (case emit_files su (trimmed_dir @ sep) files of
                      (Some ex, out) \<Rightarrow> (Inl ex, out) | (None, out) \<Rightarrow> (Inr True, out))))"

text \<open>RemoveDirectory, over the caller's loop of the glob.\<close>

definition RemoveDirectory :: "string_util \<Rightarrow> string \<Rightarrow> (string \<Rightarrow> exn + glob_file list) \<Rightarrow>
    (string list \<Rightarrow> world \<Rightarrow> exn option \<times> world) \<Rightarrow> string \<Rightarrow> world \<Rightarrow> exn option \<times> world" where
  "RemoveDirectory su sep glob_files remove_files path w =
     (case ListFilesExtended su sep glob_files path of
        (Inl ex, _) \<Rightarrow> (Some ex, w)
      | (Inr _, out) \<Rightarrow> remove_files (map (se_path \<circ> fst) out) w)"

section \<open>Keys are unambiguous\<close>

lemma key_part_split:
  assumes "key_part s @ xs = key_part t @ ys"
  shows "s = t \<and> xs = ys"
proof -
  have d: "\<forall>c \<in> set (to_string n). c \<noteq> CHR '':''" for n
    using to_string_digits [of n] by (auto simp: is_digit_def)
  have tw: "takeWhile (\<lambda>c. c \<noteq> CHR '':'') (key_part v @ zs) = to_string (length v)" for v zs
    using d [of "length v"] by (simp add: key_part_def takeWhile_append2)
  have "to_string (length s) = to_string (length t)" using assms tw by metis
  then have len: "length s = length t" using to_string_inj by blast
  then have "s @ CHR '';'' # xs = t @ CHR '';'' # ys" using assms by (simp add: key_part_def)
  with len show ?thesis by simp
qed

lemma build_key_inj: "build_key ps = build_key qs \<Longrightarrow> ps = qs"
proof (induction ps arbitrary: qs)
  case Nil
  then show ?case by (cases qs) (simp_all add: build_key_def key_part_def)
next
  case (Cons p ps)
  show ?case
  proof (cases qs)
    case Nil
    then show ?thesis using Cons.prems by (simp add: build_key_def key_part_def)
  next
    case (Cons q qs')
    then have "key_part p @ build_key ps = key_part q @ build_key qs'"
      using Cons.prems by (simp add: build_key_def)
    then show ?thesis using key_part_split Cons.IH Cons by blast
  qed
qed

lemma bool_part_inj: "bool_part a = bool_part b \<longleftrightarrow> a = b"
  by (simp add: bool_part_def)

text \<open>Files of one batch share the URL of their bucket and all credentials.\<close>

lemma batch_key_determines:
  assumes "CreateDeleteBatchKey e score opn m u r path = CreateDeleteBatchKey e score opn m u' r' path'"
  shows "u = u'"
proof -
  have "url_key_parts u @ auth_key_parts (du_auth u) = url_key_parts u' @ auth_key_parts (du_auth u')"
    using build_key_inj [OF assms [unfolded CreateDeleteBatchKey_def]]
    by (simp add: url_key_parts_def auth_key_parts_def)
  then have "du_prefix u = du_prefix u'" "du_http_proto u = du_http_proto u'" "du_host u = du_host u'"
    "du_path u = du_path u'" "du_auth u = du_auth u'"
    by (simp_all add: url_key_parts_def auth_key_parts_def bool_part_inj)
  then show ?thesis by simp
qed

section \<open>Every file in one batch, under its own credentials\<close>

definition batch_ok :: "s3_env \<Rightarrow> (string \<Rightarrow> string \<Rightarrow> nat) \<Rightarrow> opener option \<Rightarrow> nat \<Rightarrow> string \<times> delete_batch \<Rightarrow> bool" where
  "batch_ok e score opn m kb \<longleftrightarrow> length (db_keys (snd kb)) = length (db_paths (snd kb)) \<and>
     (\<exists>r path. fst kb = CreateDeleteBatchKey e score opn m (db_url (snd kb)) r path) \<and>
     (\<forall>i < length (db_paths (snd kb)).
        delete_target e m (db_paths (snd kb) ! i) = Inr (db_url (snd kb), db_keys (snd kb) ! i))"

lemma add_to_batch_ok:
  assumes "\<forall>kb \<in> set bs. batch_ok e score opn m kb"
    and "bk = CreateDeleteBatchKey e score opn m u r path" and "delete_target e m path = Inr (u, key)"
  shows "(\<forall>kb \<in> set (add_to_batch bk u key path bs). batch_ok e score opn m kb) \<and>
    mset (concat (map (db_paths \<circ> snd) (add_to_batch bk u key path bs))) =
      add_mset path (mset (concat (map (db_paths \<circ> snd) bs)))"
  using assms(1)
proof (induction bs)
  case Nil
  then show ?case using assms(2,3) by (auto simp: batch_ok_def)
next
  case (Cons kb bs)
  obtain bk1 b where kb: "kb = (bk1, b)" by (cases kb)
  show ?case
  proof (cases "bk1 = bk")
    case True
    have ok: "batch_ok e score opn m (bk1, b)" using Cons.prems kb by simp
    then obtain r1 path1 where "bk1 = CreateDeleteBatchKey e score opn m (db_url b) r1 path1"
      by (auto simp: batch_ok_def)
    then have u: "db_url b = u" using batch_key_determines True assms(2) by metis
    have "batch_ok e score opn m (bk1, b\<lparr>db_keys := db_keys b @ [key], db_paths := db_paths b @ [path]\<rparr>)"
      using ok assms(3) u by (auto simp: batch_ok_def nth_append less_Suc_eq)
    then show ?thesis using Cons.prems kb True by simp
  next
    case False
    then show ?thesis using Cons kb by simp
  qed
qed

lemma collect_batches_ok:
  "collect_batches e score opn m paths bs = Inr bs' \<Longrightarrow> \<forall>kb \<in> set bs. batch_ok e score opn m kb \<Longrightarrow>
   (\<forall>kb \<in> set bs'. batch_ok e score opn m kb) \<and>
   mset (concat (map (db_paths \<circ> snd) bs')) = mset paths + mset (concat (map (db_paths \<circ> snd) bs))"
proof (induction paths arbitrary: bs)
  case (Cons path paths)
  obtain u key where t: "delete_target e m path = Inr (u, key)"
    using Cons.prems(1) by (auto split: sum.splits)
  let ?bk = "CreateDeleteBatchKey e score opn m u (ReadRefreshableHTTPParams e m path) path"
  have "collect_batches e score opn m paths (add_to_batch ?bk u key path bs) = Inr bs'"
    using Cons.prems(1) t by simp
  moreover note add = add_to_batch_ok [OF Cons.prems(2) refl [of ?bk] t]
  ultimately have "(\<forall>kb \<in> set bs'. batch_ok e score opn m kb) \<and> mset (concat (map (db_paths \<circ> snd) bs')) =
      mset paths + mset (concat (map (db_paths \<circ> snd) (add_to_batch ?bk u key path bs)))"
    using Cons.IH by blast
  then show ?case using conjunct2 [OF add] by (metis mset.simps(2) union_mset_add_mset_left union_mset_add_mset_right)
qed simp

lemma chunks_concat: "concat (map fst (chunks_from b i)) = drop i (db_keys b)"
proof (induction b i rule: chunks_from.induct)
  case (1 b i)
  have "slice (db_keys b) i 1000 @ drop (i + 1000) (db_keys b) = drop i (db_keys b)"
    using append_take_drop_id [of 1000 "drop i (db_keys b)"] by (simp add: slice_def add.commute)
  then show ?case using 1 by (simp add: chunks_from.simps [of b i])
qed

lemma chunks_small: "c \<in> set (chunks_from b i) \<Longrightarrow> fst c \<noteq> [] \<and> length (fst c) \<le> 1000 \<and> snd c \<in> set (db_paths b) \<or>
    length (db_keys b) \<noteq> length (db_paths b)"
proof (induction b i rule: chunks_from.induct)
  case (1 b i)
  show ?case
  proof (cases "i < length (db_keys b)")
    case True
    then consider "c = (slice (db_keys b) i 1000, db_paths b ! i)" | "c \<in> set (chunks_from b (i + 1000))"
      using 1(2) by (subst (asm) chunks_from.simps) auto
    then show ?thesis
    proof cases
      case 1
      have "length (slice (db_keys b) i 1000) = min 1000 (length (db_keys b) - i)" by simp
      then have "slice (db_keys b) i 1000 \<noteq> []" "length (slice (db_keys b) i 1000) \<le> 1000"
        using True by (simp_all only: length_0_conv [symmetric])
      then show ?thesis using 1 True by auto
    next
      case 2
      then show ?thesis using 1(1) True by simp
    qed
  next
    case False
    then show ?thesis using 1(2) by (simp add: chunks_from.simps [of b i])
  qed
qed

text \<open>
  C12: RemoveFiles asks for exactly the files it was given: they are divided among the batches, each
  file in one, at the URL of its own bucket, with its own key, and under the credentials that its own
  path selects; so no file is removed with another's credentials or endpoint. The requests of a
  batch carry its keys in order, each once, at most 1000 in a request.
\<close>

theorem batches_are_the_files:
  assumes "collect_batches e score opn m paths [] = Inr bs"
  shows "mset (concat (map (db_paths \<circ> snd) bs)) = mset paths \<and>
     (\<forall>b \<in> snd ` set bs. length (db_keys b) = length (db_paths b) \<and>
        (\<forall>i < length (db_paths b). delete_target e m (db_paths b ! i) = Inr (db_url b, db_keys b ! i)) \<and>
        concat (map fst (chunks_from b 0)) = db_keys b \<and>
        (\<forall>c \<in> set (chunks_from b 0). fst c \<noteq> [] \<and> length (fst c) \<le> 1000 \<and> snd c \<in> set (db_paths b)))"
proof -
  have ok: "\<forall>kb \<in> set bs. batch_ok e score opn m kb" "mset (concat (map (db_paths \<circ> snd) bs)) = mset paths"
    using collect_batches_ok [OF assms] by simp_all
  have "length (db_keys b) = length (db_paths b) \<and>
      (\<forall>i < length (db_paths b). delete_target e m (db_paths b ! i) = Inr (db_url b, db_keys b ! i))"
    if "b \<in> snd ` set bs" for b
    using ok(1) that by (auto simp: batch_ok_def)
  then show ?thesis using ok(2) chunks_concat [of _ 0] chunks_small by fastforce
qed

lemma demo_delete_target:
  "delete_target (demo_s3 v) 0 ''s3://b/k'' = Inr (\<lparr>du_prefix = ''s3://'', du_http_proto = ''https://'',
     du_host = ''b.s3.eu.amazonaws.com'', du_path = ''/'', du_auth = demo_auth 0\<rparr>, ''k'')"
proof -
  have "ReadFromOpener ref_su (Some (demo_reader 0)) ''s3://b/k'' = demo_auth 0"
    by (simp add: ReadFromOpener_def demo_ReadFrom)
  moreover have "ReadQueryParams (\<lambda>_. []) '''' (demo_auth 0) = Inr (demo_auth 0)"
    by (simp add: ReadQueryParams_def)
  ultimately show ?thesis by (simp add: delete_target_def demo_s3_def demo_parse GetS3BucketPath_def)
qed

theorem batches_are_the_files_witness:
  "\<exists>bs. collect_batches (demo_s3 (demo_env [] [])) (\<lambda>_ _. 0) None 0 [''s3://b/k'', ''s3://b/k''] [] = Inr bs \<and>
     mset (concat (map (db_paths \<circ> snd) bs)) = {#''s3://b/k'', ''s3://b/k''#} \<and> length bs = 1"
proof -
  obtain bs where bs: "collect_batches (demo_s3 (demo_env [] [])) (\<lambda>_ _. 0) None 0 [''s3://b/k'', ''s3://b/k''] [] = Inr bs"
    "length bs = 1"
    by (simp add: demo_delete_target)
  from batches_are_the_files [OF bs(1)] bs show ?thesis by auto
qed

section \<open>The body of the request\<close>

lemma object_key_split:
  assumes "clean k" and "clean k'" and "k @ ''</Key></Object>'' @ xs = k' @ ''</Key></Object>'' @ ys"
  shows "k = k' \<and> xs = ys"
proof -
  have tw: "takeWhile (\<lambda>c. c \<noteq> CHR ''<'') (v @ ''</Key></Object>'' @ zs) = v" if "clean v" for v zs
    using that unfolding clean_def by (subst takeWhile_append2) auto
  have "k = k'" using tw [OF assms(1)] tw [OF assms(2)] assms(3) by metis
  with assms(3) show ?thesis by simp
qed

lemma delete_objects_inj:
  "\<forall>k \<in> set xs \<union> set ys. clean k \<Longrightarrow>
   concat (map (\<lambda>k. ''<Object><Key>'' @ k @ ''</Key></Object>'') xs) @ ''<Quiet>'' @ t =
   concat (map (\<lambda>k. ''<Object><Key>'' @ k @ ''</Key></Object>'') ys) @ ''<Quiet>'' @ t \<Longrightarrow> xs = ys"
proof (induction xs arbitrary: ys)
  case Nil
  then show ?case by (cases ys) simp_all
next
  case (Cons x xs)
  show ?case
  proof (cases ys)
    case Nil
    then show ?thesis using Cons.prems(2) by simp
  next
    case (Cons y ys')
    let ?f = "\<lambda>zs. concat (map (\<lambda>k. ''<Object><Key>'' @ k @ ''</Key></Object>'') zs) @ ''<Quiet>'' @ t"
    have "x @ ''</Key></Object>'' @ ?f xs = y @ ''</Key></Object>'' @ ?f ys'"
      using Cons.prems(2) Cons by simp
    moreover have "clean x" "clean y" using Cons.prems(1) Cons by simp_all
    ultimately have e: "x = y \<and> ?f xs = ?f ys'" by (intro object_key_split)
    moreover have "\<forall>k \<in> set xs \<union> set ys'. clean k" using Cons.prems(1) Cons by simp
    ultimately have "xs = ys'" by (intro Cons.IH) simp_all
    then show ?thesis using e Cons by simp
  qed
qed



section \<open>Removing a directory\<close>

lemma emit_files_relative:
  "emit_files su base fs = (None, out) \<Longrightarrow>
   map (se_path \<circ> fst) out = map (\<lambda>f. drop (length base) (se_path (fst f))) fs"
  by (induction su base fs arbitrary: out rule: emit_files.induct)
    (auto split: if_splits prod.splits)

text \<open>
  RemoveDirectory hands RemoveFiles the names of the files below the directory, relative to the
  directory, where RemoveFiles expects S3 URLs. So on a directory with a file whose relative name has
  no S3 prefix it always fails, with the exception of the URL parser, and removes nothing: the world,
  with its count of requests, is unchanged.
\<close>

theorem remove_directory_removes_nothing:
  assumes "glob_files (su_join_path su (su_rtrim su path sep) ''**'') = Inr files" and "f \<in> set files"
    and "sv_su e = su"
    and "TryGetPrefix su (drop (length (su_rtrim su path sep @ sep)) (se_path (fst f))) = ''''"
  shows "\<exists>ex. RemoveDirectory su sep glob_files (RemoveFiles e post_net md5 score iter opn) path w = (Some ex, w)"
proof -
  let ?base = "su_rtrim su path sep @ sep"
  obtain r out where em: "emit_files su ?base files = (r, out)" by fastforce
  show ?thesis
  proof (cases r)
    case (Some ex)
    then show ?thesis using assms(1,2) em
      by (auto simp: RemoveDirectory_def ListFilesExtended_def)
  next
    case None
    let ?names = "map (se_path \<circ> fst) out"
    have "drop (length ?base) (se_path (fst f)) \<in> set ?names"
      using emit_files_relative [OF em [unfolded None]] assms(2) by force
    moreover have "\<exists>ex. delete_target e (w_secrets w) (drop (length ?base) (se_path (fst f))) = Inl ex"
      using assms(3,4) by (simp add: delete_target_def S3UrlParse_def GetPrefix_def Let_def)
    moreover have "\<exists>ex. collect_batches e score opn m ns bs = Inl ex"
      if "n \<in> set ns" "\<exists>ex. delete_target e m n = Inl ex" for m n ns bs
      using that by (induction ns arbitrary: bs) (auto split: sum.splits)
    ultimately obtain ex where "collect_batches e score opn (w_secrets w) ?names [] = Inl ex" by blast
    then have "RemoveFiles e post_net md5 score iter opn ?names w = (Some ex, w)" by (simp add: RemoveFiles_def)
    then show ?thesis using assms(1,2) em None
      by (auto simp: RemoveDirectory_def ListFilesExtended_def)
  qed
qed

theorem remove_directory_removes_nothing_witness:
  "\<exists>ex. RemoveDirectory ref_su ''/''
     (\<lambda>_. Inr [(\<lparr>se_path = ''s3://b/d/x'', se_last_modified = None, se_etag = None, se_size = None\<rparr>, None)])
     (RemoveFiles (demo_s3 (demo_env [] [])) (\<lambda>_ _. (\<lparr>attempts = [], client_after = None\<rparr>, [])) (\<lambda>b. b) (\<lambda>_ _. 0) (\<lambda>x. x) None)
     ''s3://b/d'' demo_world = (Some ex, demo_world)"
proof -
  let ?f = "(\<lparr>se_path = ''s3://b/d/x'', se_last_modified = None, se_etag = None, se_size = None\<rparr>, None :: string option)"
  have p: "TryGetPrefix ref_su (drop (length (su_rtrim ref_su ''s3://b/d'' ''/'' @ ''/'')) (se_path (fst ?f))) = ''''"
    by code_simp
  show ?thesis
    by (rule remove_directory_removes_nothing [where f = ?f and files = "[?f]", OF _ _ _ p]) (simp_all add: demo_s3_def)
qed

end
