(* ===== verification/HfFs.thy ===== *)
theory HfFs
  imports S3Glob
begin

text \<open>
  The Hugging Face file system (src/hffs.cpp): its URLs, the parsers of the Link header and of a tree
  listing, the listing request, Glob, and the requests of a handle. hf:// URLs are translated
  to https URLs of the hub; everything else is inherited from the HTTP file system.
\<close>

section \<open>URLs\<close>

record hf_url =
  hf_path :: string
  hf_repository :: string
  hf_endpoint :: string
  hf_revision :: string
  hf_repo_type :: string

definition new_hf_url :: hf_url where
  "new_hf_url = \<lparr>hf_path = '''', hf_repository = '''', hf_endpoint = ''https://huggingface.co'',
     hf_revision = ''main'', hf_repo_type = ''datasets''\<rparr>"

definition CanHandleFile_hf :: "string \<Rightarrow> bool" where
  "CanHandleFile_hf fpath \<longleftrightarrow> prefix ''hf://'' fpath"

abbreviation (input) hf_parse_error :: exn where
  "hf_parse_error \<equiv> Exn ExIO ''Failed to parse hf url'' None"

definition HFUrlParse :: "string_util \<Rightarrow> string \<Rightarrow> exn + hf_url" where
  "HFUrlParse su url =
     (if \<not> su_starts_with su url ''hf://'' then Inl (Exn ExInternal ''Not an hf url'' None)
      else
        (case str_find url ''/'' 5 of
           None \<Rightarrow> Inl hf_parse_error
         | Some curr_delim \<Rightarrow>
             (let repo_type = substr url 5 (curr_delim - 5)
              in if repo_type \<noteq> ''datasets'' \<and> repo_type \<noteq> ''spaces''
                 then Inl (Exn ExIO ''Failed to parse. Currently DuckDB only supports querying datasets or spaces'' None)
                 else
                   (case str_find url ''/'' (curr_delim + 1) of
                      None \<Rightarrow> Inl hf_parse_error
                    | Some repo_delim \<Rightarrow>
                        (case str_find url ''/'' (repo_delim + 1) of
                           None \<Rightarrow> Inl hf_parse_error
                         | Some next_slash \<Rightarrow>
                             (let result = new_hf_url\<lparr>hf_repo_type := repo_type, hf_path := drop next_slash url\<rparr>
                              in case str_find url ''@'' (repo_delim + 1) of
                                   Some next_at \<Rightarrow>
                                     (if next_at < next_slash
                                      then Inr (result\<lparr>hf_repository := substr url (curr_delim + 1) (next_at - curr_delim - 1),
                                             hf_revision := substr url (next_at + 1) (next_slash - next_at - 1)\<rparr>)
                                      else Inr (result\<lparr>hf_repository := substr url (curr_delim + 1) (next_slash - curr_delim - 1)\<rparr>))
                                 | None \<Rightarrow>
                                     Inr (result\<lparr>hf_repository := substr url (curr_delim + 1) (next_slash - curr_delim - 1)\<rparr>)))))))"

definition GetHFUrl :: "hf_url \<Rightarrow> string" where
  "GetHFUrl u =
     (if hf_revision u = ''main'' then ''hf://'' @ hf_repo_type u @ ''/'' @ hf_repository u @ hf_path u
      else ''hf://'' @ hf_repo_type u @ ''/'' @ hf_repository u @ ''@'' @ hf_revision u @ hf_path u)"

definition GetTreeUrl :: "string_util \<Rightarrow> hf_url \<Rightarrow> nat \<Rightarrow> string" where
  "GetTreeUrl su u limit =
     (let j = su_join_path su
      in j (j (j (j (j (hf_endpoint u) ''api'') (hf_repo_type u)) (hf_repository u)) ''tree'') (hf_revision u) @ hf_path u @
         (if 0 < limit then ''?limit='' @ to_string limit else ''''))"

definition GetFileUrl :: "string_util \<Rightarrow> hf_url \<Rightarrow> string" where
  "GetFileUrl su u =
     (let j = su_join_path su
      in j (j (j (j (hf_endpoint u) (hf_repo_type u)) (hf_repository u)) ''resolve'') (hf_revision u) @ hf_path u)"

section \<open>The Link header\<close>

abbreviation (input) link_error :: exn where
  "link_error \<equiv> Exn ExIO ''Unexpected link header for huggingface pagination'' None"

text \<open>The links in order; the first one with rel=next decides. Split by a character is split.\<close>

fun next_link :: "string_util \<Rightarrow> (string \<Rightarrow> char \<Rightarrow> string list) \<Rightarrow> string list \<Rightarrow> exn + string" where
  "next_link su split [] = Inl (Exn ExIO ''Failed to parse Link header for paginated response, pagination support'' None)"
| "next_link su split (s # ss) =
     (case split s (CHR '';'') of
        [url, rel] \<Rightarrow>
          (if su_trim su rel = ''rel='' @ [CHR 0x22] @ ''next'' @ [CHR 0x22]
           then
             (let link = su_trim su url
              in if \<not> su_starts_with su link ''<'' \<or> \<not> su_ends_with su link ''>'' then Inl link_error
                 else Inr (substr link 1 (length link - 2)))
           else next_link su split ss)
      | _ \<Rightarrow> Inl link_error)"

definition ParseNextUrlFromLinkHeader :: "string_util \<Rightarrow> (string \<Rightarrow> char \<Rightarrow> string list) \<Rightarrow> string \<Rightarrow> exn + string" where
  "ParseNextUrlFromLinkHeader su split content = next_link su split (split content (CHR '',''))"

section \<open>A tree listing\<close>

datatype hf_entry = FILE | DIR | UNKNOWN_ENTRY

datatype hf_label = BaseLabel | EntryLabel | PathnameLabel

abbreviation (input) dq :: string where "dq \<equiv> [CHR 0x22]"

definition type_directory :: string where
  "type_directory = dq @ ''type'' @ dq @ '':'' @ dq @ ''directory'' @ dq"

definition type_file :: string where
  "type_file = dq @ ''type'' @ dq @ '':'' @ dq @ ''file'' @ dq"

definition path_key :: string where
  "path_key = dq @ ''path'' @ dq @ '':'' @ dq"

text \<open>
  The jumps of ParseListResult: the label, the rest of the input, the nesting depth, found_path,
  the type and path of the entry, and the files and directories found. The escape branch of the
  path asks one character to be a backslash and a quote.
\<close>

function (sequential) parse_list :: "hf_label \<Rightarrow> string \<Rightarrow> nat \<Rightarrow> bool \<Rightarrow> hf_entry \<Rightarrow> string \<Rightarrow>
    string list \<times> string list \<Rightarrow> exn + string list \<times> string list" where
  "parse_list lb [] nested found ty cur res = Inr res"
| "parse_list BaseLabel (c # cs) nested found ty cur res =
     (if c = CHR 0x7B then parse_list EntryLabel cs nested False UNKNOWN_ENTRY cur res
      else parse_list BaseLabel cs nested False UNKNOWN_ENTRY cur res)"
| "parse_list EntryLabel (c # cs) nested found ty cur res =
     (if c = CHR 0x7D then
        (if 0 < nested then parse_list EntryLabel cs (nested - 1) found ty cur res
         else if \<not> found \<or> ty = UNKNOWN_ENTRY then Inl (Exn ExIO ''Failed to parse list result'' None)
         else parse_list BaseLabel cs nested found ty ''''
           (if ty = FILE then (fst res @ [''/'' @ cur], snd res) else (fst res, snd res @ [''/'' @ cur])))
      else if c = CHR 0x7B then parse_list EntryLabel cs (nested + 1) found ty cur res
      else if prefix type_directory (c # cs) then parse_list EntryLabel (drop 18 (c # cs)) nested found DIR cur res
      else if prefix type_file (c # cs) then parse_list EntryLabel (drop 13 (c # cs)) nested found FILE cur res
      else if prefix path_key (c # cs) then parse_list PathnameLabel (drop 8 (c # cs)) nested True ty cur res
      else parse_list EntryLabel cs nested found ty cur res)"
| "parse_list PathnameLabel (c # cs) nested found ty cur res =
     (if c = CHR 0x5C \<and> cs \<noteq> [] \<and> c = CHR 0x22 then parse_list PathnameLabel (tl cs) nested found ty (cur @ dq) res
      else if c = CHR 0x22 then parse_list EntryLabel cs nested found ty cur res
      else parse_list PathnameLabel cs nested found ty (cur @ [c]) res)"
  by pat_completeness auto
termination
  by (relation "measure (\<lambda>(_, s, _). length s)") (auto split: if_splits)

definition ParseListResult :: "string \<Rightarrow> string list \<Rightarrow> string list \<Rightarrow> exn + string list \<times> string list" where
  "ParseListResult input files directories = parse_list BaseLabel input 0 False UNKNOWN_ENTRY '''' (files, directories)"

section \<open>URLs read back\<close>

lemma find_at_char:
  "find_at [d] s = Some i \<Longrightarrow> \<exists>mid post. s = mid @ d # post \<and> d \<notin> set mid \<and> i = length mid"
proof (induction s arbitrary: i)
  case (Cons c s)
  show ?case
  proof (cases "c = d")
    case True
    then show ?thesis using Cons.prems by (intro exI [of _ "[]"] exI [of _ s]) auto
  next
    case False
    then obtain j where "find_at [d] s = Some j" "i = Suc j" using Cons.prems by auto
    with Cons.IH obtain mid post where "s = mid @ d # post" "d \<notin> set mid" "i = Suc (length mid)" by blast
    then show ?thesis using False by (intro exI [of _ "c # mid"] exI [of _ post]) auto
  qed
qed simp

lemma str_find_char_split:
  assumes "str_find url [d] pos = Some i" and "url = pre @ s" and "pos = length pre"
  obtains mid post where "s = mid @ d # post" and "d \<notin> set mid" and "i = pos + length mid"
proof -
  obtain j where "find_at [d] s = Some j" "i = pos + j"
    using assms by (auto simp: str_find_def)
  with that find_at_char show thesis by blast
qed

lemma str_find_char:
  assumes "d \<notin> set mid" and "url = pre @ mid @ d # post" and "pos = length pre"
  shows "str_find url [d] pos = Some (pos + length mid)"
  using find_at_fresh [OF assms(1), of "[]" post] assms(2,3) by (simp add: str_find_def)

lemma substr_mid: "s = pre @ m @ post \<Longrightarrow> pos = length pre \<Longrightarrow> n = length m \<Longrightarrow> substr s pos n = m"
  by (simp add: substr_def slice_def)

lemma drop_pre: "s = pre @ r \<Longrightarrow> pos = length pre \<Longrightarrow> drop pos s = r"
  by simp

text \<open>What HFUrlParse delivers: a repository of two components, a revision without a slash, an absolute path.\<close>

definition hf_wf :: "hf_url \<Rightarrow> bool" where
  "hf_wf u \<longleftrightarrow> (hf_repo_type u = ''datasets'' \<or> hf_repo_type u = ''spaces'') \<and>
     hf_endpoint u = hf_endpoint new_hf_url \<and>
     (\<exists>a b. hf_repository u = a @ ''/'' @ b \<and> CHR ''/'' \<notin> set a \<and> CHR ''/'' \<notin> set b \<and> CHR ''@'' \<notin> set b) \<and>
     CHR ''/'' \<notin> set (hf_revision u) \<and> (\<exists>f. hf_path u = ''/'' @ f)"

lemma hf_wfI:
  assumes "hf_repo_type u = ''datasets'' \<or> hf_repo_type u = ''spaces''" and "hf_endpoint u = hf_endpoint new_hf_url"
    and "hf_repository u = a @ ''/'' @ b" "CHR ''/'' \<notin> set a" "CHR ''/'' \<notin> set b" "CHR ''@'' \<notin> set b"
    and "CHR ''/'' \<notin> set (hf_revision u)" and "hf_path u = ''/'' @ f"
  shows "hf_wf u"
  using assms unfolding hf_wf_def by blast

text \<open>HFUrlParse once its delimiters are found.\<close>

definition hf_parts :: "string \<Rightarrow> nat \<Rightarrow> nat \<Rightarrow> nat option \<Rightarrow> hf_url" where
  "hf_parts url d1 d3 na =
     (let result = new_hf_url\<lparr>hf_repo_type := substr url 5 (d1 - 5), hf_path := drop d3 url\<rparr>
      in case na of
           Some k \<Rightarrow> result\<lparr>hf_repository := substr url (d1 + 1) (k - d1 - 1), hf_revision := substr url (k + 1) (d3 - k - 1)\<rparr>
         | None \<Rightarrow> result\<lparr>hf_repository := substr url (d1 + 1) (d3 - d1 - 1)\<rparr>)"

lemma HFUrlParse_parts:
  assumes "su_starts_with su url ''hf://''"
    and "str_find url ''/'' 5 = Some d1" "str_find url ''/'' (d1 + 1) = Some d2" "str_find url ''/'' (d2 + 1) = Some d3"
    and "substr url 5 (d1 - 5) = ''datasets'' \<or> substr url 5 (d1 - 5) = ''spaces''"
  shows "str_find url ''@'' (d2 + 1) = Some k \<Longrightarrow> k < d3 \<Longrightarrow> HFUrlParse su url = Inr (hf_parts url d1 d3 (Some k))"
    and "(\<And>k. str_find url ''@'' (d2 + 1) = Some k \<Longrightarrow> \<not> k < d3) \<Longrightarrow> HFUrlParse su url = Inr (hf_parts url d1 d3 None)"
  using assms by (auto simp: HFUrlParse_def Let_def hf_parts_def split: option.split)

lemma HFUrlParse_wf:
  assumes su: "starts_ends_ok su" and parse: "HFUrlParse su url = Inr u"
  shows "hf_wf u"
proof -
  have start: "su_starts_with su url ''hf://''" using parse by (simp add: HFUrlParse_def split: if_splits)
  have "prefix ''hf://'' url" using start su by (simp add: starts_with_ok)
  then obtain s where s: "url = ''hf://'' @ s" by (auto simp: prefix_def)
  obtain d1 d2 d3 where d: "str_find url ''/'' 5 = Some d1" "str_find url ''/'' (d1 + 1) = Some d2"
    "str_find url ''/'' (d2 + 1) = Some d3"
    and ty: "substr url 5 (d1 - 5) = ''datasets'' \<or> substr url 5 (d1 - 5) = ''spaces''"
    using parse by (auto simp: HFUrlParse_def Let_def split: if_splits option.splits)
  have p0: "5 = length ''hf://''" by simp
  obtain t s1 where t: "s = t @ CHR ''/'' # s1" "CHR ''/'' \<notin> set t" "d1 = 5 + length t"
    by (rule str_find_char_split [OF d(1) s p0])
  have u1: "url = (''hf://'' @ t @ ''/'') @ s1" and p1: "d1 + 1 = length (''hf://'' @ t @ ''/'')" using s t by simp_all
  obtain a s2 where a: "s1 = a @ CHR ''/'' # s2" "CHR ''/'' \<notin> set a" "d2 = d1 + 1 + length a"
    by (rule str_find_char_split [OF d(2) u1 p1])
  have u2: "url = (''hf://'' @ t @ ''/'' @ a @ ''/'') @ s2" and pos: "d2 + 1 = length (''hf://'' @ t @ ''/'' @ a @ ''/'')"
    using u1 p1 a by simp_all
  obtain b f where b: "s2 = b @ CHR ''/'' # f" "CHR ''/'' \<notin> set b" "d3 = d2 + 1 + length b"
    by (rule str_find_char_split [OF d(3) u2 pos])
  have url: "url = (''hf://'' @ t @ ''/'' @ a @ ''/'') @ b @ CHR ''/'' # f" using u2 b by simp
  have path: "drop d3 url = ''/'' @ f"
    by (rule drop_pre [where pre = "''hf://'' @ t @ ''/'' @ a @ ''/'' @ b"]) (use url t a b in simp_all)
  have rt: "substr url 5 (d1 - 5) = t"
    by (rule substr_mid [where pre = "''hf://''" and post = "''/'' @ s1"]) (use s t in simp_all)
  show ?thesis
  proof (cases "\<exists>na. str_find url ''@'' (d2 + 1) = Some na \<and> na < d3")
    case True
    then obtain na where na: "str_find url ''@'' (d2 + 1) = Some na" "na < d3" by blast
    obtain m p where m: "b @ CHR ''/'' # f = m @ CHR ''@'' # p" "CHR ''@'' \<notin> set m" "na = d2 + 1 + length m"
      by (rule str_find_char_split [OF na(1) url pos])
    have "length m < length b" using m(3) na(2) b(3) by simp
    then obtain r where r: "b = m @ CHR ''@'' # r"
      using m(1) by (auto simp: append_eq_append_conv2 append_eq_Cons_conv)
    have "substr url (d1 + 1) (na - d1 - 1) = a @ ''/'' @ m"
      by (rule substr_mid [where pre = "''hf://'' @ t @ ''/''" and post = "''@'' @ r @ ''/'' @ f"])
        (use url t a b m r in simp_all)
    moreover have "substr url (na + 1) (d3 - na - 1) = r"
      by (rule substr_mid [where pre = "''hf://'' @ t @ ''/'' @ a @ ''/'' @ m @ ''@''" and post = "''/'' @ f"])
        (use url t a b m r in simp_all)
    ultimately have "u = new_hf_url\<lparr>hf_repo_type := t, hf_path := ''/'' @ f, hf_repository := a @ ''/'' @ m, hf_revision := r\<rparr>"
      using HFUrlParse_parts(1) [OF start d ty na] parse path rt by (simp add: hf_parts_def)
    then show ?thesis
      by (intro hf_wfI [of u a m f]) (use ty rt a m r b in \<open>simp_all add: new_hf_url_def\<close>)
  next
    case False
    have "CHR ''@'' \<notin> set b"
    proof
      assume "CHR ''@'' \<in> set b"
      then obtain m r where r: "b = m @ CHR ''@'' # r" "CHR ''@'' \<notin> set m" by (meson split_list_first)
      have "str_find url ''@'' (d2 + 1) = Some (d2 + 1 + length m)"
        by (rule str_find_char [OF r(2) _ pos, where post = "r @ CHR ''/'' # f"]) (simp add: url r)
      then show False using False b(3) r by simp
    qed
    moreover have "substr url (d1 + 1) (d3 - d1 - 1) = a @ ''/'' @ b"
      by (rule substr_mid [where pre = "''hf://'' @ t @ ''/''" and post = "''/'' @ f"]) (use url t a b in simp_all)
    moreover have "\<And>k. str_find url ''@'' (d2 + 1) = Some k \<Longrightarrow> \<not> k < d3" using False by blast
    ultimately have "u = new_hf_url\<lparr>hf_repo_type := t, hf_path := ''/'' @ f, hf_repository := a @ ''/'' @ b\<rparr>"
      using HFUrlParse_parts(2) [OF start d ty] parse path rt by (simp add: hf_parts_def)
    then show ?thesis
      by (intro hf_wfI [of u a b f]) (use ty rt a b \<open>CHR ''@'' \<notin> set b\<close> in \<open>simp_all add: new_hf_url_def\<close>)
  qed
qed

lemma HFUrlParse_GetHFUrl:
  assumes su: "starts_ends_ok su" and wf: "hf_wf u"
  shows "HFUrlParse su (GetHFUrl u) = Inr u"
proof -
  obtain a b f where rep: "hf_repository u = a @ ''/'' @ b" "CHR ''/'' \<notin> set a" "CHR ''/'' \<notin> set b" "CHR ''@'' \<notin> set b"
    and f: "hf_path u = ''/'' @ f" using wf unfolding hf_wf_def by blast
  let ?t = "hf_repo_type u" and ?v = "hf_revision u" and ?url = "GetHFUrl u"
  let ?d1 = "5 + length ?t" and ?main = "?v = ''main''"
  let ?d2 = "?d1 + 1 + length a"
  let ?mid = "if ?main then b else b @ CHR ''@'' # ?v"
  let ?d3 = "?d2 + 1 + length ?mid"
  have url: "?url = (''hf://'' @ ?t @ ''/'' @ a @ ''/'') @ ?mid @ CHR ''/'' # f"
    using rep(1) f by (simp add: GetHFUrl_def)
  have t: "CHR ''/'' \<notin> set ?t" "?t = ''datasets'' \<or> ?t = ''spaces''" "CHR ''/'' \<notin> set ?v"
    using wf by (auto simp: hf_wf_def)
  have d1: "str_find ?url ''/'' 5 = Some ?d1"
    by (rule str_find_char [OF t(1), where pre = "''hf://''"]) (simp_all add: url)
  have d2: "str_find ?url ''/'' (?d1 + 1) = Some ?d2"
    by (rule str_find_char [OF rep(2), where pre = "''hf://'' @ ?t @ ''/''"]) (simp_all add: url)
  have "CHR ''/'' \<notin> set ?mid" using rep(3) t(3) by simp
  then have d3: "str_find ?url ''/'' (?d2 + 1) = Some ?d3"
    by (rule str_find_char [where pre = "''hf://'' @ ?t @ ''/'' @ a @ ''/''"]) (simp_all add: url)
  have s1: "substr ?url 5 (?d1 - 5) = ?t"
    by (rule substr_mid [where pre = "''hf://''" and post = "''/'' @ a @ ''/'' @ ?mid @ ''/'' @ f"]) (simp_all add: url)
  have path: "drop ?d3 ?url = hf_path u"
    by (rule drop_pre [where pre = "''hf://'' @ ?t @ ''/'' @ a @ ''/'' @ ?mid"]) (simp_all add: url f)
  have repo: "substr ?url (?d1 + 1) (?d2 + 1 + length b - ?d1 - 1) = hf_repository u"
    by (rule substr_mid [where pre = "''hf://'' @ ?t @ ''/''"
        and post = "(if ?main then [] else ''@'' @ ?v) @ ''/'' @ f"]) (simp_all add: url rep(1))
  have start: "su_starts_with su ?url ''hf://''" by (simp add: url starts_with_ok [OF su])
  have ty: "substr ?url 5 (?d1 - 5) = ''datasets'' \<or> substr ?url 5 (?d1 - 5) = ''spaces''" using s1 t(2) by simp
  have res: "new_hf_url\<lparr>hf_repo_type := ?t, hf_path := hf_path u, hf_repository := hf_repository u, hf_revision := ?v\<rparr> = u"
    using wf by (cases u) (simp add: hf_wf_def new_hf_url_def)
  show ?thesis
  proof (cases ?main)
    case True
    have no: "\<not> na < ?d3" if na: "str_find ?url ''@'' (?d2 + 1) = Some na" for na
    proof -
      have p: "?d2 + 1 = length (''hf://'' @ ?t @ ''/'' @ a @ ''/'')" by simp
      obtain m p where m: "?mid @ CHR ''/'' # f = m @ CHR ''@'' # p" "na = ?d2 + 1 + length m"
        by (rule str_find_char_split [OF na url p])
      have "\<not> length m < length b"
      proof
        assume "length m < length b"
        then have "b ! length m = (b @ CHR ''/'' # f) ! length m" by (simp add: nth_append)
        also have "\<dots> = (m @ CHR ''@'' # p) ! length m" using m(1) True by simp
        also have "\<dots> = CHR ''@''" by simp
        finally have "CHR ''@'' \<in> set b" using nth_mem [OF \<open>length m < length b\<close>] by simp
        then show False using rep(4) by simp
      qed
      then show ?thesis using m(2) True by simp
    qed
    have "HFUrlParse su ?url = Inr (hf_parts ?url ?d1 ?d3 None)"
      by (rule HFUrlParse_parts(2) [OF start d1 d2 d3 ty no])
    also have "hf_parts ?url ?d1 ?d3 None = u"
      using res True path repo s1 by (simp add: hf_parts_def Let_def new_hf_url_def)
    finally show ?thesis .
  next
    case False
    let ?na = "?d2 + 1 + length b"
    have na: "str_find ?url ''@'' (?d2 + 1) = Some ?na"
      by (rule str_find_char [OF rep(4), where pre = "''hf://'' @ ?t @ ''/'' @ a @ ''/''" and post = "?v @ CHR ''/'' # f"])
        (simp_all add: url False)
    have rev: "substr ?url (?na + 1) (?d3 - ?na - 1) = ?v"
      by (rule substr_mid [where pre = "''hf://'' @ ?t @ ''/'' @ a @ ''/'' @ b @ ''@''" and post = "''/'' @ f"])
        (simp_all add: url False)
    have "?na < ?d3" using False by simp
    then have "HFUrlParse su ?url = Inr (hf_parts ?url ?d1 ?d3 (Some ?na))"
      using HFUrlParse_parts(1) [OF start d1 d2 d3 ty na] by blast
    also have "hf_parts ?url ?d1 ?d3 (Some ?na) = u"
      using res by (simp only: hf_parts_def Let_def option.case s1 path repo rev)
    finally show ?thesis .
  qed
qed

section \<open>Round trips\<close>

text \<open>
  An hf URL read from text prints as a URL that the file system accepts and reads back, for its
  own path and for the path of any other file of the repository: the URLs that Glob
  returns denote the files it found.
\<close>

theorem hf_url_roundtrip:
  assumes "starts_ends_ok su" and "HFUrlParse su url = Inr u"
  shows "HFUrlParse su (GetHFUrl u) = Inr u \<and>
     HFUrlParse su (GetHFUrl (u\<lparr>hf_path := ''/'' @ f\<rparr>)) = Inr (u\<lparr>hf_path := ''/'' @ f\<rparr>) \<and>
     CanHandleFile_hf (GetHFUrl (u\<lparr>hf_path := ''/'' @ f\<rparr>))"
proof -
  have wf: "hf_wf u" by (rule HFUrlParse_wf [OF assms])
  then have "hf_wf (u\<lparr>hf_path := ''/'' @ f\<rparr>)" by (simp add: hf_wf_def)
  moreover have "CanHandleFile_hf (GetHFUrl v)" for v by (simp add: CanHandleFile_hf_def GetHFUrl_def)
  ultimately show ?thesis using wf HFUrlParse_GetHFUrl [OF assms(1)] by blast
qed

definition demo_hf :: hf_url where
  "demo_hf = \<lparr>hf_path = ''/d/x*'', hf_repository = ''me/set'', hf_endpoint = ''https://huggingface.co'',
     hf_revision = ''v1'', hf_repo_type = ''datasets''\<rparr>"

lemma demo_hf_parse: "HFUrlParse ref_su ''hf://datasets/me/set@v1/d/x*'' = Inr demo_hf"
proof -
  have "hf_wf demo_hf"
    unfolding hf_wf_def by (intro conjI exI [of _ "''me''"] exI [of _ "''set''"] exI [of _ "''d/x*''"])
      (simp_all add: demo_hf_def new_hf_url_def)
  moreover have "GetHFUrl demo_hf = ''hf://datasets/me/set@v1/d/x*''" by (simp add: demo_hf_def GetHFUrl_def)
  ultimately show ?thesis using HFUrlParse_GetHFUrl [of ref_su demo_hf] by simp
qed

theorem hf_url_roundtrip_witness:
  "HFUrlParse ref_su (GetHFUrl (demo_hf\<lparr>hf_path := ''/d/x.csv''\<rparr>)) = Inr (demo_hf\<lparr>hf_path := ''/d/x.csv''\<rparr>)"
  using hf_url_roundtrip [OF ref_su_starts_ends_ok demo_hf_parse, of "''d/x.csv''"] by simp

text \<open>
  A tree listing as the hub renders it: an object per entry with its type, other members, its path
  and, for a stored file, a nested object. entry_text is what may stand beside type and path:
  text without quotes and braces, members of other names, and nested objects.
\<close>

definition plain_text :: "string \<Rightarrow> bool" where
  "plain_text t \<longleftrightarrow> CHR 0x22 \<notin> set t \<and> CHR 0x7B \<notin> set t \<and> CHR 0x7D \<notin> set t"

inductive entry_text :: "string \<Rightarrow> bool" where
  et_plain: "plain_text t \<Longrightarrow> entry_text t"
| et_member: "plain_text k \<Longrightarrow> k \<noteq> ''type'' \<Longrightarrow> k \<noteq> ''path'' \<Longrightarrow> plain_text v \<Longrightarrow>
    entry_text (dq @ k @ dq @ '':'' @ dq @ v @ dq @ '','')"
| et_object: "entry_text t \<Longrightarrow> entry_text ([CHR 0x7B] @ t @ [CHR 0x7D])"
| et_append: "entry_text s \<Longrightarrow> entry_text t \<Longrightarrow> entry_text (s @ t)"

definition render_hf :: "hf_entry \<times> string \<times> string \<times> string \<Rightarrow> string" where
  "render_hf = (\<lambda>(ty, mid, p, tail). [CHR 0x7B] @ (if ty = DIR then type_directory else type_file) @ '','' @ mid @
     path_key @ p @ dq @ tail @ [CHR 0x7D])"

definition render_hf_list :: "(hf_entry \<times> string \<times> string \<times> string) list \<Rightarrow> string" where
  "render_hf_list es = ''['' @ concat (map (\<lambda>e. render_hf e @ '','') es) @ '']''"

lemmas key_defs = type_directory_def type_file_def path_key_def

lemma skip_plain: "plain_text t \<Longrightarrow> parse_list EntryLabel (t @ r) n f ty cur res = parse_list EntryLabel r n f ty cur res"
  by (induction t) (auto simp: plain_text_def key_defs)

text \<open>At a quote the scanner recognises a key only if that key stands there.\<close>

lemma quoted_prefix:
  assumes "CHR 0x22 \<notin> set a" and "CHR 0x22 \<notin> set b" and "prefix (a @ CHR 0x22 # x) (b @ CHR 0x22 # y)"
  shows "a = b \<and> prefix x y"
  using assms by (induction a b rule: list_induct2') (auto simp: Cons_eq_append_conv prefix_def)

lemma skip_quote:
  assumes "\<not> prefix type_directory (CHR 0x22 # s)" "\<not> prefix type_file (CHR 0x22 # s)" "\<not> prefix path_key (CHR 0x22 # s)"
  shows "parse_list EntryLabel (CHR 0x22 # s) n f ty cur res = parse_list EntryLabel s n f ty cur res"
  using assms by simp

lemma skip_member:
  assumes "plain_text k" "k \<noteq> ''type''" "k \<noteq> ''path''" "plain_text v"
  shows "parse_list EntryLabel ((dq @ k @ dq @ '':'' @ dq @ v @ dq @ '','') @ r) n f ty cur res = parse_list EntryLabel r n f ty cur res"
proof -
  have kv: "CHR 0x22 \<notin> set k" "CHR 0x22 \<notin> set v" using assms by (simp_all add: plain_text_def)
  have no: "\<not> prefix (CHR 0x22 # ''type'' @ CHR 0x22 # x) (CHR 0x22 # k @ CHR 0x22 # y)"
    "\<not> prefix (CHR 0x22 # ''path'' @ CHR 0x22 # x) (CHR 0x22 # k @ CHR 0x22 # y)" for x y
    using quoted_prefix [of "''type''" k x y] quoted_prefix [of "''path''" k x y] kv assms by auto
  have nv: "\<not> prefix (CHR 0x22 # ''type'' @ CHR 0x22 # CHR '':'' # x) (CHR 0x22 # v @ CHR 0x22 # CHR '','' # y)"
    "\<not> prefix (CHR 0x22 # ''path'' @ CHR 0x22 # CHR '':'' # x) (CHR 0x22 # v @ CHR 0x22 # CHR '','' # y)" for x y
    using quoted_prefix [of "''type''" v "CHR '':'' # x" "CHR '','' # y"]
      quoted_prefix [of "''path''" v "CHR '':'' # x" "CHR '','' # y"] kv by auto
  let ?v = "v @ CHR 0x22 # CHR '','' # r"
  have "parse_list EntryLabel (CHR 0x22 # k @ CHR 0x22 # CHR '':'' # CHR 0x22 # ?v) n f ty cur res
      = parse_list EntryLabel (k @ CHR 0x22 # CHR '':'' # CHR 0x22 # ?v) n f ty cur res"
    by (rule skip_quote) (use no in \<open>simp_all add: key_defs\<close>)
  also have "\<dots> = parse_list EntryLabel (CHR 0x22 # CHR '':'' # CHR 0x22 # ?v) n f ty cur res"
    by (rule skip_plain [OF assms(1)])
  also have "\<dots> = parse_list EntryLabel (CHR 0x22 # ?v) n f ty cur res" by (simp add: key_defs)
  also have "\<dots> = parse_list EntryLabel ?v n f ty cur res"
    by (rule skip_quote) (use nv in \<open>simp_all add: key_defs\<close>)
  also have "\<dots> = parse_list EntryLabel (CHR 0x22 # CHR '','' # r) n f ty cur res" by (rule skip_plain [OF assms(4)])
  also have "\<dots> = parse_list EntryLabel r n f ty cur res" by (simp add: key_defs)
  finally show ?thesis by simp
qed

lemma skip_text:
  "entry_text t \<Longrightarrow> parse_list EntryLabel (t @ r) n f ty cur res = parse_list EntryLabel r n f ty cur res"
proof (induction t arbitrary: r n rule: entry_text.induct)
  case (et_plain t)
  then show ?case by (rule skip_plain)
next
  case (et_member k v)
  then show ?case by (rule skip_member)
qed simp_all

lemma parse_path:
  "CHR 0x22 \<notin> set p \<Longrightarrow> parse_list PathnameLabel (p @ CHR 0x22 # r) n f ty cur res = parse_list EntryLabel r n f ty (cur @ p) res"
  by (induction p arbitrary: cur) auto

definition files_of :: "(hf_entry \<times> string \<times> string \<times> string) list \<Rightarrow> string list" where
  "files_of es = map (\<lambda>(_, _, p, _). ''/'' @ p) (filter (\<lambda>(ty, _). ty = FILE) es)"

definition dirs_of :: "(hf_entry \<times> string \<times> string \<times> string) list \<Rightarrow> string list" where
  "dirs_of es = map (\<lambda>(_, _, p, _). ''/'' @ p) (filter (\<lambda>(ty, _). ty = DIR) es)"

lemma parse_one:
  assumes "ty = FILE \<or> ty = DIR" "entry_text mid" "entry_text tail" "CHR 0x22 \<notin> set p"
  shows "parse_list BaseLabel (render_hf (ty, mid, p, tail) @ r) 0 f t [] res
    = parse_list BaseLabel r 0 True ty [] (if ty = FILE then (fst res @ [''/'' @ p], snd res) else (fst res, snd res @ [''/'' @ p]))"
proof -
  have path: "parse_list EntryLabel (path_key @ p @ CHR 0x22 # tail @ CHR 0x7D # r) 0 False ty [] res
      = parse_list BaseLabel r 0 True ty [] (if ty = FILE then (fst res @ [''/'' @ p], snd res) else (fst res, snd res @ [''/'' @ p]))"
    using assms(1) skip_text [OF assms(3), of "CHR 0x7D # r" 0 True ty p res] parse_path [OF assms(4), of "tail @ CHR 0x7D # r"]
    by (auto simp: key_defs)
  show ?thesis
    using assms(1) skip_text [OF assms(2), of "path_key @ p @ CHR 0x22 # tail @ CHR 0x7D # r" 0 False ty "[]" res] path
    by (auto simp: render_hf_def key_defs)
qed

text \<open>
  Parsing a rendered tree listing appends exactly the files and the directories of the listing, each
  in order and made absolute, whatever other members and nested objects the entries have,
  provided no path holds a quotation mark.
\<close>

theorem hf_listing_roundtrip:
  assumes "\<forall>(ty, mid, p, tail) \<in> set es. (ty = FILE \<or> ty = DIR) \<and> entry_text mid \<and> entry_text tail \<and> CHR 0x22 \<notin> set p"
  shows "ParseListResult (render_hf_list es) fs ds = Inr (fs @ files_of es, ds @ dirs_of es)"
proof -
  have "parse_list BaseLabel (concat (map (\<lambda>e. render_hf e @ '','') es) @ '']'') 0 f t [] res
      = Inr (fst res @ files_of es, snd res @ dirs_of es)" for f t res
    using assms
  proof (induction es arbitrary: f t res)
    case Nil
    then show ?case by (simp add: files_of_def dirs_of_def)
  next
    case (Cons e es)
    obtain ty mid p tail where e: "e = (ty, mid, p, tail)" by (metis surj_pair)
    have ok: "ty = FILE \<or> ty = DIR" "entry_text mid" "entry_text tail" "CHR 0x22 \<notin> set p"
      using Cons.prems e by auto
    show ?case using Cons.prems ok Cons.IH
      by (auto simp: e parse_one [OF ok] files_of_def dirs_of_def)
  qed
  then show ?thesis by (simp add: ParseListResult_def render_hf_list_def)
qed

definition demo_entries :: "(hf_entry \<times> string \<times> string \<times> string) list" where
  "demo_entries =
     [(DIR, dq @ ''oid'' @ dq @ '':'' @ dq @ ''7f'' @ dq @ '','' @ dq @ ''kind'' @ dq @ '':'' @ dq @ ''x'' @ dq @ '','', ''d/e'', []),
      (FILE, dq @ ''oid'' @ dq @ '':'' @ dq @ ''9a'' @ dq @ '','', ''d/x.csv'',
         [CHR 0x7B] @ dq @ ''oid'' @ dq @ '':'' @ dq @ ''c0'' @ dq @ '','' @ [CHR 0x7D])]"

theorem hf_listing_roundtrip_witness:
  "ParseListResult (render_hf_list demo_entries) [] [] = Inr ([''/d/x.csv''], [''/d/e''])"
proof -
  have m: "entry_text (dq @ k @ dq @ '':'' @ dq @ v @ dq @ '','')" if "plain_text k \<and> plain_text v \<and> k \<noteq> ''type'' \<and> k \<noteq> ''path''" for k v
    using that et_member by blast
  have oid: "entry_text (dq @ ''oid'' @ dq @ '':'' @ dq @ v @ dq @ '','')" if "plain_text v" for v
    using m [of "''oid''" v] that by (simp add: plain_text_def)
  have kind: "entry_text (dq @ ''kind'' @ dq @ '':'' @ dq @ ''x'' @ dq @ '','')"
    using m [of "''kind''" "''x''"] by (simp add: plain_text_def)
  have "entry_text ((dq @ ''oid'' @ dq @ '':'' @ dq @ ''7f'' @ dq @ '','') @ (dq @ ''kind'' @ dq @ '':'' @ dq @ ''x'' @ dq @ '',''))"
    by (rule et_append [OF oid kind]) (simp add: plain_text_def)
  moreover have "entry_text ([CHR 0x7B] @ (dq @ ''oid'' @ dq @ '':'' @ dq @ ''c0'' @ dq @ '','') @ [CHR 0x7D])"
    by (rule et_object [OF oid]) (simp add: plain_text_def)
  moreover have "entry_text []" "entry_text (dq @ ''oid'' @ dq @ '':'' @ dq @ ''9a'' @ dq @ '','')"
    using et_plain [of "[]"] oid [of "''9a''"] by (simp_all add: plain_text_def)
  ultimately have ok: "\<forall>(ty, mid, p, tail) \<in> set demo_entries. (ty = FILE \<or> ty = DIR) \<and> entry_text mid \<and> entry_text tail \<and> CHR 0x22 \<notin> set p"
    by (simp add: demo_entries_def)
  show ?thesis using hf_listing_roundtrip [OF ok, of "[]" "[]"] by (simp add: files_of_def dirs_of_def demo_entries_def)
qed

text \<open>
  The branch for an escaped quotation mark asks one character to be two, so it is never taken: the
  path ends at the mark, with the backslash in it, and the rest of the name is read as the entry.
\<close>

lemma escaped_quote_ends_path:
  "parse_list PathnameLabel (CHR 0x5C # CHR 0x22 # r) n f ty cur res = parse_list EntryLabel r n f ty (cur @ [CHR 0x5C]) res"
  by simp

section \<open>Listing a repository\<close>

text \<open>
  The functions of DuckDB and the settings the file system uses: splitting at a character, the
  test for S3-type paths of the HTTP parameters, and the lookup of a huggingface secret (no match, a match
  without a token, which throws, or a token).
\<close>

record hf_env =
  hv_env :: env
  hv_su :: string_util
  hv_split_char :: "string \<Rightarrow> char \<Rightarrow> string list"
  hv_base :: http_params
  hv_s3_url :: "string \<Rightarrow> bool"
  hv_token :: "string \<Rightarrow> string option option"

definition SetParams :: "hf_env \<Rightarrow> string \<Rightarrow> opener option \<Rightarrow> httpfs_params \<Rightarrow> exn + httpfs_params" where
  "SetParams e path opn p =
     (case opn of
        None \<Rightarrow> Inr p
      | Some _ \<Rightarrow>
          (case hv_token e path of
             None \<Rightarrow> Inr p
           | Some None \<Rightarrow> Inl (Exn ExInvalidInput ''Failed to fetch key 'token' from secret'' None)
           | Some (Some tok) \<Rightarrow> Inr (p\<lparr>bearer_token := tok\<rparr>)))"

text \<open>
  ListHFRequest: the state of the handlers is link_header_result and the response stream; the result
  is the response and the next next_page_url.
\<close>

definition list_response_handler :: "(string \<times> bytes, response) handler" where
  "list_response_handler r s =
     (if 400 \<le> status r then (Some (Exn ExHTTP ''HTTP GET error'' (Some r)), s)
      else if has_header r ''Link'' then (None, (header_value r ''Link'', snd s))
      else (None, s))"

definition list_content_handler :: "(string \<times> bytes, bytes) handler" where
  "list_content_handler data s = (None, (fst s, snd s @ data))"

definition hf_request_url :: "string_util \<Rightarrow> string \<Rightarrow> string \<Rightarrow> string" where
  "hf_request_url su ep next_page_url =
     (let fragment = (if su_starts_with su next_page_url ep then drop (length ep) next_page_url
                      else next_page_url)
      in ep @ (if su_starts_with su fragment ''/'' then fragment else ''/'' @ fragment))"

definition ListHFRequest :: "hf_env \<Rightarrow> hf_url \<Rightarrow> httpfs_params \<Rightarrow> string \<Rightarrow> world \<Rightarrow>
    (exn + bytes \<times> string) \<times> world" where
  "ListHFRequest e u p next_page_url w =
     (let rq = (base_request GET (hf_request_url (hv_su e) (hf_endpoint u) next_page_url) [] p)\<lparr>rq_cancellation := False\<rparr>;
          tr = e_net (hv_env e) (w_clock w) rq None
      in case run_transfer (e_err_response (hv_env e)) False list_response_handler list_content_handler
              (attempts tr) ('''', []) of
           (Inl ex, _) \<Rightarrow> (Inl ex, tick w)
         | (Inr None, _) \<Rightarrow> (Inl (Exn Undefined ''no response'' None), tick w)
         | (Inr (Some r), (link, response)) \<Rightarrow>
             (if status r \<noteq> OK_200 then (Inl (Exn ExIO ''error for HTTP GET'' None), tick w)
              else if link \<noteq> ''''
              then (case ParseNextUrlFromLinkHeader (hv_su e) (hv_split_char e) link of
                      Inl ex \<Rightarrow> (Inl ex, tick w)
                    | Inr next_url \<Rightarrow> (Inr (response, next_url), tick w))
              else (Inr (response, ''''), tick w)))"

section \<open>Glob\<close>

text \<open>The components of a key against those of a pattern; the inner loop tries every nonempty rest of the key.\<close>

fun some_rest :: "(string list \<Rightarrow> bool) \<Rightarrow> string list \<Rightarrow> bool" where
  "some_rest f [] = False"
| "some_rest f (k # ks) = (f (k # ks) \<or> some_rest f ks)"

lemma some_rest_cong [fundef_cong]:
  "ks = ks' \<Longrightarrow> (\<And>z. length z \<le> length ks' \<Longrightarrow> f z = g z) \<Longrightarrow> some_rest f ks = some_rest g ks'"
proof (induction ks arbitrary: ks')
  case (Cons k ks)
  have "some_rest f ks = some_rest g ks" by (rule Cons.IH) (use Cons.prems in auto)
  then show ?case using Cons.prems by auto
qed simp

fun Match_hf :: "(string \<Rightarrow> string \<Rightarrow> bool) \<Rightarrow> string list \<Rightarrow> string list \<Rightarrow> bool" where
  "Match_hf g (k # ks) (p # ps) =
     (if p = ''**'' then (if ps = [] then True else some_rest (\<lambda>rest. Match_hf g rest ps) (k # ks))
      else if \<not> g k p then False
      else Match_hf g ks ps)"
| "Match_hf g key pattern = (key = [] \<and> pattern = [])"

lemma Match_hf_eq: "Match_hf g key pattern = match_from g True key pattern"
proof (induction "length pattern" arbitrary: key pattern rule: less_induct)
  case less
  show ?case
  proof (cases "(key, pattern)" rule: prod.exhaust)
    case (Pair key' pattern')
    show ?thesis
    proof (cases key)
      case Nil
      then show ?thesis by (cases pattern) auto
    next
      case (Cons k ks)
      show ?thesis
      proof (cases pattern)
        case Nil
        then show ?thesis using Cons by simp
      next
        case (Cons p ps)
        have rest: "some_rest (\<lambda>z. Match_hf g z ps) zs = star_loop g True zs ps" for zs
          using less [of ps] Cons by (induction zs) simp_all
        show ?thesis using less [of ps] Cons \<open>key = k # ks\<close> rest by simp
      qed
    qed
  qed
qed

text \<open>One listing request of the loop, and the loop with the fuel left.\<close>

definition hf_fetch :: "hf_env \<Rightarrow> httpfs_params \<Rightarrow> hf_url \<Rightarrow> string \<Rightarrow> string list \<Rightarrow> string list \<Rightarrow> world \<Rightarrow>
    (exn + string \<times> string list \<times> string list) \<times> world" where
  "hf_fetch e p cur next_page_url files dirs w =
     (case ListHFRequest e cur p next_page_url w of
        (Inl ex, w1) \<Rightarrow> (Inl ex, w1)
      | (Inr (response, next_url), w1) \<Rightarrow>
          (case ParseListResult response files dirs of
             Inl ex \<Rightarrow> (Inl ex, w1)
           | Inr (files1, dirs1) \<Rightarrow> (Inr (next_url, files1, dirs1), w1)))"

fun hf_loop :: "hf_env \<Rightarrow> httpfs_params \<Rightarrow> nat \<Rightarrow> hf_url \<Rightarrow> string \<Rightarrow> string list \<Rightarrow> string list \<Rightarrow> world \<Rightarrow>
    (exn + string list) option" where
  "hf_loop e p 0 cur next_page_url files dirs w = None"
| "hf_loop e p (Suc n) cur next_page_url files dirs w =
     (if next_page_url = '''' \<and> dirs = [] then Some (Inr files)
      else
        (let (cur1, url1, dirs1) =
           (if next_page_url = ''''
            then (let c = cur\<lparr>hf_path := last dirs\<rparr> in (c, GetTreeUrl (hv_su e) c (hf_max_per_page p), butlast dirs))
            else (cur, next_page_url, dirs))
         in case hf_fetch e p cur1 url1 files dirs1 w of
              (Inl ex, _) \<Rightarrow> Some (Inl ex)
            | (Inr (next_url, files2, dirs2), w1) \<Rightarrow> hf_loop e p n cur1 next_url files2 dirs2 w1))"

definition shared_path_of :: "string \<Rightarrow> nat \<Rightarrow> string" where
  "shared_path_of path first_wildcard =
     (let shared = take first_wildcard path
      in case rfind_char shared (CHR ''/'') of None \<Rightarrow> '''' | Some i \<Rightarrow> take i shared)"

definition Glob_hf :: "hf_env \<Rightarrow> nat \<Rightarrow> opener option \<Rightarrow> string \<Rightarrow> world \<Rightarrow> (exn + string list) option" where
  "Glob_hf e n opn path w =
     (case HFUrlParse (hv_su e) path of
        Inl ex \<Rightarrow> Some (Inl ex)
      | Inr u \<Rightarrow>
          (case find_first_of (hf_path u) [CHR ''*'', CHR ''['', CHR 0x5C] of
             None \<Rightarrow> Some (Inr [path])
           | Some pos \<Rightarrow>
               (let shared = shared_path_of (hf_path u) pos;
                    pattern = su_split (hv_su e) (hf_path u) ''/''
                in case SetParams e path opn (InitializeParameters (hv_base e) (hv_s3_url e) opn path) of
                     Inl ex \<Rightarrow> Some (Inl ex)
                   | Inr p \<Rightarrow>
                       map_option (map_sum id (\<lambda>files.
                         map (\<lambda>f. GetHFUrl (u\<lparr>hf_path := f\<rparr>))
                           (filter (\<lambda>f. Match_hf (su_glob (hv_su e)) (su_split (hv_su e) f ''/'') pattern) files)))
                         (hf_loop e p n (u\<lparr>hf_path := shared\<rparr>) '''' [] [shared] w))))"

section \<open>Requests of a handle\<close>

record hff = hfh +
  hf_parsed :: hf_url

definition CreateHandle_hf :: "hf_env \<Rightarrow> opener option \<Rightarrow> file_info \<Rightarrow> open_flags \<Rightarrow> exn + hff" where
  "CreateHandle_hf e opn file fl =
     (case HFUrlParse (hv_su e) (fi_path file) of
        Inl ex \<Rightarrow> Inl ex
      | Inr u \<Rightarrow>
          (case SetParams e (fi_path file) opn (InitializeParameters (hv_base e) (hv_s3_url e) opn (fi_path file)) of
             Inl ex \<Rightarrow> Inl ex
           | Inr p \<Rightarrow> Inr (hfh.extend (new_handle file fl p) (hff.fields u))))"

definition HeadRequest_hf :: "hf_env \<Rightarrow> headers \<Rightarrow> hff \<Rightarrow> world \<Rightarrow> (exn + response option) \<times> hff \<times> world" where
  "HeadRequest_hf e hm h w = HeadRequest (hv_env e) (GetFileUrl (hv_su e) (hf_parsed h)) hm h w"

definition GetRequest_hf :: "hf_env \<Rightarrow> headers \<Rightarrow> hff \<Rightarrow> world \<Rightarrow> (exn + response option) \<times> hff \<times> world" where
  "GetRequest_hf e hm h w = GetRequest (hv_env e) (GetFileUrl (hv_su e) (hf_parsed h)) hm h w"

definition GetRangeRequest_hf :: "hf_env \<Rightarrow> headers \<Rightarrow> nat \<Rightarrow> bytes option \<Rightarrow> nat \<Rightarrow> hff \<Rightarrow> world \<Rightarrow>
    (exn + response option) \<times> bytes option \<times> hff \<times> world" where
  "GetRangeRequest_hf e hm off dst len h w =
     GetRangeRequest (hv_env e) (GetFileUrl (hv_su e) (hf_parsed h)) hm off dst len h w"

section \<open>Glob is exact\<close>

text \<open>
  A repository tree as the hub serves it: a directory has files and subdirectories, listed on a
  chain of pages that starts at its tree URL. The traversal takes the last directory first.
\<close>

datatype hf_dir = HfDir (dir_path: string) (dir_files: "string list") (dir_subs: "hf_dir list")

fun hf_files :: "hf_dir \<Rightarrow> string list" where
  "hf_files (HfDir path fs subs) = fs @ concat (map hf_files (rev subs))"

record hf_page =
  hp_files :: "string list"
  hp_dirs :: "string list"
  hp_next :: string

definition serves_hf_page :: "hf_env \<Rightarrow> httpfs_params \<Rightarrow> hf_url \<Rightarrow> string \<Rightarrow> hf_page \<Rightarrow> bool" where
  "serves_hf_page e p u url pg \<longleftrightarrow>
     (\<forall>x w. \<exists>b w1. ListHFRequest e (u\<lparr>hf_path := x\<rparr>) p url w = (Inr (b, hp_next pg), w1) \<and>
        (\<forall>fs ds. ParseListResult b fs ds = Inr (fs @ hp_files pg, ds @ hp_dirs pg)))"

fun serves_hf_pages :: "hf_env \<Rightarrow> httpfs_params \<Rightarrow> hf_url \<Rightarrow> string \<Rightarrow> hf_page list \<Rightarrow> bool" where
  "serves_hf_pages e p u url [] = False"
| "serves_hf_pages e p u url [pg] = (serves_hf_page e p u url pg \<and> hp_next pg = '''')"
| "serves_hf_pages e p u url (pg # pg2 # pgs) =
     (serves_hf_page e p u url pg \<and> hp_next pg \<noteq> '''' \<and> serves_hf_pages e p u (hp_next pg) (pg2 # pgs))"

fun serves_hf_tree :: "hf_env \<Rightarrow> httpfs_params \<Rightarrow> hf_url \<Rightarrow> hf_dir \<Rightarrow> bool" where
  "serves_hf_tree e p u (HfDir path fs subs) =
     ((\<exists>pgs. serves_hf_pages e p u (GetTreeUrl (hv_su e) (u\<lparr>hf_path := path\<rparr>) (hf_max_per_page p)) pgs \<and>
         concat (map hp_files pgs) = fs \<and> concat (map hp_dirs pgs) = map dir_path subs) \<and>
      (\<forall>d \<in> set subs. serves_hf_tree e p u d))"

text \<open>Reading the pages of one directory, from the first request on.\<close>

definition hf_visit :: "hf_env \<Rightarrow> httpfs_params \<Rightarrow> nat \<Rightarrow> hf_url \<Rightarrow> string \<Rightarrow> string list \<Rightarrow> string list \<Rightarrow> world \<Rightarrow>
    (exn + string list) option" where
  "hf_visit e p n cur url files dirs w =
     (case hf_fetch e p cur url files dirs w of
        (Inl ex, _) \<Rightarrow> Some (Inl ex)
      | (Inr (next_url, files2, dirs2), w1) \<Rightarrow> hf_loop e p n cur next_url files2 dirs2 w1)"

lemma hf_loop_visit:
  "url \<noteq> '''' \<Longrightarrow> hf_loop e p (Suc n) cur url files dirs w = hf_visit e p n cur url files dirs w"
  "hf_loop e p (Suc n) cur '''' files (dirs @ [d]) w =
     hf_visit e p n (cur\<lparr>hf_path := d\<rparr>) (GetTreeUrl (hv_su e) (cur\<lparr>hf_path := d\<rparr>) (hf_max_per_page p)) files dirs w"
  by (simp_all add: hf_visit_def Let_def)

declare hf_loop.simps(2) [simp del]

lemma hf_visit_page:
  assumes "serves_hf_page e p u url pg"
  shows "\<exists>w1. \<forall>n. hf_visit e p n (u\<lparr>hf_path := x\<rparr>) url files dirs w
     = hf_loop e p n (u\<lparr>hf_path := x\<rparr>) (hp_next pg) (files @ hp_files pg) (dirs @ hp_dirs pg) w1"
proof -
  obtain b w1 where "ListHFRequest e (u\<lparr>hf_path := x\<rparr>) p url w = (Inr (b, hp_next pg), w1)"
    and "ParseListResult b files dirs = Inr (files @ hp_files pg, dirs @ hp_dirs pg)"
    using assms unfolding serves_hf_page_def by metis
  then show ?thesis by (intro exI [of _ w1]) (simp add: hf_visit_def hf_fetch_def)
qed

lemma hf_visit_pages:
  assumes "serves_hf_pages e p u url pgs"
  shows "\<exists>m w1. \<forall>n. hf_visit e p (n + m) (u\<lparr>hf_path := x\<rparr>) url files dirs w
     = hf_loop e p n (u\<lparr>hf_path := x\<rparr>) '''' (files @ concat (map hp_files pgs)) (dirs @ concat (map hp_dirs pgs)) w1"
  using assms
proof (induction e p u url pgs arbitrary: files dirs w rule: serves_hf_pages.induct)
  case (2 e p u url pg)
  obtain w1 where "\<And>n. hf_visit e p n (u\<lparr>hf_path := x\<rparr>) url files dirs w
     = hf_loop e p n (u\<lparr>hf_path := x\<rparr>) (hp_next pg) (files @ hp_files pg) (dirs @ hp_dirs pg) w1"
    using hf_visit_page [of e p u url pg] 2 by force
  then show ?case using 2 by (intro exI [of _ 0] exI [of _ w1]) simp
next
  case (3 e p u url pg pg2 pgs)
  obtain w1 where v: "\<And>n. hf_visit e p n (u\<lparr>hf_path := x\<rparr>) url files dirs w
     = hf_loop e p n (u\<lparr>hf_path := x\<rparr>) (hp_next pg) (files @ hp_files pg) (dirs @ hp_dirs pg) w1"
    using hf_visit_page [of e p u url pg] 3 by force
  have "serves_hf_pages e p u (hp_next pg) (pg2 # pgs)" using 3(2) by simp
  from 3(1) [OF this, of "files @ hp_files pg" "dirs @ hp_dirs pg" w1] obtain m w2 where
    "\<And>n. hf_visit e p (n + m) (u\<lparr>hf_path := x\<rparr>) (hp_next pg) (files @ hp_files pg) (dirs @ hp_dirs pg) w1
      = hf_loop e p n (u\<lparr>hf_path := x\<rparr>) '''' ((files @ hp_files pg) @ concat (map hp_files (pg2 # pgs)))
          ((dirs @ hp_dirs pg) @ concat (map hp_dirs (pg2 # pgs))) w2" by blast
  then show ?case using v 3(2) by (intro exI [of _ "Suc m"] exI [of _ w2]) (simp add: hf_loop_visit(1))
qed simp

lemma hf_loop_tree:
  "serves_hf_tree e p u d \<Longrightarrow>
   \<exists>m y w1. \<forall>n. hf_loop e p (n + m) (u\<lparr>hf_path := x\<rparr>) '''' files (dirs @ [dir_path d]) w
     = hf_loop e p n (u\<lparr>hf_path := y\<rparr>) '''' (files @ hf_files d) dirs w1"
proof (induction d arbitrary: x files dirs w)
  case (HfDir path fs subs)
  obtain pgs where pgs: "serves_hf_pages e p u (GetTreeUrl (hv_su e) (u\<lparr>hf_path := path\<rparr>) (hf_max_per_page p)) pgs"
    "concat (map hp_files pgs) = fs" "concat (map hp_dirs pgs) = map dir_path subs"
    and subs: "\<forall>d \<in> set subs. serves_hf_tree e p u d" using HfDir.prems by auto
  obtain m w1 where v: "\<And>n. hf_visit e p (n + m) (u\<lparr>hf_path := path\<rparr>)
      (GetTreeUrl (hv_su e) (u\<lparr>hf_path := path\<rparr>) (hf_max_per_page p)) files dirs w
    = hf_loop e p n (u\<lparr>hf_path := path\<rparr>) '''' (files @ fs) (dirs @ map dir_path subs) w1"
    using hf_visit_pages [OF pgs(1), of path files dirs w] pgs(2,3) by auto
  have forest: "\<exists>m y w2. \<forall>n. hf_loop e p (n + m) (u\<lparr>hf_path := x\<rparr>) '''' fs0 (dirs @ map dir_path ds) w0
      = hf_loop e p n (u\<lparr>hf_path := y\<rparr>) '''' (fs0 @ concat (map hf_files (rev ds))) dirs w2"
    if "set ds \<subseteq> set subs" for ds x fs0 w0
    using that
  proof (induction ds arbitrary: x fs0 w0 rule: rev_induct)
    case Nil
    show ?case by (intro exI [of _ 0] exI [of _ x] exI [of _ w0]) simp
  next
    case (snoc d ds)
    have d: "d \<in> set subs" using snoc.prems by simp
    obtain m1 y1 w1 where a: "\<And>n. hf_loop e p (n + m1) (u\<lparr>hf_path := x\<rparr>) '''' fs0 ((dirs @ map dir_path ds) @ [dir_path d]) w0
        = hf_loop e p n (u\<lparr>hf_path := y1\<rparr>) '''' (fs0 @ hf_files d) (dirs @ map dir_path ds) w1"
      using HfDir.IH [OF d, of x fs0 "dirs @ map dir_path ds" w0] subs d by blast
    obtain m2 y2 w2 where b: "\<And>n. hf_loop e p (n + m2) (u\<lparr>hf_path := y1\<rparr>) '''' (fs0 @ hf_files d) (dirs @ map dir_path ds) w1
        = hf_loop e p n (u\<lparr>hf_path := y2\<rparr>) '''' ((fs0 @ hf_files d) @ concat (map hf_files (rev ds))) dirs w2"
      using snoc.IH [of y1 "fs0 @ hf_files d" w1] snoc.prems by auto
    show ?case
      by (intro exI [of _ "m2 + m1"] exI [of _ y2] exI [of _ w2]) (use a b in \<open>simp add: add.assoc [symmetric]\<close>)
  qed
  obtain m2 y w2 where f: "\<And>n. hf_loop e p (n + m2) (u\<lparr>hf_path := path\<rparr>) '''' (files @ fs) (dirs @ map dir_path subs) w1
      = hf_loop e p n (u\<lparr>hf_path := y\<rparr>) '''' ((files @ fs) @ concat (map hf_files (rev subs))) dirs w2"
    using forest [of subs path "files @ fs" w1] by auto
  have "hf_loop e p (n + (m2 + Suc m)) (u\<lparr>hf_path := x\<rparr>) '''' files (dirs @ [path]) w
      = hf_loop e p n (u\<lparr>hf_path := y\<rparr>) '''' (files @ hf_files (HfDir path fs subs)) dirs w2" for n
  proof -
    have "hf_loop e p (n + (m2 + Suc m)) (u\<lparr>hf_path := x\<rparr>) '''' files (dirs @ [path]) w
        = hf_loop e p (Suc ((n + m2) + m)) (u\<lparr>hf_path := x\<rparr>) '''' files (dirs @ [path]) w"
      by (simp add: add.assoc [symmetric])
    then show ?thesis unfolding hf_loop_visit(2) using v [of "n + m2"] f [of n] by simp
  qed
  then show ?case by (intro exI [of _ "m2 + Suc m"] exI [of _ y] exI [of _ w2]) simp
qed

text \<open>
  C11: Glob over a repository is exact: for a pattern with a wildcard and a repository whose directories are
  served on chains of pages, the traversal ends and returns the URLs of exactly those files
  below the constant part of the pattern that match its specification, each once, in
  the order of the traversal.
\<close>

theorem hf_glob_is_exact:
  assumes "HFUrlParse (hv_su e) path = Inr u"
    and "find_first_of (hf_path u) [CHR ''*'', CHR ''['', CHR 0x5C] = Some pos"
    and "SetParams e path opn (InitializeParameters (hv_base e) (hv_s3_url e) opn path) = Inr p"
    and "serves_hf_tree e p u d" and "dir_path d = shared_path_of (hf_path u) pos"
  shows "\<exists>n. \<forall>k. Glob_hf e (k + n) opn path w = Some (Inr
     (map (\<lambda>f. GetHFUrl (u\<lparr>hf_path := f\<rparr>))
       (filter (\<lambda>f. glob_match (su_glob (hv_su e)) (su_split (hv_su e) f ''/'') (su_split (hv_su e) (hf_path u) ''/''))
         (hf_files d))))"
proof -
  obtain m y w1 where "\<And>n. hf_loop e p (n + m) (u\<lparr>hf_path := dir_path d\<rparr>) '''' [] ([] @ [dir_path d]) w
     = hf_loop e p n (u\<lparr>hf_path := y\<rparr>) '''' ([] @ hf_files d) [] w1"
    using hf_loop_tree [OF assms(4), of "dir_path d" "[]" "[]" w] by blast
  from this [of "Suc k" for k] have "hf_loop e p (k + Suc m) (u\<lparr>hf_path := dir_path d\<rparr>) '''' [] [dir_path d] w
      = Some (Inr (hf_files d))" for k
    by (simp add: hf_loop.simps(2))
  then show ?thesis
    using assms(1-3,5) by (intro exI [of _ "Suc m"]) (simp add: Glob_hf_def Let_def Match_hf_eq match_from_glob)
qed

text \<open>A hub with a directory on two pages and one subdirectory.\<close>

definition hub_entry :: "hf_entry \<Rightarrow> string \<Rightarrow> hf_entry \<times> string \<times> string \<times> string" where
  "hub_entry ty p = (ty, [], p, [])"

definition hub_net :: transport where
  "hub_net k rq cl =
     (let (hs, es) =
        (if rq_url rq = ''https://huggingface.co/api/datasets/me/set/tree/v1/d''
         then ([''Link'' \<mapsto> ''<https://huggingface.co/p2>;rel='' @ dq @ ''next'' @ dq],
               [hub_entry DIR ''d/e'', hub_entry FILE ''d/x1''])
         else if rq_url rq = ''https://huggingface.co/p2'' then (Map.empty, [hub_entry FILE ''d/y''])
         else (Map.empty, [hub_entry FILE ''d/e/x2'']));
          r = demo_response 200 hs
      in \<lparr>attempts = [Attempt [RespHead r, Data (render_hf_list es)] (Inr (Some r))], client_after = cl\<rparr>)"

definition hub :: hf_env where
  "hub = \<lparr>hv_env = (demo_env [] [])\<lparr>e_net := hub_net\<rparr>, hv_su = ref_su, hv_split_char = (\<lambda>s c. split_on c [] s),
     hv_base = demo_base, hv_s3_url = (\<lambda>_. False), hv_token = (\<lambda>_. None)\<rparr>"

definition hub_tree :: hf_dir where
  "hub_tree = HfDir ''/d'' [''/d/x1'', ''/d/y''] [HfDir ''/d/e'' [''/d/e/x2''] []]"

lemma hub_listing:
  "\<forall>e \<in> set es. \<exists>ty p. e = hub_entry ty p \<and> (ty = FILE \<or> ty = DIR) \<and> CHR 0x22 \<notin> set p \<Longrightarrow>
   ParseListResult (render_hf_list es) fs ds = Inr (fs @ files_of es, ds @ dirs_of es)"
  by (rule hf_listing_roundtrip) (auto simp: hub_entry_def et_plain plain_text_def)

lemma hub_link: "ParseNextUrlFromLinkHeader ref_su (\<lambda>s c. split_on c [] s)
    (''<https://huggingface.co/p2>;rel='' @ dq @ ''next'' @ dq) = Inr ''https://huggingface.co/p2''"
proof -
  have "yields (ParseNextUrlFromLinkHeader ref_su (\<lambda>s c. split_on c [] s)
    (''<https://huggingface.co/p2>;rel='' @ dq @ ''next'' @ dq)) ''https://huggingface.co/p2''" by code_simp
  then show ?thesis by (simp only: yields_iff)
qed

lemma hub_tree_urls:
  "GetTreeUrl ref_su (demo_hf\<lparr>hf_path := ''/d''\<rparr>) 0 = ''https://huggingface.co/api/datasets/me/set/tree/v1/d''"
  "GetTreeUrl ref_su (demo_hf\<lparr>hf_path := ''/d/e''\<rparr>) 0 = ''https://huggingface.co/api/datasets/me/set/tree/v1/d/e''"
  by code_simp+

lemma hub_pages:
  "serves_hf_page hub p demo_hf ''https://huggingface.co/api/datasets/me/set/tree/v1/d''
     \<lparr>hp_files = [''/d/x1''], hp_dirs = [''/d/e''], hp_next = ''https://huggingface.co/p2''\<rparr>"
  "serves_hf_page hub p demo_hf ''https://huggingface.co/p2'' \<lparr>hp_files = [''/d/y''], hp_dirs = [], hp_next = []\<rparr>"
  "serves_hf_page hub p demo_hf ''https://huggingface.co/api/datasets/me/set/tree/v1/d/e''
     \<lparr>hp_files = [''/d/e/x2''], hp_dirs = [], hp_next = []\<rparr>"
  unfolding serves_hf_page_def
  by (simp_all add: ListHFRequest_def hub_def hf_request_url_def demo_hf_def starts_with_ok hub_net_def run_transfer_def
      run_attempt_def list_response_handler_def list_content_handler_def demo_response_def has_header_def header_value_def
      base_request_def hub_link [simplified] Let_def hub_listing files_of_def dirs_of_def hub_entry_def)

theorem hf_glob_is_exact_witness:
  "\<exists>n. Glob_hf hub n None ''hf://datasets/me/set@v1/d/x*'' demo_world = Some (Inr [''hf://datasets/me/set@v1/d/x1''])"
proof -
  let ?p = "new_httpfs_params demo_base"
  have su: "hv_su hub = ref_su" by (simp add: hub_def)
  have max: "hf_max_per_page ?p = 0" by (simp add: new_httpfs_params_def http_params.defs httpfs_params.defs)
  have "serves_hf_tree hub ?p demo_hf hub_tree"
    unfolding hub_tree_def serves_hf_tree.simps su max
    by (intro conjI ballI exI [of _ "[\<lparr>hp_files = [''/d/x1''], hp_dirs = [''/d/e''], hp_next = ''https://huggingface.co/p2''\<rparr>,
          \<lparr>hp_files = [''/d/y''], hp_dirs = [], hp_next = []\<rparr>]"])
      (use hub_pages [of ?p] in \<open>auto simp: su max hub_tree_urls
        intro!: exI [of _ "[\<lparr>hp_files = [''/d/e/x2''], hp_dirs = [], hp_next = []\<rparr>]"]\<close>)
  moreover have "find_first_of (hf_path demo_hf) [CHR ''*'', CHR ''['', CHR 0x5C] = Some 4"
    "dir_path hub_tree = shared_path_of (hf_path demo_hf) 4" by code_simp+
  moreover have "SetParams hub path None (InitializeParameters (hv_base hub) (hv_s3_url hub) None path) = Inr ?p" for path
    by (simp add: SetParams_def InitializeParameters_def hub_def)
  ultimately obtain n where "Glob_hf hub (0 + n) None ''hf://datasets/me/set@v1/d/x*'' demo_world = Some (Inr
     (map (\<lambda>f. GetHFUrl (demo_hf\<lparr>hf_path := f\<rparr>))
       (filter (\<lambda>f. glob_match (su_glob ref_su) (su_split ref_su f ''/'') (su_split ref_su (hf_path demo_hf) ''/''))
         (hf_files hub_tree))))"
    using hf_glob_is_exact [of hub, unfolded su, OF demo_hf_parse] by blast
  moreover have "map (\<lambda>f. GetHFUrl (demo_hf\<lparr>hf_path := f\<rparr>))
       (filter (\<lambda>f. Match (su_glob ref_su) True (su_split ref_su f ''/'') (su_split ref_su (hf_path demo_hf) ''/''))
         (hf_files hub_tree)) = [''hf://datasets/me/set@v1/d/x1'']" by code_simp
  ultimately show ?thesis by (auto simp: match_from_glob)
qed

text \<open>
  A listing is not reset between the attempts of a request: an answer that breaks off leaves its
  bytes in front of those of the retry.
\<close>

lemma retried_listing_appends:
  "run_attempts list_response_handler list_content_handler
     [Attempt [Data partial] (Inl ex), Attempt [Data whole] (Inr (Some r))] ([], []) = (Inr (Some r), ([], partial @ whole))"
  by (simp add: run_attempt_def list_content_handler_def)

end
