(* ===== verification/CurlDispatcher.thy ===== *)
theory CurlDispatcher
  imports Prelude
begin

text \<open>
  The process-wide curl_multi dispatcher (src/httpfs_curl_multi_dispatcher.cpp): workers that submit
  a transfer and wait, the dispatcher thread that runs it, and the shutdown, as atomic moves
  of a state that may be interleaved in any order. A move is what runs under one lock.
\<close>

section \<open>State\<close>

type_synonym curl_code = nat

abbreviation (input) CURLE_OK :: curl_code where "CURLE_OK \<equiv> 0"
abbreviation (input) CURLE_ABORTED_BY_CALLBACK :: curl_code where "CURLE_ABORTED_BY_CALLBACK \<equiv> 42"

text \<open>
  A call of Submit, by number: its PendingTransfer lives on the stack of the caller, from the
  call (Waiting: done is false; Signalled: done is true) until it returned.
\<close>

datatype call = NotCalled | Waiting | Signalled curl_code | Returned curl_code

text \<open>
  Where the dispatcher thread is: the test of its loop, the drain of the queue, the transfers of to_add
  still to be added, the harvest of completions, the poll, and FailAllPending with what is left
  of the queue and of the transfers in flight.
\<close>

datatype phase = AtTest | AtDrain | Adding "nat list" | Harvesting | Polling
  | FailStart | FailQueued "nat list" | FailInFlight "nat list" | Ended

text \<open>
  d_multi are the transfers whose handle is attached to the multi handle. d_misused records an
  access to the PendingTransfer of a call that is not waiting: a second signal, or a use after the call returned.
\<close>

record dispatcher =
  d_calls :: "nat \<Rightarrow> call"
  d_rejecting :: bool
  d_stopping :: bool
  d_queue :: "nat list"
  d_in_flight :: "nat list"
  d_multi :: "nat list"
  d_phase :: phase
  d_misused :: bool

definition new_dispatcher :: dispatcher where
  "new_dispatcher = \<lparr>d_calls = (\<lambda>_. NotCalled), d_rejecting = False, d_stopping = False, d_queue = [],
     d_in_flight = [], d_multi = [], d_phase = AtTest, d_misused = False\<rparr>"

section \<open>Moves\<close>

definition SignalPending :: "nat \<Rightarrow> curl_code \<Rightarrow> dispatcher \<Rightarrow> dispatcher" where
  "SignalPending i result s =
     (if d_calls s i = Waiting then s\<lparr>d_calls := (d_calls s)(i := Signalled result)\<rparr>
      else s\<lparr>d_misused := True\<rparr>)"

text \<open>Submit up to its wait, and its return once done is set.\<close>

definition Submit :: "nat \<Rightarrow> dispatcher \<Rightarrow> dispatcher option" where
  "Submit i s =
     (if d_calls s i \<noteq> NotCalled then None
      else if d_rejecting s then Some (s\<lparr>d_calls := (d_calls s)(i := Returned CURLE_ABORTED_BY_CALLBACK)\<rparr>)
      else Some (s\<lparr>d_calls := (d_calls s)(i := Waiting), d_queue := d_queue s @ [i]\<rparr>))"

definition Submit_return :: "nat \<Rightarrow> dispatcher \<Rightarrow> dispatcher option" where
  "Submit_return i s =
     (case d_calls s i of
        Signalled c \<Rightarrow> Some (s\<lparr>d_calls := (d_calls s)(i := Returned c)\<rparr>)
      | _ \<Rightarrow> None)"

text \<open>The critical section of the destructor; the joins and the cleanup behind it have no effect here.\<close>

definition Shutdown :: "dispatcher \<Rightarrow> dispatcher option" where
  "Shutdown s = (if d_stopping s then None else Some (s\<lparr>d_rejecting := True, d_stopping := True\<rparr>))"

text \<open>
  What happens in a step of the dispatcher thread: adding a handle may fail (curl's return code,
  which the code ignores) and recording it may throw, which leaves LoopOnce; a completion is a message
  for an attached transfer with its result.
\<close>

datatype outcome = Plain | AddFails | RecordThrows | Completion nat curl_code

definition Loop_test :: "dispatcher \<Rightarrow> dispatcher" where
  "Loop_test s = s\<lparr>d_phase := (if d_stopping s then FailStart else AtDrain)\<rparr>"

definition LoopOnce_drain :: "dispatcher \<Rightarrow> dispatcher" where
  "LoopOnce_drain s = s\<lparr>d_queue := [], d_phase := Adding (d_queue s)\<rparr>"

definition LoopOnce_add :: "outcome \<Rightarrow> nat list \<Rightarrow> dispatcher \<Rightarrow> dispatcher option" where
  "LoopOnce_add out to_add s =
     (case (to_add, out) of
        ([], Plain) \<Rightarrow> Some (s\<lparr>d_phase := Harvesting\<rparr>)
      | (i # rest, Plain) \<Rightarrow>
          Some (s\<lparr>d_multi := d_multi s @ [i], d_in_flight := d_in_flight s @ [i], d_phase := Adding rest\<rparr>)
      | (i # rest, AddFails) \<Rightarrow> Some (s\<lparr>d_in_flight := d_in_flight s @ [i], d_phase := Adding rest\<rparr>)
      | (i # rest, RecordThrows) \<Rightarrow> Some (s\<lparr>d_multi := d_multi s @ [i], d_phase := AtTest\<rparr>)
      | _ \<Rightarrow> None)"

definition LoopOnce_harvest :: "outcome \<Rightarrow> dispatcher \<Rightarrow> dispatcher option" where
  "LoopOnce_harvest out s =
     (case out of
        Completion i result \<Rightarrow>
          (if i \<in> set (d_multi s)
           then Some (SignalPending i result
             (s\<lparr>d_multi := filter (\<lambda>j. j \<noteq> i) (d_multi s), d_in_flight := remove1 i (d_in_flight s)\<rparr>))
           else None)
      | Plain \<Rightarrow> Some (s\<lparr>d_phase := Polling\<rparr>)
      | _ \<Rightarrow> None)"

definition FailAllPending_queue :: "dispatcher \<Rightarrow> dispatcher" where
  "FailAllPending_queue s = s\<lparr>d_queue := [], d_phase := FailQueued (d_queue s)\<rparr>"

definition FailAllPending_queued :: "nat list \<Rightarrow> dispatcher \<Rightarrow> dispatcher" where
  "FailAllPending_queued queued s =
     (case queued of
        [] \<Rightarrow> s\<lparr>d_phase := FailInFlight (d_in_flight s)\<rparr>
      | i # rest \<Rightarrow> SignalPending i CURLE_ABORTED_BY_CALLBACK (s\<lparr>d_phase := FailQueued rest\<rparr>))"

definition FailAllPending_in_flight :: "nat list \<Rightarrow> dispatcher \<Rightarrow> dispatcher" where
  "FailAllPending_in_flight left s =
     (case left of
        [] \<Rightarrow> s\<lparr>d_in_flight := [], d_phase := Ended\<rparr>
      | i # rest \<Rightarrow> SignalPending i CURLE_ABORTED_BY_CALLBACK
          (s\<lparr>d_multi := filter (\<lambda>j. j \<noteq> i) (d_multi s), d_phase := FailInFlight rest\<rparr>))"

text \<open>One step of the dispatcher thread: Loop, LoopOnce and FailAllPending in their order.\<close>

definition Loop :: "outcome \<Rightarrow> dispatcher \<Rightarrow> dispatcher option" where
  "Loop out s =
     (case d_phase s of
        Adding to_add \<Rightarrow> LoopOnce_add out to_add s
      | Harvesting \<Rightarrow> LoopOnce_harvest out s
      | ph \<Rightarrow>
          (if out \<noteq> Plain then None
           else case ph of
               AtTest \<Rightarrow> Some (Loop_test s)
             | AtDrain \<Rightarrow> Some (LoopOnce_drain s)
             | Polling \<Rightarrow> Some (s\<lparr>d_phase := AtTest\<rparr>)
             | FailStart \<Rightarrow> Some (FailAllPending_queue s)
             | FailQueued queued \<Rightarrow> Some (FailAllPending_queued queued s)
             | FailInFlight left \<Rightarrow> Some (FailAllPending_in_flight left s)
             | _ \<Rightarrow> None))"

datatype d_move = SubmitMove nat | ReturnMove nat | ShutdownMove | LoopMove outcome

fun d_step :: "d_move \<Rightarrow> dispatcher \<Rightarrow> dispatcher option" where
  "d_step (SubmitMove i) s = Submit i s"
| "d_step (ReturnMove i) s = Submit_return i s"
| "d_step ShutdownMove s = Shutdown s"
| "d_step (LoopMove out) s = Loop out s"

fun d_run :: "d_move list \<Rightarrow> dispatcher \<Rightarrow> dispatcher option" where
  "d_run [] s = Some s"
| "d_run (m # ms) s = (case d_step m s of None \<Rightarrow> None | Some s1 \<Rightarrow> d_run ms s1)"

text \<open>The states of interleavings in which recording a transfer never throws.\<close>

inductive d_reach :: "dispatcher \<Rightarrow> bool" where
  d_init: "d_reach new_dispatcher"
| d_more: "d_reach s \<Longrightarrow> d_step m s = Some s1 \<Longrightarrow> m \<noteq> LoopMove RecordThrows \<Longrightarrow> d_reach s1"

section \<open>Every waiting call is held\<close>

text \<open>The calls the dispatcher still has to signal, and the ones that may be attached.\<close>

fun flying :: "phase \<Rightarrow> nat list \<Rightarrow> nat list" where
  "flying (FailInFlight left) in_flight = left"
| "flying ph in_flight = in_flight"

fun between :: "phase \<Rightarrow> nat list" where
  "between (Adding xs) = xs"
| "between (FailQueued xs) = xs"
| "between ph = []"

definition held :: "dispatcher \<Rightarrow> nat list" where
  "held s = d_queue s @ between (d_phase s) @ flying (d_phase s) (d_in_flight s)"

fun failing :: "phase \<Rightarrow> bool" where
  "failing FailStart = True"
| "failing (FailQueued xs) = True"
| "failing (FailInFlight xs) = True"
| "failing Ended = True"
| "failing ph = False"

definition d_ok :: "dispatcher \<Rightarrow> bool" where
  "d_ok s \<longleftrightarrow> distinct (held s) \<and> (\<forall>i. d_calls s i = Waiting \<longleftrightarrow> i \<in> set (held s)) \<and>
     set (d_multi s) \<subseteq> set (flying (d_phase s) (d_in_flight s)) \<and> \<not> d_misused s \<and>
     d_rejecting s = d_stopping s \<and> (failing (d_phase s) \<longrightarrow> d_stopping s) \<and>
     (failing (d_phase s) \<and> d_phase s \<noteq> FailStart \<longrightarrow> d_queue s = []) \<and>
     (d_phase s = Ended \<longrightarrow> d_in_flight s = [])"

lemmas move_defs = Submit_def Submit_return_def Shutdown_def Loop_def Loop_test_def LoopOnce_drain_def LoopOnce_add_def
  LoopOnce_harvest_def FailAllPending_queue_def FailAllPending_queued_def FailAllPending_in_flight_def SignalPending_def

lemma d_ok_calls:
  assumes "d_ok s" and "d_calls s i \<noteq> Waiting" and "c \<noteq> Waiting"
  shows "d_ok (s\<lparr>d_calls := (d_calls s)(i := c)\<rparr>)"
proof -
  have "i \<notin> set (held s)" using assms(1,2) by (simp add: d_ok_def)
  then show ?thesis using assms(1,3) by (simp add: d_ok_def held_def)
qed

lemma d_ok_queued:
  assumes "d_ok s" and "d_calls s i = NotCalled" and "\<not> d_rejecting s"
  shows "d_ok (s\<lparr>d_calls := (d_calls s)(i := Waiting), d_queue := d_queue s @ [i]\<rparr>)"
proof -
  have w: "d_calls s i = Waiting \<longleftrightarrow> i \<in> set (held s)" and f: "\<not> failing (d_phase s)"
    using assms(1,3) unfolding d_ok_def by blast+
  have "i \<notin> set (held s)" using w assms(2) by simp
  then show ?thesis using assms(1) f by (auto simp: d_ok_def held_def)
qed

lemma Submit_ok: "d_ok s \<Longrightarrow> Submit i s = Some s1 \<Longrightarrow> d_ok s1"
  using d_ok_calls [of s i "Returned CURLE_ABORTED_BY_CALLBACK"] d_ok_queued [of s i]
  by (simp add: Submit_def split: if_splits)

lemma Submit_return_ok: "d_ok s \<Longrightarrow> Submit_return i s = Some s1 \<Longrightarrow> d_ok s1"
  using d_ok_calls [of s i] by (cases "d_calls s i") (auto simp: Submit_return_def)

lemma Shutdown_ok: "d_ok s \<Longrightarrow> Shutdown s = Some s1 \<Longrightarrow> d_ok s1"
  by (auto simp: d_ok_def held_def Shutdown_def split: if_splits)

text \<open>A held call is waiting, so signalling it is sound and takes it off the held ones.\<close>

lemma harvest_ok:
  assumes "d_ok s" and "d_phase s = Harvesting" and "LoopOnce_harvest out s = Some s1"
  shows "d_ok s1"
proof (cases out)
  case (Completion i c)
  let ?fl = "remove1 i (d_in_flight s)"
  have i: "i \<in> set (d_multi s)" using assms(3) Completion by (auto simp: LoopOnce_harvest_def split: if_splits)
  have d: "distinct (d_queue s)" "distinct (d_in_flight s)" "set (d_queue s) \<inter> set (d_in_flight s) = {}"
    and w: "\<And>j. d_calls s j = Waiting \<longleftrightarrow> j \<in> set (d_queue s) \<or> j \<in> set (d_in_flight s)"
    and sub: "set (d_multi s) \<subseteq> set (d_in_flight s)"
    using assms(1,2) by (simp_all add: d_ok_def held_def)
  have fl: "i \<in> set (d_in_flight s)" "set ?fl = set (d_in_flight s) - {i}" "distinct ?fl"
    using d i sub by (auto simp: set_remove1_eq)
  then have "i \<notin> set (d_queue s)" "d_calls s i = Waiting" using d w by auto
  then have s1: "s1 = s\<lparr>d_multi := filter (\<lambda>j. j \<noteq> i) (d_multi s), d_in_flight := ?fl,
      d_calls := (d_calls s)(i := Signalled c)\<rparr>"
    using assms(3) Completion i by (simp add: LoopOnce_harvest_def SignalPending_def)
  have "d_calls s1 j = Waiting \<longleftrightarrow> j \<in> set (held s1)" for j
    using w [of j] fl \<open>i \<notin> set (d_queue s)\<close> assms(2) by (cases "j = i") (simp_all add: s1 held_def)
  moreover have "distinct (held s1)" using d fl assms(2) by (auto simp: s1 held_def)
  moreover have "set (d_multi s1) \<subseteq> set (flying (d_phase s1) (d_in_flight s1))"
    using sub fl assms(2) by (auto simp: s1)
  ultimately show ?thesis using assms(1,2) by (simp add: d_ok_def s1)
qed (use assms in \<open>auto simp: d_ok_def held_def LoopOnce_harvest_def\<close>)

lemma add_ok:
  assumes "d_ok s" and "d_phase s = Adding xs" and "LoopOnce_add out xs s = Some s1" and "out \<noteq> RecordThrows"
  shows "d_ok s1"
proof (cases xs)
  case Nil
  then show ?thesis using assms by (auto simp: d_ok_def held_def LoopOnce_add_def split: outcome.splits)
next
  case (Cons i rest)
  then show ?thesis using assms by (cases out) (auto simp: d_ok_def held_def LoopOnce_add_def)
qed

lemma fail_queued_ok: "d_ok s \<Longrightarrow> d_phase s = FailQueued xs \<Longrightarrow> d_ok (FailAllPending_queued xs s)"
  by (cases xs) (auto simp: d_ok_def held_def FailAllPending_queued_def SignalPending_def)

lemma fail_in_flight_ok: "d_ok s \<Longrightarrow> d_phase s = FailInFlight xs \<Longrightarrow> d_ok (FailAllPending_in_flight xs s)"
  by (cases xs) (auto simp: d_ok_def held_def FailAllPending_in_flight_def SignalPending_def)

lemma Loop_ok:
  assumes "d_ok s" and "Loop out s = Some s1" and "out \<noteq> RecordThrows"
  shows "d_ok s1"
proof (cases "d_phase s")
  case (Adding xs)
  then show ?thesis using assms add_ok by (simp add: Loop_def)
next
  case Harvesting
  then show ?thesis using assms harvest_ok by (simp add: Loop_def)
next
  case (FailQueued xs)
  then show ?thesis using assms fail_queued_ok [OF assms(1)] by (auto simp: Loop_def split: if_splits)
next
  case (FailInFlight xs)
  then show ?thesis using assms fail_in_flight_ok [OF assms(1)] by (auto simp: Loop_def split: if_splits)
qed (use assms in \<open>auto simp: Loop_def Loop_test_def LoopOnce_drain_def FailAllPending_queue_def d_ok_def held_def split: if_splits\<close>)

lemma d_step_ok: "d_ok s \<Longrightarrow> d_step m s = Some s1 \<Longrightarrow> m \<noteq> LoopMove RecordThrows \<Longrightarrow> d_ok s1"
  by (cases m) (auto intro: Submit_ok Submit_return_ok Shutdown_ok Loop_ok)

lemma d_reach_ok: "d_reach s \<Longrightarrow> d_ok s"
proof (induction rule: d_reach.induct)
  case d_init
  show ?case by (simp add: d_ok_def held_def new_dispatcher_def)
next
  case (d_more s m s1)
  then show ?case using d_step_ok by blast
qed


text \<open>Reachability of the end of a run.\<close>

lemma d_run_reach:
  "d_reach s \<Longrightarrow> d_run ms s = Some s1 \<Longrightarrow> LoopMove RecordThrows \<notin> set ms \<Longrightarrow> d_reach s1"
proof (induction ms arbitrary: s)
  case (Cons m ms)
  obtain s2 where s2: "d_step m s = Some s2" "d_run ms s2 = Some s1"
    using Cons.prems(2) by (auto split: option.splits)
  have "d_reach s2" using d_more [OF Cons.prems(1) s2(1)] Cons.prems(3) by auto
  then show ?case using Cons.IH s2(2) Cons.prems(3) by simp
qed simp

text \<open>Three calls: one completes, one is in flight and one is queued when the shutdown begins.\<close>

definition demo_moves :: "d_move list" where
  "demo_moves = [SubmitMove 0, SubmitMove 1, LoopMove Plain, LoopMove Plain, LoopMove Plain, LoopMove Plain, LoopMove Plain,
     LoopMove (Completion 0 CURLE_OK), ReturnMove 0, SubmitMove 2, ShutdownMove, SubmitMove 3]"

definition demo_state :: dispatcher where
  "demo_state = the (d_run demo_moves new_dispatcher)"

lemma demo_state_run: "d_run demo_moves new_dispatcher = Some demo_state"
  by (simp add: demo_state_def demo_moves_def new_dispatcher_def move_defs)

lemma demo_state_reach: "d_reach demo_state"
  by (rule d_run_reach [OF d_init demo_state_run]) (simp add: demo_moves_def)

lemma demo_state_calls:
  "d_calls demo_state 0 = Returned CURLE_OK \<and> d_calls demo_state 1 = Waiting \<and> d_calls demo_state 2 = Waiting \<and>
   d_calls demo_state 3 = Returned CURLE_ABORTED_BY_CALLBACK \<and> d_stopping demo_state \<and> d_phase demo_state = Harvesting"
  by (simp add: demo_state_def demo_moves_def new_dispatcher_def move_defs)


section \<open>Shutdown\<close>

text \<open>The steps of the dispatcher thread that are left once stopping is set.\<close>

fun work :: "phase \<Rightarrow> nat \<Rightarrow> nat \<Rightarrow> nat \<Rightarrow> nat" where
  "work AtDrain nq nf nm = 3 * nq + nm + nf + 8"
| "work (Adding xs) nq nf nm = 3 * length xs + nm + nq + nf + 7"
| "work Harvesting nq nf nm = nm + nq + nf + 6"
| "work Polling nq nf nm = nq + nf + 5"
| "work AtTest nq nf nm = nq + nf + 4"
| "work FailStart nq nf nm = nq + nf + 3"
| "work (FailQueued xs) nq nf nm = length xs + nf + 2"
| "work (FailInFlight xs) nq nf nm = length xs + 1"
| "work Ended nq nf nm = 0"

definition d_work :: "dispatcher \<Rightarrow> nat" where
  "d_work s = work (d_phase s) (length (d_queue s)) (length (d_in_flight s)) (length (d_multi s))"

lemma SignalPending_same [simp]:
  "d_queue (SignalPending i c s) = d_queue s" "d_in_flight (SignalPending i c s) = d_in_flight s"
  "d_multi (SignalPending i c s) = d_multi s" "d_phase (SignalPending i c s) = d_phase s"
  "d_stopping (SignalPending i c s) = d_stopping s" "d_rejecting (SignalPending i c s) = d_rejecting s"
  by (simp_all add: SignalPending_def)

lemma filter_less: "i \<in> set xs \<Longrightarrow> length (filter (\<lambda>j. j \<noteq> i) xs) < length xs"
  by (rule length_filter_less) auto

lemma Loop_works:
  assumes "d_stopping s" and "Loop out s = Some s1"
  shows "d_work s1 < d_work s \<and> d_stopping s1 \<and> d_rejecting s1 = d_rejecting s"
proof (cases "d_phase s")
  case (Adding xs)
  then show ?thesis using assms
    by (cases xs; cases out) (auto simp: Loop_def LoopOnce_add_def d_work_def)
next
  case Harvesting
  show ?thesis
  proof (cases out)
    case (Completion i c)
    then have "i \<in> set (d_multi s)" using assms(2) Harvesting by (auto simp: Loop_def LoopOnce_harvest_def split: if_splits)
    moreover have "length (remove1 i (d_in_flight s)) \<le> length (d_in_flight s)" by (simp add: length_remove1)
    ultimately show ?thesis using assms Harvesting Completion filter_less [of i "d_multi s"]
      by (auto simp: Loop_def LoopOnce_harvest_def d_work_def)
  qed (use assms Harvesting in \<open>auto simp: Loop_def LoopOnce_harvest_def d_work_def\<close>)
next
  case (FailQueued xs)
  then show ?thesis using assms
    by (cases xs) (auto simp: Loop_def FailAllPending_queued_def d_work_def split: if_splits)
next
  case (FailInFlight xs)
  then show ?thesis using assms
    by (cases xs) (auto simp: Loop_def FailAllPending_in_flight_def d_work_def split: if_splits)
qed (use assms in \<open>auto simp: Loop_def Loop_test_def LoopOnce_drain_def FailAllPending_queue_def d_work_def split: if_splits\<close>)

lemma step_works:
  assumes "d_stopping s" and "d_rejecting s" and "d_step m s = Some s1"
  shows "d_stopping s1 \<and> d_rejecting s1 \<and> d_work s1 + (case m of LoopMove _ \<Rightarrow> 1 | _ \<Rightarrow> 0) \<le> d_work s"
proof (cases m)
  case (LoopMove out)
  then show ?thesis using Loop_works [OF assms(1), of out s1] assms by simp
qed (use assms in \<open>auto simp: Submit_def Submit_return_def Shutdown_def d_work_def split: if_splits call.splits\<close>)

definition loop_moves :: "d_move list \<Rightarrow> nat" where
  "loop_moves ms = length (filter (\<lambda>m. case m of LoopMove _ \<Rightarrow> True | _ \<Rightarrow> False) ms)"

lemma run_works:
  "d_stopping s \<Longrightarrow> d_rejecting s \<Longrightarrow> d_run ms s = Some s1 \<Longrightarrow>
   d_stopping s1 \<and> d_rejecting s1 \<and> d_work s1 + loop_moves ms \<le> d_work s"
proof (induction ms arbitrary: s)
  case (Cons m ms)
  obtain s2 where s2: "d_step m s = Some s2" "d_run ms s2 = Some s1"
    using Cons.prems(3) by (auto split: option.splits)
  have "d_stopping s2" "d_rejecting s2" and w: "d_work s2 + (case m of LoopMove _ \<Rightarrow> 1 | _ \<Rightarrow> 0) \<le> d_work s"
    using step_works [OF Cons.prems(1,2) s2(1)] by blast+
  then have "d_stopping s1 \<and> d_rejecting s1 \<and> d_work s1 + loop_moves ms \<le> d_work s2" using Cons.IH s2(2) by blast
  then show ?case using w by (cases m) (simp_all add: loop_moves_def)
qed (simp add: loop_moves_def)

lemma Loop_enabled: "d_phase s \<noteq> Ended \<Longrightarrow> Loop Plain s \<noteq> None"
  by (cases "d_phase s") (auto simp: Loop_def LoopOnce_add_def LoopOnce_harvest_def split: list.splits)


text \<open>The dispatcher of the example after its remaining steps.\<close>

definition demo_end :: dispatcher where
  "demo_end = the (d_run (replicate 8 (LoopMove Plain)) demo_state)"

lemma demo_end_run: "d_run (replicate 8 (LoopMove Plain)) demo_state = Some demo_end \<and> d_phase demo_end = Ended \<and>
    d_stopping demo_end \<and> d_calls demo_end 4 = NotCalled \<and> d_work demo_state = 9"
  by (simp add: demo_end_def demo_state_def demo_moves_def new_dispatcher_def move_defs eval_nat_numeral d_work_def)


section \<open>A transfer that is lost\<close>

text \<open>
  When recording a transfer throws, the rest of to_add goes with it: these calls are in no list and
  attached nowhere, and nothing that can happen later signals them.
\<close>

definition lost :: "nat \<Rightarrow> dispatcher \<Rightarrow> bool" where
  "lost i s \<longleftrightarrow> d_calls s i = Waiting \<and> i \<notin> set (held s) \<and> i \<notin> set (d_in_flight s) \<and> i \<notin> set (d_multi s)"

lemma lost_step:
  assumes "lost i s" and "d_step m s = Some s1"
  shows "lost i s1"
proof (cases m)
  case (SubmitMove j)
  then show ?thesis using assms by (auto simp: lost_def held_def Submit_def split: if_splits)
next
  case (ReturnMove j)
  then show ?thesis using assms by (auto simp: lost_def held_def Submit_return_def split: call.splits)
next
  case ShutdownMove
  then show ?thesis using assms by (auto simp: lost_def held_def Shutdown_def split: if_splits)
next
  case (LoopMove out)
  have run: "Loop out s = Some s1" using assms(2) LoopMove by simp
  show ?thesis
  proof (cases "d_phase s")
    case (Adding xs)
    then show ?thesis using assms(1) run
      by (cases xs; cases out) (auto simp: lost_def held_def Loop_def LoopOnce_add_def)
  next
    case Harvesting
    then show ?thesis using assms(1) run
      by (cases out) (auto simp: lost_def held_def Loop_def LoopOnce_harvest_def SignalPending_def dest: notin_set_remove1
          split: if_splits)
  next
    case (FailQueued xs)
    then show ?thesis using assms(1) run
      by (cases xs) (auto simp: lost_def held_def Loop_def FailAllPending_queued_def SignalPending_def split: if_splits)
  next
    case (FailInFlight xs)
    then show ?thesis using assms(1) run
      by (cases xs) (auto simp: lost_def held_def Loop_def FailAllPending_in_flight_def SignalPending_def split: if_splits)
  qed (use assms(1) run in \<open>auto simp: lost_def held_def Loop_def Loop_test_def LoopOnce_drain_def FailAllPending_queue_def
      split: if_splits\<close>)
qed

lemma lost_run: "lost i s \<Longrightarrow> d_run ms s = Some s1 \<Longrightarrow> d_calls s1 i = Waiting"
proof (induction ms arbitrary: s)
  case (Cons m ms)
  then show ?case using lost_step [of i s m] by (auto split: option.splits)
qed (simp add: lost_def)

lemma throwing_record_loses_calls:
  "\<exists>s. d_run [SubmitMove 0, SubmitMove 1, LoopMove Plain, LoopMove Plain, LoopMove RecordThrows] new_dispatcher = Some s \<and> lost 1 s"
  by (simp add: new_dispatcher_def move_defs lost_def held_def)

text \<open>
  The result of curl_multi_add_handle is not looked at: a transfer whose handle was not attached
  gets no completion, so its call waits until the shutdown.
\<close>

definition unattached :: "nat \<Rightarrow> dispatcher \<Rightarrow> bool" where
  "unattached i s \<longleftrightarrow> d_calls s i = Waiting \<and> i \<notin> set (d_queue s) \<and> i \<notin> set (between (d_phase s)) \<and>
     i \<notin> set (d_multi s) \<and> \<not> d_stopping s \<and> \<not> failing (d_phase s)"

lemma unattached_step:
  assumes "unattached i s" and "d_step m s = Some s1" and "m \<noteq> ShutdownMove"
  shows "unattached i s1"
proof (cases m)
  case (SubmitMove j)
  then show ?thesis using assms by (auto simp: unattached_def Submit_def split: if_splits)
next
  case (ReturnMove j)
  then show ?thesis using assms by (auto simp: unattached_def Submit_return_def split: call.splits)
next
  case ShutdownMove
  then show ?thesis using assms(3) by simp
next
  case (LoopMove out)
  have run: "Loop out s = Some s1" using assms(2) LoopMove by simp
  show ?thesis
  proof (cases "d_phase s")
    case (Adding xs)
    then show ?thesis using assms(1) run
      by (cases xs; cases out) (auto simp: unattached_def Loop_def LoopOnce_add_def)
  next
    case Harvesting
    then show ?thesis using assms(1) run
      by (cases out) (auto simp: unattached_def Loop_def LoopOnce_harvest_def SignalPending_def split: if_splits)
  qed (use assms(1) run in \<open>auto simp: unattached_def Loop_def Loop_test_def LoopOnce_drain_def split: if_splits\<close>)
qed

lemma unattached_waits:
  "unattached i s \<Longrightarrow> d_run ms s = Some s1 \<Longrightarrow> ShutdownMove \<notin> set ms \<Longrightarrow> d_calls s1 i = Waiting"
proof (induction ms arbitrary: s)
  case (Cons m ms)
  then show ?case using unattached_step [of i s m] by (auto split: option.splits)
qed (simp add: unattached_def)

lemma failed_add_waits:
  "\<exists>s. d_run [SubmitMove 0, LoopMove Plain, LoopMove Plain, LoopMove AddFails] new_dispatcher = Some s \<and> unattached 0 s"
  by (simp add: new_dispatcher_def move_defs unattached_def)

end
