(* ===== verification/HttpClient.thy ===== *)
theory HttpClient
  imports HttpServer
begin

text \<open>
  What the two HTTP clients share (src/httpfs_curl_client.cpp, src/httpfs_httplib_client.cpp):
  the request they are given, the header container of DuckDB, the headers they send, and the
  functions of DuckDB they use, as parameters.
\<close>

section \<open>Headers of DuckDB and the client environment\<close>

text \<open>
  An HTTPHeaders object by the writes made to it. cv_lookup and cv_entries are its lookup and its
  entries after Insert of a list of pairs, cv_header_map its entries after the writes of a request. cv_response
  is the constructor HTTPResponse(status); cv_cert_exists tells whether stat succeeds on a path.
\<close>

type_synonym kvs = "(string \<times> string) list"

record client_env =
  cv_su :: string_util
  cv_lookup :: "kvs \<Rightarrow> string \<Rightarrow> string option"
  cv_entries :: "kvs \<Rightarrow> kvs"
  cv_header_map :: "headers \<Rightarrow> kvs"
  cv_response :: "nat \<Rightarrow> response"
  cv_status_message :: "nat \<Rightarrow> string"
  cv_strerror :: "nat \<Rightarrow> string"
  cv_cert_exists :: "string \<Rightarrow> bool"

abbreviation lower_case :: "string \<Rightarrow> string" where
  "lower_case s \<equiv> map lower_char s"

lemma lower_twice: "lower_char (lower_char c) = lower_char c"
  by (auto simp: lower_char_def Let_def of_char_of)

text \<open>
  The documented behaviour: names are compared without regard to case, a name is found exactly if it
  was inserted, the entries are those of the lookup; a new response is empty and successful.
\<close>

definition headers_ok :: "client_env \<Rightarrow> bool" where
  "headers_ok e \<longleftrightarrow>
     (\<forall>l k v. cv_lookup e l k = Some v \<longrightarrow> (\<exists>k1. (k1, v) \<in> set l \<and> lower_case k1 = lower_case k)) \<and>
     (\<forall>l k. cv_lookup e l k = None \<longrightarrow> (\<forall>k1 v. (k1, v) \<in> set l \<longrightarrow> lower_case k1 \<noteq> lower_case k)) \<and>
     (\<forall>l k k1. lower_case k = lower_case k1 \<longrightarrow> cv_lookup e l k = cv_lookup e l k1) \<and>
     (\<forall>l k v. (k, v) \<in> set (cv_entries e l) \<longrightarrow> (k, v) \<in> set l \<and> cv_lookup e l k = Some v) \<and>
     (\<forall>l k v. cv_lookup e l k = Some v \<longrightarrow> (\<exists>k1. (k1, v) \<in> set (cv_entries e l) \<and> lower_case k1 = lower_case k))"

definition client_ok :: "client_env \<Rightarrow> bool" where
  "client_ok e \<longleftrightarrow> lower_ok (cv_su e) \<and> headers_ok e \<and>
     (\<forall>st. status (cv_response e st) = st \<and> body (cv_response e st) = [] \<and>
        request_error (cv_response e st) = [] \<and> success (cv_response e st) \<and> \<not> cancelled (cv_response e st))"

lemma lookup_Some: "headers_ok e \<Longrightarrow> cv_lookup e l k = Some v \<Longrightarrow> \<exists>k1. (k1, v) \<in> set l \<and> lower_case k1 = lower_case k"
  and lookup_None: "headers_ok e \<Longrightarrow> cv_lookup e l k = None \<Longrightarrow> (k1, v) \<in> set l \<Longrightarrow> lower_case k1 \<noteq> lower_case k"
  and lookup_case: "headers_ok e \<Longrightarrow> lower_case k = lower_case k1 \<Longrightarrow> cv_lookup e l k = cv_lookup e l k1"
  and entries_lookup: "headers_ok e \<Longrightarrow> (k, v) \<in> set (cv_entries e l) \<Longrightarrow> cv_lookup e l k = Some v"
  and lookup_entries: "headers_ok e \<Longrightarrow> cv_lookup e l k = Some v \<Longrightarrow>
      \<exists>k1. (k1, v) \<in> set (cv_entries e l) \<and> lower_case k1 = lower_case k"
  unfolding headers_ok_def by blast+

text \<open>Entries copied over by their name, with a possible change of the case of their names.\<close>

lemma lookup_copied:
  assumes ok: "headers_ok e" and f: "\<And>k. lower_case (f k) = lower_case k" and p: "\<And>k1. lower_case k1 = lower_case k \<Longrightarrow> p k1 = p k"
  shows "cv_lookup e (map (\<lambda>(k, v). (f k, v)) (filter (\<lambda>(k, v). p k) (cv_entries e l))) k
    = (if p k then cv_lookup e l k else None)"
proof -
  let ?xs = "map (\<lambda>(k, v). (f k, v)) (filter (\<lambda>(k, v). p k) (cv_entries e l))"
  have mem: "p k \<and> cv_lookup e l k = Some v" if found: "cv_lookup e ?xs k = Some v" for v
  proof -
    obtain k2 where k2: "(k2, v) \<in> set ?xs" "lower_case k2 = lower_case k" using lookup_Some [OF ok found] by blast
    then obtain k1 where k1: "(k1, v) \<in> set (cv_entries e l)" "p k1" "k2 = f k1" by auto
    have "lower_case k1 = lower_case k" using k1(3) k2(2) f by simp
    then show ?thesis using entries_lookup [OF ok k1(1)] k1(2) lookup_case [OF ok, of k1 k] p [of k1] by simp
  qed
  show ?thesis
  proof (cases "cv_lookup e ?xs k")
    case (Some v)
    then show ?thesis using mem by simp
  next
    case None
    have "cv_lookup e l k = None" if "p k"
    proof (rule ccontr)
      assume "cv_lookup e l k \<noteq> None"
      then obtain v where v: "cv_lookup e l k = Some v" by blast
      obtain k1 where k1: "(k1, v) \<in> set (cv_entries e l)" "lower_case k1 = lower_case k"
        using lookup_entries [OF ok v] by blast
      have "(f k1, v) \<in> set ?xs" using k1 p [OF k1(2)] that by force
      then have "lower_case (f k1) \<noteq> lower_case k" by (rule lookup_None [OF ok None])
      then show False using f k1(2) by simp
    qed
    then show ?thesis using None by simp
  qed
qed

text \<open>A concrete container that keeps the first value of a name.\<close>

fun first_value :: "kvs \<Rightarrow> string \<Rightarrow> string option" where
  "first_value [] k = None"
| "first_value ((k1, v) # l) k = (if lower_case k1 = lower_case k then Some v else first_value l k)"

fun first_entries :: "kvs \<Rightarrow> kvs" where
  "first_entries [] = []"
| "first_entries ((k, v) # l) = (k, v) # filter (\<lambda>(k1, _). lower_case k1 \<noteq> lower_case k) (first_entries l)"

lemma first_value_Some: "first_value l k = Some v \<Longrightarrow> \<exists>k1. (k1, v) \<in> set l \<and> lower_case k1 = lower_case k"
  by (induction l k rule: first_value.induct) (auto split: if_splits)

lemma first_value_None: "first_value l k = None \<Longrightarrow> (k1, v) \<in> set l \<Longrightarrow> lower_case k1 \<noteq> lower_case k"
  by (induction l k rule: first_value.induct) (auto split: if_splits)

lemma first_value_case: "lower_case k = lower_case k1 \<Longrightarrow> first_value l k = first_value l k1"
  by (induction l) auto

lemma first_entries_Some: "(k, v) \<in> set (first_entries l) \<Longrightarrow> (k, v) \<in> set l \<and> first_value l k = Some v"
  by (induction l arbitrary: k v rule: first_entries.induct) auto

lemma first_value_entries:
  "first_value l k = Some v \<Longrightarrow> \<exists>k1. (k1, v) \<in> set (first_entries l) \<and> lower_case k1 = lower_case k"
proof (induction l k rule: first_value.induct)
  case (2 k1 v1 l k)
  show ?case
  proof (cases "lower_case k1 = lower_case k")
    case False
    then obtain k2 where "(k2, v) \<in> set (first_entries l)" "lower_case k2 = lower_case k" using 2 by auto
    then show ?thesis using False by (intro exI [of _ k2]) auto
  qed (use 2 in auto)
qed simp

definition apply_ops :: "headers \<Rightarrow> kvs" where
  "apply_ops hm = first_entries (rev (map (\<lambda>x. case x of HSet k v \<Rightarrow> (k, v) | HInsert k v \<Rightarrow> (k, v)) hm))"

definition demo_client_env :: client_env where
  "demo_client_env = \<lparr>cv_su = ref_su, cv_lookup = first_value, cv_entries = first_entries, cv_header_map = apply_ops,
     cv_response = (\<lambda>st. \<lparr>status = st, resp_url = [], body = [], reason = [], request_error = [], success = True,
        cancelled = False, hdrs = Map.empty\<rparr>),
     cv_status_message = (\<lambda>_. ''status''), cv_strerror = (\<lambda>_. ''error''),
     cv_cert_exists = (\<lambda>p. p = ''/etc/ssl/cert.pem'')\<rparr>"

lemma demo_client_ok: "client_ok demo_client_env"
  unfolding client_ok_def headers_ok_def demo_client_env_def
  by (simp add: first_value_Some first_value_None first_entries_Some first_value_entries) (blast intro: first_value_case dest: first_value_None)

section \<open>The request a client is given\<close>

text \<open>BaseRequest with its derived classes; cr_cancellation tells whether a cancellation flag came with it.\<close>

record client_request =
  cr_method :: rq_method
  cr_url :: string
  cr_path :: string
  cr_headers :: headers
  cr_params :: httpfs_params
  cr_body :: bytes
  cr_content_type :: string
  cr_post_as_get :: bool
  cr_cancellation :: bool

fun method_name :: "rq_method \<Rightarrow> string" where
  "method_name GET = ''GET''"
| "method_name HEAD = ''HEAD''"
| "method_name PUT = ''PUT''"
| "method_name DELETE = ''DELETE''"
| "method_name POST = ''POST''"

abbreviation quoted :: "string \<Rightarrow> string" where
  "quoted s \<equiv> [CHR 0x27] @ s @ [CHR 0x27]"

definition client_user_agent :: "httpfs_params \<Rightarrow> headers \<Rightarrow> headers" where
  "client_user_agent p hm = (if user_agent p \<noteq> '''' then hm @ [HInsert ''User-Agent'' (user_agent p)] else hm)"

definition is_accept_encoding :: "string_util \<Rightarrow> string \<Rightarrow> bool" where
  "is_accept_encoding su name \<longleftrightarrow> su_lower su name = ''accept-encoding''"

definition has_name :: "string \<Rightarrow> kvs \<Rightarrow> bool" where
  "has_name name l \<longleftrightarrow> (\<exists>(k, v) \<in> set l. lower_case k = lower_case name)"

end
