(* ===== verification/CurlClient.thy ===== *)
theory CurlClient
  imports HttpClient
begin

text \<open>
  HTTPFSCurlClient (src/httpfs_curl_client.cpp): the options it sets on a curl handle, the header and
  write callbacks, the five requests and the responses made from what curl received. The
  handle is the options last written to it; curl itself is a function from these to a transfer.
\<close>

section \<open>The curl handle\<close>

text \<open>
  The options the code sets, unset ones at curl's defaults. e_sink is the RequestInfo the
  header and write callbacks point at. e_how is the kind of request, which several options choose as
  curl documents them: the last of HTTPGET, NOBODY, POST and POSTFIELDS (which implies POST, also when it is
  reset to a null pointer) decides.
\<close>

datatype request_kind = Kind_Get | Kind_Head | Kind_Post

record easy =
  e_bearer :: "string option"
  e_cainfo :: "string option"
  e_forbid_reuse :: bool
  e_verify_peer :: bool
  e_verify_host :: nat
  e_connect_timeout :: nat
  e_timeout :: nat
  e_low_speed_limit :: nat
  e_low_speed_time :: nat
  e_http_version :: string
  e_verbose :: bool
  e_follow :: bool
  e_sink :: nat
  e_proxy :: "string option"
  e_proxy_user :: "string option"
  e_proxy_password :: "string option"
  e_multi :: bool
  e_how :: request_kind
  e_custom :: "string option"
  e_postfields :: "bytes option"
  e_postfieldsize :: nat
  e_target :: "string \<times> string"
  e_http_headers :: "string list"
  e_accept_encoding :: "string option"
  e_xfer :: bool

text \<open>The constructor of CURLHandle; curl_easy_init failing is left out.\<close>

definition CURLHandle :: "string \<Rightarrow> string \<Rightarrow> easy" where
  "CURLHandle token cert_path =
     \<lparr>e_bearer = (if token \<noteq> '''' then Some token else None),
      e_cainfo = (if cert_path \<noteq> '''' then Some cert_path else None),
      e_forbid_reuse = False, e_verify_peer = True, e_verify_host = 2, e_connect_timeout = 300, e_timeout = 0,
      e_low_speed_limit = 0, e_low_speed_time = 0, e_http_version = ''2TLS'', e_verbose = False, e_follow = False,
      e_sink = 0, e_proxy = None, e_proxy_user = None, e_proxy_password = None, e_multi = False, e_how = Kind_Get,
      e_custom = None, e_postfields = None, e_postfieldsize = 0,
      e_target = ('''', ''''), e_http_headers = [], e_accept_encoding = None, e_xfer = False\<rparr>"

definition certFileLocations :: "string list" where
  "certFileLocations =
     [''/etc/ssl/certs/ca-certificates.crt'', ''/etc/pki/ca-trust/extracted/pem/tls-ca-bundle.pem'',
      ''/etc/pki/tls/certs/ca-bundle.crt'', ''/etc/ssl/ca-bundle.pem'', ''/etc/ssl/cert.pem'']"

definition SelectCURLCertPath :: "(string \<Rightarrow> bool) \<Rightarrow> string" where
  "SelectCURLCertPath exists_file =
     (case filter exists_file certFileLocations of [] \<Rightarrow> '''' | caFile # _ \<Rightarrow> caFile)"

section \<open>The client\<close>

text \<open>
  RequestInfo: the response headers of each response in the chain of redirects, the body, and whether an
  identity encoding was demanded. cc_info numbers the object the client owns, cc_next_info the next one.
\<close>

record request_info =
  ri_url :: string
  ri_body :: bytes
  ri_code :: nat
  ri_headers :: "kvs list"
  ri_identity_only :: bool

definition new_request_info :: request_info where
  "new_request_info = \<lparr>ri_url = '''', ri_body = [], ri_code = 0, ri_headers = [], ri_identity_only = False\<rparr>"

record curl_client =
  cc_easy :: "easy option"
  cc_base :: string
  cc_token :: string
  cc_cert :: string
  cc_info :: nat
  cc_next_info :: nat
  cc_request :: request_info
  cc_state :: bool

fun NormalizePathToBeAdded :: "string \<Rightarrow> string" where
  "NormalizePathToBeAdded (a # b # c # cs) =
     (if (a = CHR ''/'' \<or> a = CHR ''.'') \<and> b = CHR ''/'' then NormalizePathToBeAdded (b # c # cs) else a # b # c # cs)"
| "NormalizePathToBeAdded s = s"

text \<open>The options of Initialize behind the choice of the handle; an unknown http_version throws half way.\<close>

definition http_version_option :: "string \<Rightarrow> string option" where
  "http_version_option v =
     (if v = ''1.1'' then Some ''1_1''
      else if v = ''2.0'' \<or> v = ''2'' then Some ''2_0''
      else if v \<noteq> ''auto'' \<and> v \<noteq> '''' then None
      else Some ''2TLS'')"

definition set_options :: "httpfs_params \<Rightarrow> nat \<Rightarrow> string \<Rightarrow> easy \<Rightarrow> easy" where
  "set_options p info version h =
     (let verify = (if override_verify_ssl p then verify_ssl p else enable_curl_server_cert_verification p);
          h1 = h\<lparr>e_forbid_reuse := \<not> keep_alive p, e_verify_peer := verify, e_verify_host := (if verify then 2 else 0),
            e_connect_timeout := timeout p, e_timeout := 0, e_low_speed_limit := 1024, e_low_speed_time := timeout p,
            e_http_version := version, e_verbose := curl_verbose p, e_multi := http2_multiplex p,
            e_follow := follow_location p, e_sink := info, e_proxy := None, e_proxy_user := None, e_proxy_password := None\<rparr>
      in if http_proxy p = '''' then h1
         else (let h2 = h1\<lparr>e_proxy := Some (http_proxy p @ '':'' @ to_string (http_proxy_port p))\<rparr>
               in if http_proxy_username p = '''' then h2
                  else h2\<lparr>e_proxy_user := Some (http_proxy_username p), e_proxy_password := Some (http_proxy_password p)\<rparr>))"

definition Initialize_curl :: "client_env \<Rightarrow> httpfs_params \<Rightarrow> curl_client \<Rightarrow> exn + curl_client" where
  "Initialize_curl e p c =
     (let c1 = c\<lparr>cc_state := prm_state p\<rparr>;
          make = (cc_easy c1 = None \<or> cc_token c1 \<noteq> bearer_token p \<or> cc_cert c1 \<noteq> ca_cert_file p);
          h = (if make
               then CURLHandle (bearer_token p)
                 (if ca_cert_file p = '''' then SelectCURLCertPath (cv_cert_exists e) else ca_cert_file p)
               else the (cc_easy c1));
          c2 = (if make then c1\<lparr>cc_token := bearer_token p, cc_cert := ca_cert_file p\<rparr> else c1);
          c3 = c2\<lparr>cc_info := cc_next_info c2, cc_next_info := Suc (cc_next_info c2), cc_request := new_request_info\<rparr>
      in case http_version_option (http_version p) of
           None \<Rightarrow> Inl (Exn ExInvalidInput (''Unknown http_version '' @ quoted (http_version p) @ '' (expected '' @ quoted ''auto'' @ '', '' @ quoted ''1.1'' @ '', or '' @ quoted ''2.0'' @ '')'') None)
         | Some version \<Rightarrow> Inr (c3\<lparr>cc_easy := Some (set_options p (cc_info c3) version h)\<rparr>))"

definition HTTPFSCurlClient :: "client_env \<Rightarrow> httpfs_params \<Rightarrow> string \<Rightarrow> exn + curl_client" where
  "HTTPFSCurlClient e p proto_host_port =
     Initialize_curl e p \<lparr>cc_easy = None, cc_base = NormalizePathToBeAdded proto_host_port, cc_token = '''', cc_cert = '''',
       cc_info = 0, cc_next_info = 1, cc_request = new_request_info, cc_state = False\<rparr>"

text \<open>Cleanup replaces the RequestInfo; the handle still points at the old one.\<close>

definition Cleanup_curl :: "curl_client \<Rightarrow> curl_client" where
  "Cleanup_curl c = c\<lparr>cc_info := cc_next_info c, cc_next_info := Suc (cc_next_info c), cc_request := new_request_info\<rparr>"

section \<open>Callbacks\<close>

definition trim_line :: "string \<Rightarrow> string" where
  "trim_line s =
     (if s \<noteq> [] \<and> last s = CHR 0x0A
      then (let t = butlast s in if t \<noteq> [] \<and> last t = CHR 0x0D then butlast t else t) else s)"

text \<open>
  RequestHeaderCallback on one header line. part2.at(0) throws for an empty value, and back() of an
  empty vector is undefined; both leave a callback that C code called.
\<close>

definition RequestHeaderCallback :: "client_env \<Rightarrow> string \<Rightarrow> kvs list \<Rightarrow> exn + kvs list" where
  "RequestHeaderCallback e contents collection =
     (let header = trim_line contents;
          collection1 = (if prefix ''HTTP/'' header then collection @ [[(''__RESPONSE_STATUS__'', header)]] else collection)
      in case str_find header '':'' 0 of
           None \<Rightarrow> Inr collection1
         | Some colonPos \<Rightarrow>
             (let part1 = substr header 0 colonPos; part2 = drop (colonPos + 1) header
              in if part2 = [] then Inl (Exn Undefined ''std::out_of_range thrown through curl'' None)
                 else if collection1 = [] then Inl (Exn Undefined ''back of an empty vector'' None)
                 else Inr (butlast collection1 @ [last collection1 @
                   [(su_lower (cv_su e) part1, if hd part2 = CHR '' '' then tl part2 else part2)]])))"

fun header_lines :: "client_env \<Rightarrow> string list \<Rightarrow> kvs list \<Rightarrow> exn + kvs list" where
  "header_lines e [] collection = Inr collection"
| "header_lines e (l # ls) collection =
     (case RequestHeaderCallback e l collection of Inl ex \<Rightarrow> Inl ex | Inr c \<Rightarrow> header_lines e ls c)"

definition RequestWriteCallback :: "bytes \<Rightarrow> bytes \<Rightarrow> bytes" where
  "RequestWriteCallback contents str = str @ contents"

text \<open>
  What curl does with a handle: its result code, the response code, the header lines and the chunks of
  the body it delivers to the callbacks, and the cancellation flag when it returns.
\<close>

record wire =
  wr_code :: nat
  wr_status :: nat
  wr_lines :: "string list"
  wr_data :: "bytes list"
  wr_flag :: bool

abbreviation (input) OK_CODE :: nat where "OK_CODE \<equiv> 0"
abbreviation (input) ABORTED_BY_CALLBACK :: nat where "ABORTED_BY_CALLBACK \<equiv> 42"

text \<open>CancelXferInfo, as the flag of the request: a set flag makes curl abort the transfer.\<close>

definition CancelXferInfo :: "bool option \<Rightarrow> nat" where
  "CancelXferInfo flag = (if flag = Some True then 1 else 0)"

text \<open>curl_easy_getinfo for the response code goes into a uint16_t.\<close>

definition run_wire :: "client_env \<Rightarrow> wire \<Rightarrow> curl_client \<Rightarrow> exn + curl_client" where
  "run_wire e w c =
     (case cc_easy c of
        None \<Rightarrow> Inl (Exn Undefined ''no handle'' None)
      | Some h \<Rightarrow>
          (if e_sink h \<noteq> cc_info c then Inl (Exn Undefined ''use of a freed RequestInfo'' None)
           else
             (case header_lines e (wr_lines w) (ri_headers (cc_request c)) of
                Inl ex \<Rightarrow> Inl ex
              | Inr hs \<Rightarrow>
                  Inr (c\<lparr>cc_request := (cc_request c)\<lparr>ri_headers := hs,
                    ri_body := fold RequestWriteCallback (wr_data w) (ri_body (cc_request c)),
                    ri_code := wr_status w mod 65536\<rparr>\<rparr>))))"

section \<open>Requests\<close>

abbreviation (input) on_easy :: "(easy \<Rightarrow> easy) \<Rightarrow> curl_client \<Rightarrow> curl_client" where
  "on_easy f c \<equiv> c\<lparr>cc_easy := map_option f (cc_easy c)\<rparr>"

definition ResetRequestInfo :: "curl_client \<Rightarrow> curl_client" where
  "ResetRequestInfo c = on_easy (\<lambda>h. h\<lparr>e_xfer := False\<rparr>) (c\<lparr>cc_request := new_request_info\<rparr>)"

definition RequestIsRangeRequest :: "client_env \<Rightarrow> headers \<Rightarrow> httpfs_params \<Rightarrow> bool" where
  "RequestIsRangeRequest e hm p \<longleftrightarrow>
     has_name ''Range'' (cv_header_map e hm) \<or> (\<exists>(k, v) \<in> set (extra_headers p). su_lower (cv_su e) k = ''range'')"

definition TransformHeadersCurl :: "client_env \<Rightarrow> headers \<Rightarrow> httpfs_params \<Rightarrow> string list" where
  "TransformHeadersCurl e hm p =
     (let text = map (\<lambda>(k, v). k @ '': '' @ v) \<circ> filter (\<lambda>(k, v). \<not> is_accept_encoding (cv_su e) k)
      in text (cv_header_map e hm) @ (if pre_merged_headers p then [] else text (extra_headers p)))"

definition RequireIdentityResponse :: "curl_client \<Rightarrow> curl_client" where
  "RequireIdentityResponse c =
     on_easy (\<lambda>h. h\<lparr>e_accept_encoding := Some ''identity''\<rparr>) (c\<lparr>cc_request := (cc_request c)\<lparr>ri_identity_only := True\<rparr>\<rparr>)"

definition AllowCompressedResponse :: "bool \<Rightarrow> curl_client \<Rightarrow> curl_client" where
  "AllowCompressedResponse has_range_header c =
     (if has_range_header then RequireIdentityResponse c
      else on_easy (\<lambda>h. h\<lparr>e_accept_encoding := Some ''''\<rparr>) (c\<lparr>cc_request := (cc_request c)\<lparr>ri_identity_only := False\<rparr>\<rparr>))"

definition ArmCancellation :: "bool \<Rightarrow> easy \<Rightarrow> easy" where
  "ArmCancellation cancellation h = (if cancellation then h\<lparr>e_xfer := True\<rparr> else h)"

text \<open>The options that choose the kind of a request.\<close>

definition setopt_nobody :: "bool \<Rightarrow> easy \<Rightarrow> easy" where
  "setopt_nobody on h = (if on then h\<lparr>e_how := Kind_Head\<rparr> else if e_how h = Kind_Head then h\<lparr>e_how := Kind_Get\<rparr> else h)"

definition setopt_httpget :: "bool \<Rightarrow> easy \<Rightarrow> easy" where
  "setopt_httpget on h = (if on then h\<lparr>e_how := Kind_Get\<rparr> else h)"

definition setopt_post :: "bool \<Rightarrow> easy \<Rightarrow> easy" where
  "setopt_post on h = h\<lparr>e_how := (if on then Kind_Post else Kind_Get)\<rparr>"

definition setopt_postfields :: "bytes option \<Rightarrow> nat \<Rightarrow> easy \<Rightarrow> easy" where
  "setopt_postfields d n h = h\<lparr>e_how := Kind_Post, e_postfields := d, e_postfieldsize := n\<rparr>"

lemmas setopt_defs = setopt_nobody_def setopt_httpget_def setopt_post_def setopt_postfields_def

text \<open>The options of a method, and what it resets when the transfer is over.\<close>

fun method_options :: "client_request \<Rightarrow> rq_method \<Rightarrow> easy \<Rightarrow> easy" where
  "method_options rq GET h = setopt_httpget True (setopt_nobody False h)"
| "method_options rq HEAD h = setopt_httpget False (setopt_nobody True h)"
| "method_options rq PUT h = setopt_postfields (Some (cr_body rq)) (length (cr_body rq)) (h\<lparr>e_custom := Some ''PUT''\<rparr>)"
| "method_options rq DELETE h = h\<lparr>e_custom := Some ''DELETE''\<rparr>"
| "method_options rq POST h =
     setopt_postfields (Some (cr_body rq)) (length (cr_body rq))
       (if cr_post_as_get rq then h\<lparr>e_custom := Some ''GET''\<rparr> else setopt_post True h)"

fun method_resets :: "rq_method \<Rightarrow> easy \<Rightarrow> easy" where
  "method_resets GET h = h"
| "method_resets HEAD h = setopt_httpget True (setopt_nobody False h)"
| "method_resets PUT h = setopt_postfields None 0 (h\<lparr>e_custom := None\<rparr>)"
| "method_resets DELETE h = h\<lparr>e_custom := None\<rparr>"
| "method_resets POST h = setopt_post False (setopt_postfields None 0 (h\<lparr>e_custom := None\<rparr>))"

text \<open>The header list of a request: PUT adds its content type, POST a default one if there is none.\<close>

definition curl_headers :: "client_env \<Rightarrow> client_request \<Rightarrow> string list" where
  "curl_headers e rq =
     (let hm = client_user_agent (cr_params rq) (cr_headers rq);
          hs = TransformHeadersCurl e hm (cr_params rq)
      in case cr_method rq of
           PUT \<Rightarrow> hs @ [''Content-Type: '' @ cr_content_type rq]
         | POST \<Rightarrow> (if has_name ''Content-Type'' (cv_header_map e hm) then hs
                     else hs @ [''Content-Type: application/octet-stream''])
         | _ \<Rightarrow> hs)"

text \<open>The client when curl is called, and after the resets.\<close>

definition before_execute :: "client_env \<Rightarrow> client_request \<Rightarrow> curl_client \<Rightarrow> curl_client" where
  "before_execute e rq c =
     (let c1 = ResetRequestInfo c;
          range = RequestIsRangeRequest e (client_user_agent (cr_params rq) (cr_headers rq)) (cr_params rq);
          c2 = (if cr_method rq = HEAD then RequireIdentityResponse c1 else AllowCompressedResponse range c1);
          c3 = c2\<lparr>cc_request := (cc_request c2)\<lparr>ri_url := cr_url rq\<rparr>\<rparr>
      in on_easy (\<lambda>h. ArmCancellation (cr_cancellation rq)
           ((method_options rq (cr_method rq) h)\<lparr>e_target := (cc_base c3, NormalizePathToBeAdded (cr_path rq)),
              e_http_headers := curl_headers e rq\<rparr>)) c3)"

definition after_execute :: "rq_method \<Rightarrow> curl_client \<Rightarrow> curl_client" where
  "after_execute m c = on_easy (method_resets m) c"

definition curl_count :: "client_request \<Rightarrow> bool \<Rightarrow> http_state \<Rightarrow> http_state" where
  "curl_count rq counted st =
     (if \<not> counted then st
      else case cr_method rq of
          GET \<Rightarrow> st\<lparr>get_count := get_count st + 1\<rparr>
        | HEAD \<Rightarrow> st\<lparr>head_count := head_count st + 1\<rparr>
        | DELETE \<Rightarrow> st\<lparr>delete_count := delete_count st + 1\<rparr>
        | PUT \<Rightarrow> st\<lparr>put_count := put_count st + 1, total_bytes_sent := total_bytes_sent st + length (cr_body rq)\<rparr>
        | POST \<Rightarrow> st\<lparr>post_count := post_count st + 1, total_bytes_sent := total_bytes_sent st + length (cr_body rq)\<rparr>)"

section \<open>Responses\<close>

definition CheckCancelled :: "client_env \<Rightarrow> wire \<Rightarrow> client_request \<Rightarrow> string \<Rightarrow> response option" where
  "CheckCancelled e w rq url =
     (if wr_code w = ABORTED_BY_CALLBACK \<and> cr_cancellation rq \<and> wr_flag w
      then Some ((cv_response e INVALID)\<lparr>cancelled := True, request_error := ''HTTP '' @ method_name (cr_method rq) @ '' request was cancelled'', resp_url := url\<rparr>)
      else None)"

definition last_headers :: "request_info \<Rightarrow> kvs" where
  "last_headers i = (if ri_headers i = [] then [] else last (ri_headers i))"

definition content_encoding :: "client_env \<Rightarrow> request_info \<Rightarrow> string option" where
  "content_encoding e i = (if ri_headers i = [] then None else cv_lookup e (last (ri_headers i)) ''Content-Encoding'')"

definition RejectIfContentEncodingViolation :: "client_env \<Rightarrow> request_info \<Rightarrow> response option" where
  "RejectIfContentEncodingViolation e i =
     (if \<not> ri_identity_only i then None
      else case content_encoding e i of
          None \<Rightarrow> None
        | Some v \<Rightarrow>
            (if su_lower (cv_su e) v = ''identity'' then None
             else Some ((cv_response e INVALID)\<lparr>request_error := ''Server returned Content-Encoding '' @ quoted v @
                      '' but we requested identity; refusing to deliver non-identity-encoded bytes.'',
                    resp_url := ri_url i\<rparr>)))"

definition body_was_decoded :: "client_env \<Rightarrow> request_info \<Rightarrow> bool" where
  "body_was_decoded e i \<longleftrightarrow>
     (case content_encoding e i of None \<Rightarrow> False
      | Some v \<Rightarrow> (let ce = su_lower (cv_su e) v in ce \<noteq> '''' \<and> ce \<noteq> ''identity''))"

text \<open>TransformResponseCurl; the headers are those of the last response, less the debugging entry.\<close>

definition kept_header :: "client_env \<Rightarrow> bool \<Rightarrow> string \<Rightarrow> bool" where
  "kept_header e decoded k \<longleftrightarrow> k \<noteq> ''__RESPONSE_STATUS__'' \<and>
     \<not> (decoded \<and> (su_lower (cv_su e) k = ''content-length'' \<or> su_lower (cv_su e) k = ''content-encoding''))"

definition TransformResponseCurl :: "client_env \<Rightarrow> nat \<Rightarrow> request_info \<Rightarrow> response" where
  "TransformResponseCurl e code i =
     (let r = cv_response e (ri_code i)
      in if code \<noteq> OK_CODE then r\<lparr>request_error := cv_strerror e code\<rparr>
         else
           (let decoded = body_was_decoded e i;
                hs = filter (\<lambda>(k, v). kept_header e decoded k) (cv_entries e (last_headers i)) @
                  (if decoded then [(''Content-Length'', to_string (length (ri_body i)))] else [])
            in r\<lparr>body := ri_body i, resp_url := ri_url i, reason := cv_status_message e (ri_code i),
                 hdrs := cv_lookup e hs\<rparr>))"

text \<open>
  A request on a client: the attempt it makes of it (the handler calls of Get and the outcome), the
  client, and the counters. net is curl: from the handle to the transfer.
\<close>

definition curl_request :: "client_env \<Rightarrow> (easy \<Rightarrow> wire) \<Rightarrow> client_request \<Rightarrow> curl_client \<Rightarrow> http_state \<Rightarrow>
    attempt \<times> curl_client \<times> http_state" where
  "curl_request e net rq c st =
     (let c1 = before_execute e rq c; st1 = curl_count rq (cc_state c) st
      in case cc_easy c1 of
           None \<Rightarrow> (Attempt [] (Inl (Exn Undefined ''no handle'' None)), c1, st1)
         | Some h \<Rightarrow>
             (let w = net h
              in case run_wire e w c1 of
                   Inl ex \<Rightarrow> (Attempt [] (Inl ex), c1, st1)
                 | Inr c2 \<Rightarrow>
                     (let c3 = after_execute (cr_method rq) c2; i = cc_request c3
                      in case CheckCancelled e w rq (ri_url i) of
                           Some r \<Rightarrow> (Attempt [] (Inr (Some r)), c3, st1)
                         | None \<Rightarrow>
                             (case RejectIfContentEncodingViolation e i of
                                Some r \<Rightarrow> (Attempt [] (Inr (Some r)), c3, st1)
                              | None \<Rightarrow>
                                  (let r = TransformResponseCurl e (wr_code w) i;
                                       st2 = (if cc_state c \<and> (cr_method rq = GET \<or> cr_method rq = POST)
                                              then st1\<lparr>total_bytes_received := total_bytes_received st1 + length (ri_body i)\<rparr>
                                              else st1);
                                       events = (if cr_method rq \<noteq> GET then []
                                         else RespHead r # (if wr_code w = OK_CODE \<and> status r < 400 then [Data (ri_body i)] else []))
                                   in (Attempt events (Inr (Some r)), c3, st2))))))"

section \<open>A reused client is like a new one\<close>

text \<open>Between requests the method options are at rest; the credentials of the handle are the stored ones.\<close>

definition at_rest :: "easy \<Rightarrow> bool" where
  "at_rest h \<longleftrightarrow> e_how h \<noteq> Kind_Head \<and> e_custom h = None \<and> e_postfields h = None \<and> e_postfieldsize h = 0"

definition cert_path :: "client_env \<Rightarrow> string \<Rightarrow> string" where
  "cert_path e cert = (if cert = '''' then SelectCURLCertPath (cv_cert_exists e) else cert)"

definition curl_inv :: "client_env \<Rightarrow> string \<Rightarrow> curl_client \<Rightarrow> bool" where
  "curl_inv e b c \<longleftrightarrow> cc_base c = NormalizePathToBeAdded b \<and>
     (\<exists>h. cc_easy c = Some h \<and> at_rest h \<and> e_bearer h = (if cc_token c \<noteq> '''' then Some (cc_token c) else None) \<and>
        e_cainfo h = (if cert_path e (cc_cert c) \<noteq> '''' then Some (cert_path e (cc_cert c)) else None))"

inductive curl_reach :: "client_env \<Rightarrow> string \<Rightarrow> curl_client \<Rightarrow> bool" for e b where
  cr_new: "HTTPFSCurlClient e p b = Inr c \<Longrightarrow> curl_reach e b c"
| cr_initialize: "curl_reach e b c \<Longrightarrow> Initialize_curl e p c = Inr c1 \<Longrightarrow> curl_reach e b c1"
| cr_cleanup: "curl_reach e b c \<Longrightarrow> curl_reach e b (Cleanup_curl c)"
| cr_request: "curl_reach e b c \<Longrightarrow> curl_request e net rq c st = (Attempt ev (Inr ro), c1, st1) \<Longrightarrow> curl_reach e b c1"

lemma CURLHandle_rest: "at_rest (CURLHandle t p)"
  "e_bearer (CURLHandle t p) = (if t \<noteq> '''' then Some t else None)"
  "e_cainfo (CURLHandle t p) = (if p \<noteq> '''' then Some p else None)"
  by (simp_all add: CURLHandle_def at_rest_def)

lemma set_options_keeps [simp]:
  "at_rest (set_options p i v h) = at_rest h" "e_bearer (set_options p i v h) = e_bearer h"
  "e_cainfo (set_options p i v h) = e_cainfo h" "e_sink (set_options p i v h) = i"
  by (simp_all add: set_options_def at_rest_def Let_def)

text \<open>What Initialize leaves behind, from the credentials and the base URL alone.\<close>

lemma Initialize_result:
  assumes "Initialize_curl e p c = Inr c1" and "cc_easy c = None \<or> curl_inv e b c"
  shows "\<exists>v h. http_version_option (http_version p) = Some v \<and> at_rest h \<and>
     e_bearer h = (if bearer_token p \<noteq> '''' then Some (bearer_token p) else None) \<and>
     e_cainfo h = (if cert_path e (ca_cert_file p) \<noteq> '''' then Some (cert_path e (ca_cert_file p)) else None) \<and>
     cc_easy c1 = Some (set_options p (cc_info c1) v h) \<and> cc_base c1 = cc_base c \<and> cc_token c1 = bearer_token p \<and>
     cc_cert c1 = ca_cert_file p \<and> cc_request c1 = new_request_info \<and> cc_state c1 = prm_state p"
proof -
  obtain v where v: "http_version_option (http_version p) = Some v"
    using assms(1) by (auto simp: Initialize_curl_def Let_def split: option.splits)
  show ?thesis
  proof (cases "cc_easy c = None \<or> cc_token c \<noteq> bearer_token p \<or> cc_cert c \<noteq> ca_cert_file p")
    case True
    then show ?thesis using assms(1) v
      by (intro exI [of _ v] exI [of _ "CURLHandle (bearer_token p) (cert_path e (ca_cert_file p))"])
        (auto simp: Initialize_curl_def Let_def CURLHandle_rest cert_path_def)
  next
    case False
    then obtain h where "cc_easy c = Some h" by auto
    with False assms v show ?thesis
      by (intro exI [of _ v] exI [of _ h]) (auto simp: Initialize_curl_def Let_def curl_inv_def)
  qed
qed

lemma before_execute_easy:
  "cc_easy (before_execute e rq c) = map_option (\<lambda>h. ArmCancellation (cr_cancellation rq)
     ((method_options rq (cr_method rq) (h\<lparr>e_xfer := False,
         e_accept_encoding := Some (if cr_method rq = HEAD \<or> RequestIsRangeRequest e (client_user_agent (cr_params rq) (cr_headers rq)) (cr_params rq)
           then ''identity'' else '''')\<rparr>))
       \<lparr>e_target := (cc_base c, NormalizePathToBeAdded (cr_path rq)), e_http_headers := curl_headers e rq\<rparr>)) (cc_easy c)"
  "cc_base (before_execute e rq c) = cc_base c" "cc_info (before_execute e rq c) = cc_info c"
  "cc_token (before_execute e rq c) = cc_token c" "cc_cert (before_execute e rq c) = cc_cert c"
  "cc_state (before_execute e rq c) = cc_state c"
  "cc_request (before_execute e rq c) = new_request_info\<lparr>ri_url := cr_url rq, ri_identity_only :=
     (cr_method rq = HEAD \<or> RequestIsRangeRequest e (client_user_agent (cr_params rq) (cr_headers rq)) (cr_params rq))\<rparr>"
  by (simp_all add: before_execute_def Let_def ResetRequestInfo_def RequireIdentityResponse_def
      AllowCompressedResponse_def new_request_info_def option.map_comp comp_def)

lemma at_rest_again:
  "at_rest h \<Longrightarrow> at_rest (method_resets m (ArmCancellation b
     ((method_options rq m (h\<lparr>e_xfer := x, e_accept_encoding := a\<rparr>))\<lparr>e_target := t, e_http_headers := hs\<rparr>)))"
  by (cases m) (simp_all add: at_rest_def ArmCancellation_def setopt_defs)

lemma method_keeps:
  "e_bearer (method_options rq m h) = e_bearer h" "e_cainfo (method_options rq m h) = e_cainfo h"
  "e_bearer (method_resets m h) = e_bearer h" "e_cainfo (method_resets m h) = e_cainfo h"
  "e_bearer (ArmCancellation b h) = e_bearer h" "e_cainfo (ArmCancellation b h) = e_cainfo h"
  "e_sink (method_options rq m h) = e_sink h" "e_sink (ArmCancellation b h) = e_sink h"
  by (cases m; simp add: ArmCancellation_def setopt_defs)+

lemma request_client:
  assumes "curl_request e net rq c st = (Attempt ev (Inr ro), c1, st1)"
  shows "cc_easy c1 = map_option (method_resets (cr_method rq)) (cc_easy (before_execute e rq c)) \<and>
     cc_base c1 = cc_base c \<and> cc_token c1 = cc_token c \<and> cc_cert c1 = cc_cert c"
proof -
  obtain c2 w where "run_wire e w (before_execute e rq c) = Inr c2" "c1 = after_execute (cr_method rq) c2"
    using assms by (auto simp: curl_request_def Let_def split: option.splits sum.splits)
  then show ?thesis
    by (auto simp: run_wire_def after_execute_def before_execute_easy(2,4,5) split: option.splits sum.splits if_splits)
qed

lemma request_inv:
  assumes "curl_inv e b c" and "curl_request e net rq c st = (Attempt ev (Inr ro), c1, st1)"
  shows "curl_inv e b c1"
proof -
  obtain h where h: "cc_easy c = Some h" "at_rest h"
    "e_bearer h = (if cc_token c \<noteq> '''' then Some (cc_token c) else None)"
    "e_cainfo h = (if cert_path e (cc_cert c) \<noteq> '''' then Some (cert_path e (cc_cert c)) else None)"
    and base: "cc_base c = NormalizePathToBeAdded b" using assms(1) unfolding curl_inv_def by blast
  obtain h1 where h1: "cc_easy c1 = Some h1" "at_rest h1" "e_bearer h1 = e_bearer h" "e_cainfo h1 = e_cainfo h"
    using request_client [OF assms(2)] h(1) at_rest_again [OF h(2)]
    by (simp add: before_execute_easy(1) method_keeps)
  have "cc_base c1 = cc_base c" "cc_token c1 = cc_token c" "cc_cert c1 = cc_cert c"
    using request_client [OF assms(2)] by blast+
  then show ?thesis unfolding curl_inv_def using base h(3,4) h1 by (intro conjI exI [of _ h1]) simp_all
qed

lemma curl_reach_inv: "curl_reach e b c \<Longrightarrow> curl_inv e b c"
proof (induction rule: curl_reach.induct)
  case (cr_new p c)
  then show ?case using Initialize_result [of e p _ c b] unfolding HTTPFSCurlClient_def
    by (fastforce simp: curl_inv_def)
next
  case (cr_initialize c p c1)
  then obtain v h where "at_rest h" "e_bearer h = (if bearer_token p \<noteq> '''' then Some (bearer_token p) else None)"
     "e_cainfo h = (if cert_path e (ca_cert_file p) \<noteq> '''' then Some (cert_path e (ca_cert_file p)) else None)"
     "cc_easy c1 = Some (set_options p (cc_info c1) v h)" "cc_base c1 = cc_base c" "cc_token c1 = bearer_token p"
     "cc_cert c1 = ca_cert_file p"
    using Initialize_result [of e p c c1 b] by blast
  then show ?case using cr_initialize.IH by (simp add: curl_inv_def)
next
  case (cr_cleanup c)
  have "cc_base (Cleanup_curl c) = cc_base c" "cc_easy (Cleanup_curl c) = cc_easy c"
    "cc_token (Cleanup_curl c) = cc_token c" "cc_cert (Cleanup_curl c) = cc_cert c" by (simp_all add: Cleanup_curl_def)
  then show ?case using cr_cleanup.IH unfolding curl_inv_def by (simp only:)
next
  case (cr_request c net rq st ev ro c1 st1)
  then show ?case using request_inv by blast
qed

text \<open>The handle as curl sees it, apart from where its callbacks write.\<close>

definition seen_by_curl :: "client_env \<Rightarrow> client_request \<Rightarrow> curl_client \<Rightarrow> easy option" where
  "seen_by_curl e rq c = map_option (\<lambda>h. h\<lparr>e_sink := 0\<rparr>) (cc_easy (before_execute e rq c))"

text \<open>A request whose header lines are accepted ends in a response.\<close>

lemma curl_request_runs:
  assumes "cc_easy c = Some h" and "e_sink h = cc_info c" and "\<And>h0. header_lines e (wr_lines (net h0)) [] = Inr hs"
  shows "\<exists>ev r c1 st1. curl_request e net rq c st = (Attempt ev (Inr (Some r)), c1, st1)"
proof -
  obtain h1 where h1: "cc_easy (before_execute e rq c) = Some h1" "e_sink h1 = cc_info (before_execute e rq c)"
    using assms(1,2) by (simp add: before_execute_easy method_keeps)
  have "ri_headers (cc_request (before_execute e rq c)) = []" by (simp add: before_execute_easy(7) new_request_info_def)
  then obtain c2 where "run_wire e (net h1) (before_execute e rq c) = Inr c2" using h1 assms(3) by (simp add: run_wire_def)
  then show ?thesis using h1(1) by (auto simp: curl_request_def Let_def split: option.splits)
qed

lemma set_options_fresh:
  assumes "at_rest h" and "at_rest h2" and "e_bearer h = e_bearer h2" and "e_cainfo h = e_cainfo h2"
  shows "set_options p i v h = (set_options p j v h2)\<lparr>e_sink := i, e_how := e_how h, e_target := e_target h,
      e_http_headers := e_http_headers h, e_accept_encoding := e_accept_encoding h, e_xfer := e_xfer h\<rparr>"
  using assms by (cases h; cases h2; simp add: set_options_def Let_def at_rest_def)

definition as_seen where
  "as_seen rq m x ae t hs h =
     (ArmCancellation x ((method_options rq m (h\<lparr>e_xfer := False, e_accept_encoding := ae\<rparr>))
        \<lparr>e_target := t, e_http_headers := hs\<rparr>))\<lparr>e_sink := 0\<rparr>"

lemma as_seen_fresh:
  "(as_seen rq m x ae t hs (h1\<lparr>e_sink := i, e_how := k, e_target := t1, e_http_headers := hs1, e_accept_encoding := ae1, e_xfer := x1\<rparr>))\<lparr>e_how := Kind_Get\<rparr>
      = (as_seen rq m x ae t hs h1)\<lparr>e_how := Kind_Get\<rparr>"
  "m \<noteq> DELETE \<Longrightarrow> as_seen rq m x ae t hs (h1\<lparr>e_sink := i, e_how := k, e_target := t1, e_http_headers := hs1, e_accept_encoding := ae1, e_xfer := x1\<rparr>)
      = as_seen rq m x ae t hs h1"
  by (cases h1; cases m; simp add: as_seen_def ArmCancellation_def setopt_defs)+

text \<open>
  Whatever requests and parameters a client has seen, after Initialize with new parameters every
  request is sent exactly as a new client with these parameters would send it: no credential,
  proxy, certificate, method, body, header or cancellation of an earlier use is left, and the
  callbacks write to the RequestInfo the client owns. The exception is DELETE, which does not choose the
  kind of its request and takes the one an earlier request left.
\<close>

lemma reused_like_new:
  assumes "curl_reach e b c" and "Initialize_curl e p c = Inr c1" and "HTTPFSCurlClient e p b = Inr c2"
  shows "(cr_method rq \<noteq> DELETE \<longrightarrow> seen_by_curl e rq c1 = seen_by_curl e rq c2) \<and> seen_by_curl e rq c1 \<noteq> None \<and>
     map_option (\<lambda>h. h\<lparr>e_how := Kind_Get\<rparr>) (seen_by_curl e rq c1) = map_option (\<lambda>h. h\<lparr>e_how := Kind_Get\<rparr>) (seen_by_curl e rq c2) \<and>
     map_option e_sink (cc_easy (before_execute e rq c1)) = Some (cc_info (before_execute e rq c1)) \<and>
     cc_request (before_execute e rq c1) = cc_request (before_execute e rq c2) \<and> cc_state c1 = cc_state c2"
proof -
  have inv: "curl_inv e b c" by (rule curl_reach_inv [OF assms(1)])
  obtain v h where a: "http_version_option (http_version p) = Some v" "at_rest h"
     "e_bearer h = (if bearer_token p \<noteq> '''' then Some (bearer_token p) else None)"
     "e_cainfo h = (if cert_path e (ca_cert_file p) \<noteq> '''' then Some (cert_path e (ca_cert_file p)) else None)"
     "cc_easy c1 = Some (set_options p (cc_info c1) v h)" "cc_base c1 = NormalizePathToBeAdded b" "cc_state c1 = prm_state p"
    using Initialize_result [OF assms(2) disjI2, OF inv] inv by (auto simp: curl_inv_def)
  obtain v2 h2 where b: "http_version_option (http_version p) = Some v2" "at_rest h2"
     "e_bearer h2 = (if bearer_token p \<noteq> '''' then Some (bearer_token p) else None)"
     "e_cainfo h2 = (if cert_path e (ca_cert_file p) \<noteq> '''' then Some (cert_path e (ca_cert_file p)) else None)"
     "cc_easy c2 = Some (set_options p (cc_info c2) v2 h2)" "cc_base c2 = NormalizePathToBeAdded b" "cc_state c2 = prm_state p"
    using Initialize_result [of e p _ c2 b] assms(3) unfolding HTTPFSCurlClient_def by fastforce
  have fresh: "set_options p i v h = (set_options p j v h2)\<lparr>e_sink := i, e_how := e_how h, e_target := e_target h,
      e_http_headers := e_http_headers h, e_accept_encoding := e_accept_encoding h, e_xfer := e_xfer h\<rparr>" for i j
    by (rule set_options_fresh [OF a(2) b(2)]) (simp_all add: a(3,4) b(3,4))
  have same: "as_seen rq m x ae t hs (set_options p i v h)\<lparr>e_how := Kind_Get\<rparr> = as_seen rq m x ae t hs (set_options p j v h2)\<lparr>e_how := Kind_Get\<rparr>"
    "m \<noteq> DELETE \<Longrightarrow> as_seen rq m x ae t hs (set_options p i v h) = as_seen rq m x ae t hs (set_options p j v h2)" for x m i j ae t hs
    unfolding fresh [of i j] by (simp only: as_seen_fresh, erule as_seen_fresh(2))
  have "v2 = v" using a(1) b(1) by simp
  then show ?thesis using a b same unfolding as_seen_def
    by (simp add: seen_by_curl_def before_execute_easy method_keeps)
qed

text \<open>A client that used a proxy, a token and a HEAD request, and the parameters it is used with next.\<close>

definition old_params :: httpfs_params where
  "old_params = demo_params\<lparr>bearer_token := ''old'', http_proxy := ''proxy'', http_proxy_username := ''me'', http_proxy_password := ''pw''\<rparr>"

definition demo_request :: "rq_method \<Rightarrow> client_request" where
  "demo_request m = \<lparr>cr_method = m, cr_url = ''https://h/f'', cr_path = ''/f'', cr_headers = [HInsert ''Range'' ''bytes=0-1''],
     cr_params = demo_params, cr_body = [], cr_content_type = [], cr_post_as_get = False, cr_cancellation = True\<rparr>"

definition demo_wire :: "easy \<Rightarrow> wire" where
  "demo_wire h = \<lparr>wr_code = 0, wr_status = 206, wr_lines = [''HTTP/1.1 206 Partial'' @ [CHR 0x0D, CHR 0x0A],
     ''Content-Length: 2'' @ [CHR 0x0D, CHR 0x0A], [CHR 0x0D, CHR 0x0A]], wr_data = [''a'', ''b''], wr_flag = False\<rparr>"

definition client_1 :: curl_client where
  "client_1 = projr (HTTPFSCurlClient demo_client_env old_params ''https://h'')"

definition client_2 :: curl_client where
  "client_2 = fst (snd (curl_request demo_client_env demo_wire (demo_request HEAD) client_1 new_http_state))"

definition client_3 :: curl_client where
  "client_3 = projr (Initialize_curl demo_client_env demo_params (Cleanup_curl client_2))"

definition client_new :: curl_client where
  "client_new = projr (HTTPFSCurlClient demo_client_env demo_params ''https://h'')"

lemmas demo_params_defs = old_params_def demo_params_def demo_base_def new_httpfs_params_def http_params.defs httpfs_params.defs

lemma http_version_auto: "http_version_option ''auto'' = Some ''2TLS''"
  by (simp add: http_version_option_def)

lemma demo_clients_initialize:
  "HTTPFSCurlClient demo_client_env old_params ''https://h'' = Inr client_1"
  "Initialize_curl demo_client_env demo_params (Cleanup_curl client_2) = Inr client_3"
  "HTTPFSCurlClient demo_client_env demo_params ''https://h'' = Inr client_new"
proof -
  have v: "http_version old_params = ''auto''" "http_version demo_params = ''auto''" by (simp_all add: demo_params_defs)
  have i: "\<exists>c1. Initialize_curl demo_client_env p c = Inr c1" if "http_version p = ''auto''" for p c
    using that by (simp add: Initialize_curl_def Let_def http_version_auto)
  show "HTTPFSCurlClient demo_client_env old_params ''https://h'' = Inr client_1"
    "Initialize_curl demo_client_env demo_params (Cleanup_curl client_2) = Inr client_3"
    "HTTPFSCurlClient demo_client_env demo_params ''https://h'' = Inr client_new"
    using i [OF v(1)] i [OF v(2)] unfolding client_1_def client_3_def client_new_def HTTPFSCurlClient_def
    by (metis sum.sel(2))+
qed

lemma demo_lines:
  "header_lines demo_client_env [''HTTP/1.1 206 Partial'' @ [CHR 0x0D, CHR 0x0A], ''Content-Length: 2'' @ [CHR 0x0D, CHR 0x0A],
     [CHR 0x0D, CHR 0x0A]] [] = Inr [[(''__RESPONSE_STATUS__'', ''HTTP/1.1 206 Partial''), (''content-length'', ''2'')]]"
  (is "?l = Inr ?hs")
proof -
  have "case ?l of Inl _ \<Rightarrow> False | Inr hs \<Rightarrow> hs = ?hs" by code_simp
  then show ?thesis by (auto split: sum.splits)
qed

lemma demo_client_used: "curl_reach demo_client_env ''https://h'' (Cleanup_curl client_2)"
proof -
  obtain h where h: "cc_easy client_1 = Some h" "e_sink h = cc_info client_1"
    using Initialize_result [of demo_client_env old_params _ client_1 "''https://h''"] demo_clients_initialize(1)
    unfolding HTTPFSCurlClient_def by fastforce
  have "header_lines demo_client_env (wr_lines (demo_wire h0)) []
      = Inr [[(''__RESPONSE_STATUS__'', ''HTTP/1.1 206 Partial''), (''content-length'', ''2'')]]" for h0
    unfolding demo_wire_def wire.simps by (rule demo_lines)
  then obtain ev r c1 st1 where
    "curl_request demo_client_env demo_wire (demo_request HEAD) client_1 new_http_state = (Attempt ev (Inr (Some r)), c1, st1)"
    using curl_request_runs [OF h] by blast
  then have "curl_request demo_client_env demo_wire (demo_request HEAD) client_1 new_http_state
      = (Attempt ev (Inr (Some r)), client_2, st1)" by (simp add: client_2_def)
  then show ?thesis by (rule cr_cleanup [OF cr_request [OF cr_new [OF demo_clients_initialize(1)]]])
qed

lemma demo_reused:
  "seen_by_curl demo_client_env (demo_request GET) client_3 = seen_by_curl demo_client_env (demo_request GET) client_new"
  using reused_like_new [OF demo_client_used demo_clients_initialize(2,3), of "demo_request GET"]
  by (simp add: demo_request_def)

text \<open>A DELETE behind a PUT is sent as a POST without fields under the name DELETE; Initialize does not help.\<close>

lemma delete_behind_put:
  assumes "curl_reach e b c0" and "curl_request e net rq0 c0 st = (Attempt ev (Inr ro), c, st1)" and "cr_method rq0 = PUT"
    and "cr_method rq = DELETE"
  shows "map_option e_how (seen_by_curl e rq c) = Some Kind_Post"
proof -
  obtain h where "cc_easy c0 = Some h" using curl_reach_inv [OF assms(1)] unfolding curl_inv_def by blast
  then show ?thesis using request_client [OF assms(2)] assms(3,4)
    by (auto simp: seen_by_curl_def before_execute_easy(1) ArmCancellation_def setopt_defs)
qed

section \<open>What a server's answer becomes\<close>

text \<open>
  The header lines of a response as curl hands them over: a status line, the fields, an empty line.
\<close>

abbreviation CRLF :: string where "CRLF \<equiv> [CHR 0x0D, CHR 0x0A]"

definition render_head :: "string \<times> kvs \<Rightarrow> string list" where
  "render_head = (\<lambda>(line, hs). (line @ CRLF) # map (\<lambda>(k, v). (k @ '': '' @ v) @ CRLF) hs @ [CRLF])"

definition ok_head :: "string \<times> kvs \<Rightarrow> bool" where
  "ok_head = (\<lambda>(line, hs). prefix ''HTTP/'' line \<and> CHR '':'' \<notin> set line \<and>
     (\<forall>(k, v) \<in> set hs. CHR '':'' \<notin> set k \<and> CHR ''/'' \<notin> set k))"

definition parsed_head :: "client_env \<Rightarrow> string \<times> kvs \<Rightarrow> kvs" where
  "parsed_head e = (\<lambda>(line, hs). (''__RESPONSE_STATUS__'', line) # map (\<lambda>(k, v). (su_lower (cv_su e) k, v)) hs)"

lemma trim_line_crlf [simp]: "trim_line (s @ CRLF) = s"
  by (simp add: trim_line_def Let_def butlast_append)

lemma str_find_colon:
  "CHR '':'' \<notin> set k \<Longrightarrow> str_find (k @ CHR '':'' # r) '':'' 0 = Some (length k)"
  using find_at_fresh [of "CHR '':''" k "[]" r] by (simp add: str_find_def)

lemma str_find_no_colon: "CHR '':'' \<notin> set s \<Longrightarrow> str_find s '':'' 0 = None"
  by (simp add: str_find_def find_at_fresh_None)

lemma not_status_line: "CHR ''/'' \<notin> set k \<Longrightarrow> CHR '':'' \<notin> set k \<Longrightarrow> \<not> prefix ''HTTP/'' (k @ '':'' @ r)"
  by (cases k; cases "tl k"; cases "tl (tl k)"; cases "tl (tl (tl k))"; cases "tl (tl (tl (tl k)))") auto

lemma callback_status:
  "prefix ''HTTP/'' line \<Longrightarrow> CHR '':'' \<notin> set line \<Longrightarrow>
   RequestHeaderCallback e (line @ CRLF) coll = Inr (coll @ [[(''__RESPONSE_STATUS__'', line)]])"
  by (simp add: RequestHeaderCallback_def Let_def str_find_no_colon)

lemma callback_field:
  assumes "CHR '':'' \<notin> set k" and "CHR ''/'' \<notin> set k"
  shows "RequestHeaderCallback e ((k @ '': '' @ v) @ CRLF) (coll @ [l]) = Inr (coll @ [l @ [(su_lower (cv_su e) k, v)]])"
  using str_find_colon [OF assms(1), of "'' '' @ v"] not_status_line [OF assms(2,1), of "'' '' @ v"]
  by (simp add: RequestHeaderCallback_def Let_def substr_def slice_def del: append_assoc)

lemma header_lines_fields:
  "\<forall>(k, v) \<in> set hs. CHR '':'' \<notin> set k \<and> CHR ''/'' \<notin> set k \<Longrightarrow>
   header_lines e (map (\<lambda>(k, v). (k @ '': '' @ v) @ CRLF) hs @ rest) (coll @ [l])
     = header_lines e rest (coll @ [l @ map (\<lambda>(k, v). (su_lower (cv_su e) k, v)) hs])"
proof (induction hs arbitrary: l)
  case (Cons kv hs)
  obtain k v where kv: "kv = (k, v)" by (cases kv)
  then have "CHR '':'' \<notin> set k" "CHR ''/'' \<notin> set k" using Cons.prems by auto
  note f = callback_field [OF this, of e v coll l]
  show ?case using Cons f by (simp add: kv del: append_assoc) simp
qed simp

lemma callback_empty: "RequestHeaderCallback e CRLF coll = Inr coll"
  by (simp add: RequestHeaderCallback_def trim_line_def Let_def str_find_def)

lemma header_lines_heads:
  "list_all ok_head rs \<Longrightarrow> header_lines e (concat (map render_head rs)) coll = Inr (coll @ map (parsed_head e) rs)"
proof (induction rs arbitrary: coll)
  case (Cons r rs)
  obtain line hs where r: "r = (line, hs)" by (cases r)
  then have ok: "prefix ''HTTP/'' line" "CHR '':'' \<notin> set line" "\<forall>(k, v) \<in> set hs. CHR '':'' \<notin> set k \<and> CHR ''/'' \<notin> set k"
    using Cons.prems by (auto simp: ok_head_def)
  have "header_lines e (concat (map render_head (r # rs))) coll
      = header_lines e (map (\<lambda>(k, v). (k @ '': '' @ v) @ CRLF) hs @ CRLF # concat (map render_head rs))
          (coll @ [[(''__RESPONSE_STATUS__'', line)]])"
    using callback_status [OF ok(1,2)] by (simp add: r render_head_def)
  also have "\<dots> = header_lines e (CRLF # concat (map render_head rs)) (coll @ [parsed_head e r])"
    using header_lines_fields [OF ok(3)] by (simp add: r parsed_head_def)
  also have "\<dots> = Inr (coll @ map (parsed_head e) (r # rs))"
    using Cons callback_empty by simp
  finally show ?case .
qed simp

lemma fold_write: "fold RequestWriteCallback ds b = b @ concat ds"
  by (induction ds arbitrary: b) (simp_all add: RequestWriteCallback_def)

text \<open>The response headers seen under a name that is not special.\<close>

lemma kept_lookup:
  assumes "client_ok e" and "lower_case k \<noteq> lower_case ''__RESPONSE_STATUS__''"
    and "\<not> d \<or> lower_case k \<noteq> ''content-length'' \<and> lower_case k \<noteq> ''content-encoding''"
  shows "cv_lookup e (filter (\<lambda>(k, v). kept_header e d k) (cv_entries e l)) k = cv_lookup e l k"
proof -
  have ok: "headers_ok e" "lower_ok (cv_su e)" using assms(1) by (simp_all add: client_ok_def)
  have kept: "kept_header e d k1" if "lower_case k1 = lower_case k" for k1
  proof -
    have "k1 \<noteq> ''__RESPONSE_STATUS__''" using assms(2) that by metis
    then show ?thesis using assms(3) that unfolding kept_header_def lower_ok_map [OF ok(2)] by metis
  qed
  then have "cv_lookup e (map (\<lambda>(k, v). (id k, v)) (filter (\<lambda>(k, v). kept_header e d k) (cv_entries e l))) k
      = (if kept_header e d k then cv_lookup e l k else None)"
    by (intro lookup_copied [OF ok(1)]) (simp_all only: id_apply)
  moreover have "kept_header e d k" by (rule kept) (rule refl)
  ultimately show ?thesis by (simp add: case_prod_unfold)
qed

lemma parsed_lookup:
  assumes ok: "client_ok e" and k: "lower_case k \<noteq> lower_case ''__RESPONSE_STATUS__''"
    and v: "\<forall>(k1, v1) \<in> set hs. lower_case k1 = lower_case k \<longrightarrow> P v1" and f: "cv_lookup e (parsed_head e (line, hs)) k = Some x"
  shows "P x"
proof -
  have h: "headers_ok e" "lower_ok (cv_su e)" using ok by (simp_all add: client_ok_def)
  obtain k1 where k1: "(k1, x) \<in> set (parsed_head e (line, hs))" "lower_case k1 = lower_case k"
    using lookup_Some [OF h(1) f] by blast
  have "k1 \<noteq> ''__RESPONSE_STATUS__''" using k k1(2) by metis
  then obtain k2 where k2: "(k2, x) \<in> set hs" "k1 = lower_case k2"
    using k1(1) by (auto simp: parsed_head_def lower_ok_map [OF h(2)])
  then have "lower_case k2 = lower_case k" using k1(2) by (simp add: comp_def lower_twice)
  then show ?thesis using v k2(1) by blast
qed

lemma special_names:
  "lower_case ''ETag'' \<noteq> lower_case ''__RESPONSE_STATUS__''" "lower_case ''Content-Length'' \<noteq> lower_case ''__RESPONSE_STATUS__''"
  "lower_case ''Content-Encoding'' \<noteq> lower_case ''__RESPONSE_STATUS__''" "lower_case ''Content-Length'' = ''content-length''"
  "lower_case ''Content-Encoding'' = ''content-encoding''" "lower_case ''ETag'' = ''etag''"
  by code_simp+

text \<open>
  The curl client is a transport that the HTTP file system's reads can rely on: when a server answers a range
  request, possibly after redirects, with 206, the bytes asked for and headers that agree with
  them, then Get calls the handlers with one response and exactly these bytes, and its
  attempt meets the contract under which reads were proved exact.
\<close>

lemma curl_get_is_good:
  assumes ok: "client_ok e" and c: "cc_easy c = Some h" "e_sink h = cc_info c" and get: "cr_method rq = GET"
    and w: "\<And>h0. net h0 = \<lparr>wr_code = OK_CODE, wr_status = 206,
       wr_lines = concat (map render_head (redirects @ [(line, hs)])), wr_data = ds, wr_flag = flag\<rparr>"
    and heads: "list_all ok_head (redirects @ [(line, hs)])" and ds: "concat ds = slice content off len"
    and hs: "\<forall>(k, v) \<in> set hs. (lower_case k = ''etag'' \<longrightarrow> v = tag) \<and> (lower_case k = ''content-length'' \<longrightarrow> v = to_string len) \<and>
       (lower_case k = ''content-encoding'' \<longrightarrow> lower_case v = ''identity'')"
  shows "good_answer content tag off len [fst (curl_request e net rq c st)]"
proof -
  have enc: "\<forall>(k, v) \<in> set hs. lower_case k = ''content-encoding'' \<longrightarrow> lower_case v = ''identity''"
    and tags: "\<forall>(k, v) \<in> set hs. lower_case k = ''etag'' \<longrightarrow> v = tag"
    and lens: "\<forall>(k, v) \<in> set hs. lower_case k = ''content-length'' \<longrightarrow> v = to_string len" using hs by auto
  let ?c1 = "before_execute e rq c" and ?l = "parsed_head e (line, hs)"
  obtain h1 where h1: "cc_easy ?c1 = Some h1" "e_sink h1 = cc_info ?c1"
    using c by (simp add: before_execute_easy method_keeps)
  have req: "ri_headers (cc_request ?c1) = []" "ri_body (cc_request ?c1) = []"
    by (simp_all add: before_execute_easy(7) new_request_info_def)
  define i where "i = (cc_request ?c1)\<lparr>ri_headers := map (parsed_head e) (redirects @ [(line, hs)]), ri_body := concat ds, ri_code := 206\<rparr>"
  have i: "ri_headers i = map (parsed_head e) redirects @ [?l]" "ri_body i = concat ds" "ri_code i = 206" by (simp_all add: i_def)
  have run: "run_wire e (net h1) ?c1 = Inr (?c1\<lparr>cc_request := i\<rparr>)"
    using h1 req header_lines_heads [OF heads, of e "[]"] by (simp add: run_wire_def w fold_write i_def)
  have lo: "lower_ok (cv_su e)" "headers_ok e" using ok by (simp_all add: client_ok_def)
  have ce: "content_encoding e i = cv_lookup e ?l ''Content-Encoding''" by (simp add: content_encoding_def i)
  have id: "su_lower (cv_su e) v = ''identity''" if "cv_lookup e ?l ''Content-Encoding'' = Some v" for v
    using parsed_lookup [OF ok special_names(3) _ that, where P = "\<lambda>v. lower_case v = ''identity''", unfolded special_names, OF enc]
    unfolding lower_ok_map [OF lo(1)] .
  have nd: "\<not> body_was_decoded e i"
    unfolding body_was_decoded_def ce using id by (cases "cv_lookup e ?l ''Content-Encoding''") (simp_all add: Let_def)
  have rej: "RejectIfContentEncodingViolation e i = None"
    unfolding RejectIfContentEncodingViolation_def ce
    using id by (cases "cv_lookup e ?l ''Content-Encoding''") simp_all
  let ?r = "TransformResponseCurl e OK_CODE i"
  have r: "status ?r = 206" "\<not> has_request_error ?r" "success ?r"
    using ok by (simp_all add: TransformResponseCurl_def i nd Let_def client_ok_def has_request_error_def)
  have hd: "hdrs ?r k = cv_lookup e ?l k" if "lower_case k \<noteq> lower_case ''__RESPONSE_STATUS__''" for k
    using kept_lookup [OF ok that, of False ?l] by (simp add: TransformResponseCurl_def nd Let_def last_headers_def i)
  have etag: "hdrs ?r ''ETag'' \<in> {None, Some tag}"
    using parsed_lookup [OF ok special_names(1), of hs "\<lambda>v. v = tag" line, unfolded special_names, OF tags] hd [OF special_names(1)]
    by (cases "cv_lookup e ?l ''ETag''") auto
  have clen: "hdrs ?r ''Content-Length'' \<in> {None, Some (to_string len)}"
    using parsed_lookup [OF ok special_names(2), of hs "\<lambda>v. v = to_string len" line, unfolded special_names, OF lens] hd [OF special_names(2)]
    by (cases "cv_lookup e ?l ''Content-Length''") auto
  have "CheckCancelled e (net h1) rq url = None" for url by (simp add: CheckCancelled_def w)
  then have "fst (curl_request e net rq c st) = Attempt [RespHead ?r, Data (concat ds)] (Inr (Some ?r))"
    using h1 run rej r get by (simp add: curl_request_def Let_def after_execute_def w i)
  then show ?thesis unfolding good_answer_def using r etag clen ds
    by (intro exI [of _ "[]"] exI [of _ ?r] exI [of _ "[concat ds]"]) simp
qed

definition answer_wire :: "easy \<Rightarrow> wire" where
  "answer_wire h = \<lparr>wr_code = 0, wr_status = 206, wr_lines = concat (map render_head
     ([(''HTTP/1.1 302 Found'', [(''Location'', ''https://h2/f'')])] @ [(''HTTP/1.1 206 Partial'', [(''Content-Length'', ''2''), (''ETag'', ''t'')])])),
     wr_data = [''a'', ''b''], wr_flag = False\<rparr>"

lemma curl_get_is_good_example:
  "good_answer ''xaby'' ''t'' 1 2 [fst (curl_request demo_client_env answer_wire (demo_request GET) client_3 new_http_state)]"
proof -
  obtain h where h: "cc_easy client_3 = Some h" "e_sink h = cc_info client_3"
    using Initialize_result [OF demo_clients_initialize(2) disjI2, OF curl_reach_inv, OF demo_client_used] by auto
  have two: "to_string 2 = ''2''" by code_simp
  have heads: "list_all ok_head ([(''HTTP/1.1 302 Found'', [(''Location'', ''https://h2/f'')])] @
      [(''HTTP/1.1 206 Partial'', [(''Content-Length'', ''2''), (''ETag'', ''t'')])])" by code_simp
  have names: "\<forall>(k, v) \<in> set [(''Content-Length'', ''2''), (''ETag'', ''t'')]. (lower_case k = ''etag'' \<longrightarrow> v = ''t'') \<and>
      (lower_case k = ''content-length'' \<longrightarrow> v = to_string 2) \<and> (lower_case k = ''content-encoding'' \<longrightarrow> lower_case v = ''identity'')"
    by code_simp
  show ?thesis
    by (rule curl_get_is_good [OF demo_client_ok h _ answer_wire_def heads _ names])
      (simp_all add: demo_request_def slice_def)
qed

section \<open>No encoded bytes pass as the object\<close>

lemma decoded_length:
  assumes ok: "client_ok e"
  shows "cv_lookup e (filter (\<lambda>(k, v). kept_header e True k) l @ [(''Content-Length'', n)]) ''Content-Length'' = Some n"
    and "cv_lookup e (filter (\<lambda>(k, v). kept_header e True k) l @ [(''Content-Length'', n)]) ''Content-Encoding'' = None"
proof -
  let ?l = "filter (\<lambda>(k, v). kept_header e True k) l @ [(''Content-Length'', n)]"
  have lo: "lower_ok (cv_su e)" "headers_ok e" using ok by (simp_all add: client_ok_def)
  have drop: "lower_case k \<noteq> ''content-length'' \<and> lower_case k \<noteq> ''content-encoding''"
    if "(k, v) \<in> set (filter (\<lambda>(k, v). kept_header e True k) l)" for k v
    using that by (auto simp: kept_header_def lower_ok_map [OF lo(1)])
  have differ: "lower_case ''Content-Length'' \<noteq> lower_case ''Content-Encoding''" by code_simp
  show "cv_lookup e ?l ''Content-Length'' = Some n"
  proof (cases "cv_lookup e ?l ''Content-Length''")
    case None
    then have "lower_case ''Content-Length'' \<noteq> lower_case ''Content-Length''"
      by (rule lookup_None [OF lo(2), where v = n]) simp
    then show ?thesis by blast
  next
    case (Some v)
    obtain k where k: "(k, v) \<in> set ?l" "lower_case k = lower_case ''Content-Length''" using lookup_Some [OF lo(2) Some] by blast
    then have "v = n" using drop [of k v] unfolding special_names by fastforce
    then show ?thesis using Some by simp
  qed
  show "cv_lookup e ?l ''Content-Encoding'' = None"
  proof (rule ccontr)
    assume "cv_lookup e ?l ''Content-Encoding'' \<noteq> None"
    then obtain v where "cv_lookup e ?l ''Content-Encoding'' = Some v" by blast
    then obtain k where k: "(k, v) \<in> set ?l" "lower_case k = lower_case ''Content-Encoding''"
      using lookup_Some [OF lo(2)] by blast
    then have "(k, v) = (''Content-Length'', n)" using drop [of k v] unfolding special_names by auto
    then show False using k(2) differ by simp
  qed
qed

lemma curl_get_outcome:
  assumes "curl_request e net rq c st = (Attempt ev (Inr (Some r)), c1, st1)" and "Data d \<in> set ev"
  shows "\<exists>code i. r = TransformResponseCurl e code i \<and> i = cc_request c1 \<and> code = OK_CODE \<and> d = ri_body i \<and>
     RejectIfContentEncodingViolation e i = None \<and>
     ri_identity_only i = (cr_method rq = HEAD \<or> RequestIsRangeRequest e (client_user_agent (cr_params rq) (cr_headers rq)) (cr_params rq))"
proof -
  obtain h c2 where run: "run_wire e (net h) (before_execute e rq c) = Inr c2" "c1 = after_execute (cr_method rq) c2"
    "RejectIfContentEncodingViolation e (cc_request c1) = None" "r = TransformResponseCurl e (wr_code (net h)) (cc_request c1)"
    "wr_code (net h) = OK_CODE" "d = ri_body (cc_request c1)"
    using assms by (auto simp: curl_request_def Let_def split: option.splits sum.splits if_splits)
  have "ri_identity_only (cc_request c2) = ri_identity_only (cc_request (before_execute e rq c))"
    using run(1) by (auto simp: run_wire_def split: option.splits sum.splits if_splits)
  then show ?thesis using run by (simp add: after_execute_def before_execute_easy(7))
qed


definition gzip_wire :: "easy \<Rightarrow> wire" where
  "gzip_wire h = \<lparr>wr_code = 0, wr_status = 200, wr_lines = concat (map render_head
     [(''HTTP/1.1 200 OK'', [(''Content-Length'', ''9''), (''Content-Encoding'', ''gzip'')])]), wr_data = [''abc''], wr_flag = False\<rparr>"

definition plain_request :: client_request where
  "plain_request = (demo_request GET)\<lparr>cr_headers := []\<rparr>"

lemma gzip_attempt: "\<exists>r c1 st1. curl_request demo_client_env gzip_wire plain_request client_3 new_http_state
      = (Attempt [RespHead r, Data ''abc''] (Inr (Some r)), c1, st1) \<and> body_was_decoded demo_client_env (cc_request c1)"
proof -
  let ?e = demo_client_env and ?rq = plain_request
  obtain h where h: "cc_easy client_3 = Some h" "e_sink h = cc_info client_3"
    using Initialize_result [OF demo_clients_initialize(2) disjI2, OF curl_reach_inv, OF demo_client_used] by auto
  let ?c1 = "before_execute ?e ?rq client_3"
  obtain h1 where h1: "cc_easy ?c1 = Some h1" "e_sink h1 = cc_info ?c1"
    using h by (simp add: before_execute_easy method_keeps)
  have rng: "\<not> RequestIsRangeRequest ?e (client_user_agent (cr_params ?rq) (cr_headers ?rq)) (cr_params ?rq)"
    by (simp add: RequestIsRangeRequest_def plain_request_def demo_request_def client_user_agent_def demo_params_defs
        demo_client_env_def apply_ops_def has_name_def)
  define i where "i = (cc_request ?c1)\<lparr>ri_headers := [parsed_head ?e (''HTTP/1.1 200 OK'', [(''Content-Length'', ''9''), (''Content-Encoding'', ''gzip'')])],
     ri_body := ''abc'', ri_code := 200\<rparr>"
  have heads: "list_all ok_head [(''HTTP/1.1 200 OK'', [(''Content-Length'', ''9''), (''Content-Encoding'', ''gzip'')])]" by code_simp
  have req: "ri_headers (cc_request ?c1) = []" "ri_body (cc_request ?c1) = []"
    by (simp_all add: before_execute_easy(7) new_request_info_def)
  have run: "run_wire ?e (gzip_wire h1) ?c1 = Inr (?c1\<lparr>cc_request := i\<rparr>)"
    using h1 req header_lines_heads [OF heads, of ?e "[]"] unfolding gzip_wire_def
    by (simp add: run_wire_def RequestWriteCallback_def i_def)
  have ce: "content_encoding ?e i = Some ''gzip''"
  proof -
    have "cv_lookup ?e (parsed_head ?e (''HTTP/1.1 200 OK'', [(''Content-Length'', ''9''), (''Content-Encoding'', ''gzip'')])) ''Content-Encoding''
        = Some ''gzip''" by code_simp
    then show ?thesis by (simp add: content_encoding_def i_def)
  qed
  have gz: "su_lower (cv_su ?e) ''gzip'' = ''gzip''" by code_simp
  have id: "\<not> ri_identity_only i" using rng by (simp add: i_def before_execute_easy(7) plain_request_def demo_request_def)
  have st: "status (TransformResponseCurl ?e 0 i) < 400"
    by (simp add: TransformResponseCurl_def Let_def demo_client_env_def i_def)
  have body: "ri_body i = ''abc''" by (simp add: i_def)
  have "\<not> cr_method ?rq \<noteq> GET" by (simp add: plain_request_def demo_request_def)
  then show ?thesis using h1 run id ce gz st body
    by (simp add: curl_request_def Let_def after_execute_def CheckCancelled_def RejectIfContentEncodingViolation_def
        body_was_decoded_def gzip_wire_def)
qed


section \<open>Empty header values\<close>

text \<open>
  A header field without any value after its colon makes the header callback throw out of the C library
  that called it, whatever the name of the field and the responses before it.
\<close>

theorem empty_header_value_throws:
  assumes "CHR '':'' \<notin> set name" and "CHR ''/'' \<notin> set name"
  shows "\<exists>ex. header_lines e ((name @ '':'' @ CRLF) # more_lines) coll = Inl ex \<and> ex_type ex = Undefined"
proof -
  have "trim_line ((name @ '':'') @ CRLF) = name @ '':''" by (rule trim_line_crlf)
  then show ?thesis
    using str_find_colon [OF assms(1), of "[]"] not_status_line [OF assms(2,1), of "[]"]
    by (simp add: RequestHeaderCallback_def Let_def)
qed

theorem empty_header_value_throws_witness:
  "\<exists>ex. header_lines demo_client_env [''Server:'' @ CRLF] [[]] = Inl ex \<and> ex_type ex = Undefined"
  using empty_header_value_throws [of "''Server''" demo_client_env "[]" "[[]]"] by simp

section \<open>The operations of the client\<close>

text \<open>CURLHandle::Execute: through the process-wide dispatcher or on the handle alone.\<close>

definition Execute :: "(easy \<Rightarrow> wire) \<Rightarrow> (easy \<Rightarrow> wire) \<Rightarrow> easy \<Rightarrow> wire" where
  "Execute dispatch perform h = (if e_multi h then dispatch h else perform h)"

definition Get_curl where
  "Get_curl e net rq c st = curl_request e net (rq\<lparr>cr_method := GET\<rparr>) c st"

definition Put_curl where
  "Put_curl e net rq c st = curl_request e net (rq\<lparr>cr_method := PUT\<rparr>) c st"

definition Head_curl where
  "Head_curl e net rq c st = curl_request e net (rq\<lparr>cr_method := HEAD\<rparr>) c st"

definition Delete_curl where
  "Delete_curl e net rq c st = curl_request e net (rq\<lparr>cr_method := DELETE\<rparr>) c st"

text \<open>Post also fills the buffer of the caller, unless it was cancelled or its answer refused.\<close>

definition Post_curl :: "client_env \<Rightarrow> (easy \<Rightarrow> wire) \<Rightarrow> client_request \<Rightarrow> bytes \<Rightarrow> curl_client \<Rightarrow> http_state \<Rightarrow>
    attempt \<times> bytes \<times> curl_client \<times> http_state" where
  "Post_curl e net rq buffer_out c st =
     (let rq1 = rq\<lparr>cr_method := POST\<rparr>
      in case curl_request e net rq1 c st of
           (a, c1, st1) \<Rightarrow>
             (let i = cc_request c1
              in (a,
                  (case (at_outcome a, cc_easy (before_execute e rq1 c)) of
                     (Inr _, Some h) \<Rightarrow>
                       (if Option.is_none (CheckCancelled e (net h) rq1 (ri_url i)) \<and>
                           Option.is_none (RejectIfContentEncodingViolation e i)
                        then ri_body i else buffer_out)
                   | _ \<Rightarrow> buffer_out), c1, st1)))"

text \<open>InitCurlGlobal: whether curl is initialised now, and the count of clients, which only grows.\<close>

definition InitCurlGlobal :: "nat \<Rightarrow> bool \<times> nat" where
  "InitCurlGlobal client_count = (client_count = 0, client_count + 1)"

text \<open>ParseGetParameters of the curl client; std::getline yields no item behind a last separator.\<close>

definition getline_items :: "char \<Rightarrow> string \<Rightarrow> string list" where
  "getline_items d s = (if s = [] then [] else if last s = d then split_on d [] (butlast s) else split_on d [] s)"

definition ParseGetParameters_curl :: "string_util \<Rightarrow> string \<Rightarrow> (string \<rightharpoonup> string)" where
  "ParseGetParameters_curl su txt =
     (case str_find txt ''?'' 0 of
        None \<Rightarrow> Map.empty
      | Some pos \<Rightarrow>
          fold (\<lambda>item params.
              case str_find item ''='' 0 of
                Some eq_pos \<Rightarrow> params(take eq_pos item \<mapsto> su_url_decode su (drop (eq_pos + 1) item) False)
              | None \<Rightarrow> params(item \<mapsto> ''''))
            (getline_items (CHR ''&'') (drop (pos + 1) txt)) Map.empty)"

end
