(* ===== verification/HttplibClient.thy ===== *)
theory HttplibClient
  imports HttpClient
begin

text \<open>
  HTTPFSClient (src/httpfs_httplib_client.cpp): the options it sets on the httplib client, the five requests
  with the handlers of Get and the receiver of Post, and the responses made from httplib's. The
  client of the wasm build (src/httpfs_client_wasm.cpp), which makes no requests, is here too.
\<close>

section \<open>The options of the client\<close>

record httplib_options =
  hl_follow_location :: bool
  hl_keep_alive :: bool
  hl_ca_cert_path :: string
  hl_verification :: bool
  hl_write_timeout :: "nat \<times> nat"
  hl_read_timeout :: "nat \<times> nat"
  hl_connection_timeout :: "nat \<times> nat"
  hl_decompress :: bool
  hl_bearer_token :: string
  hl_proxy :: "string \<times> int"
  hl_proxy_auth :: "string \<times> string"

record httplib_client =
  hc_options :: httplib_options
  hc_state :: bool

definition Initialize_httplib :: "httpfs_params \<Rightarrow> httplib_options \<Rightarrow> httplib_client" where
  "Initialize_httplib p o1 =
     (let times = (timeout p, timeout_usec p);
          o2 = o1\<lparr>hl_follow_location := follow_location p, hl_keep_alive := keep_alive p,
            hl_ca_cert_path := (if ca_cert_file p \<noteq> '''' then ca_cert_file p else ''''),
            hl_verification := (if override_verify_ssl p then verify_ssl p else enable_server_cert_verification p),
            hl_write_timeout := times, hl_read_timeout := times, hl_connection_timeout := times, hl_decompress := False,
            hl_bearer_token := (if bearer_token p \<noteq> '''' then bearer_token p else '''')\<rparr>;
          o3 = (if http_proxy p \<noteq> ''''
                then (let o4 = o2\<lparr>hl_proxy := (http_proxy p, int (http_proxy_port p))\<rparr>
                      in if http_proxy_username p \<noteq> '''' then o4\<lparr>hl_proxy_auth := (http_proxy_username p, http_proxy_password p)\<rparr> else o4)
                else o2\<lparr>hl_proxy := ('''', -1), hl_proxy_auth := ('''', '''')\<rparr>)
      in \<lparr>hc_options = o3, hc_state = prm_state p\<rparr>)"

text \<open>The constructor; made is what httplib makes of a new client for the host.\<close>

definition HTTPFSClient :: "(string \<Rightarrow> httplib_options) \<Rightarrow> httpfs_params \<Rightarrow> string \<Rightarrow> httplib_client" where
  "HTTPFSClient made p proto_host_port = Initialize_httplib p (made proto_host_port)"

text \<open>With a proxy and no user name the credentials for an earlier proxy stay.\<close>

lemma proxy_credentials_stay:
  "http_proxy p \<noteq> '''' \<Longrightarrow> http_proxy_username p = '''' \<Longrightarrow>
     hl_proxy_auth (hc_options (Initialize_httplib p o1)) = hl_proxy_auth o1 \<and> fst (hl_proxy (hc_options (Initialize_httplib p o1))) = http_proxy p"
  by (simp add: Initialize_httplib_def Let_def)

section \<open>httplib\<close>

text \<open>
  A response of httplib, its headers in the order of the multimap. What httplib does with a request: the
  response it calls the response handler with, the chunks it calls the receiver with, each with the
  cancellation flag at that time, and its result, an error name or a response, unless a handler returned
  false: that ends the transfer with the error Canceled, as httplib documents. lt_flag is the
  flag when the result is back.
\<close>

record lib_response =
  lr_status :: nat
  lr_body :: bytes
  lr_reason :: string
  lr_headers :: kvs

record lib_transfer =
  lt_head :: "lib_response option"
  lt_chunks :: "(bytes \<times> bool) list"
  lt_result :: "string + lib_response"
  lt_flag :: bool

record lib_request =
  lq_method :: string
  lq_path :: string
  lq_headers :: kvs
  lq_body :: bytes
  lq_content_type :: string

record httplib_env = client_env +
  hv_status :: "nat \<Rightarrow> nat"
  hv_canceled :: string

definition TransformHeaders :: "httplib_env \<Rightarrow> headers \<Rightarrow> httpfs_params \<Rightarrow> kvs" where
  "TransformHeaders e hm p =
     (let keep = filter (\<lambda>(k, v). \<not> is_accept_encoding (cv_su e) k)
      in keep (cv_header_map e hm) @ (if pre_merged_headers p then [] else keep (extra_headers p)) @
         [(''Accept-Encoding'', ''identity'')])"

definition lower_headers :: "httplib_env \<Rightarrow> kvs \<Rightarrow> (string \<Rightarrow> string option)" where
  "lower_headers e l = cv_lookup e (map (\<lambda>(k, v). (su_lower (cv_su e) k, v)) l)"

definition TransformResponse_httplib :: "httplib_env \<Rightarrow> lib_response \<Rightarrow> response" where
  "TransformResponse_httplib e r =
     (let result = (cv_response e (hv_status e (lr_status r)))\<lparr>body := lr_body r, reason := lr_reason r,
            hdrs := lower_headers e (lr_headers r)\<rparr>
      in case first_value (lr_headers r) ''Content-Encoding'' of
           None \<Rightarrow> result
         | Some v \<Rightarrow>
             (if su_lower (cv_su e) v \<noteq> ''identity''
              then (cv_response e INVALID)\<lparr>request_error := ''Server returned Content-Encoding '' @ quoted v @
                     '' but the httplib client only supports identity encoding. Switch to the curl client (SET httpfs_client_implementation = '' @
                     quoted ''curl'' @ '') or configure the server to disable transfer compression.'',
                     hdrs := lower_headers e (lr_headers r)\<rparr>
              else result))"

definition TransformResult :: "httplib_env \<Rightarrow> string + lib_response \<Rightarrow> response" where
  "TransformResult e res =
     (case res of
        Inr r \<Rightarrow> TransformResponse_httplib e r
      | Inl error \<Rightarrow> (cv_response e INVALID)\<lparr>request_error := error\<rparr>)"

section \<open>Cancellation\<close>

definition CancellationRequested :: "client_request \<Rightarrow> bool \<Rightarrow> bool" where
  "CancellationRequested rq flag \<longleftrightarrow> cr_cancellation rq \<and> flag"

definition ApplyCancellation :: "response \<Rightarrow> client_request \<Rightarrow> bool \<Rightarrow> response" where
  "ApplyCancellation r rq flag =
     (if has_request_error r \<and> CancellationRequested rq flag
      then r\<lparr>cancelled := True, request_error := ''HTTP '' @ method_name (cr_method rq) @ '' request was cancelled''\<rparr>
      else r)"

text \<open>The chunks the receiver accepts, and whether it returned false on the one behind them.\<close>

fun received :: "client_request \<Rightarrow> (bytes \<times> bool) list \<Rightarrow> bytes list \<times> bool" where
  "received rq [] = ([], False)"
| "received rq ((d, flag) # cs) =
     (if CancellationRequested rq flag then ([], True) else (case received rq cs of (ds, stopped) \<Rightarrow> (d # ds, stopped)))"

definition lib_result :: "httplib_env \<Rightarrow> bool \<Rightarrow> lib_transfer \<Rightarrow> string + lib_response" where
  "lib_result e stopped t = (if stopped then Inl (hv_canceled e) else lt_result t)"

section \<open>Requests\<close>

definition lib_count :: "client_request \<Rightarrow> bool \<Rightarrow> http_state \<Rightarrow> http_state" where
  "lib_count rq counted st =
     (if \<not> counted then st
      else case cr_method rq of
          GET \<Rightarrow> st\<lparr>get_count := get_count st + 1\<rparr>
        | HEAD \<Rightarrow> st\<lparr>head_count := head_count st + 1\<rparr>
        | DELETE \<Rightarrow> st\<lparr>delete_count := delete_count st + 1\<rparr>
        | PUT \<Rightarrow> st\<lparr>put_count := put_count st + 1, total_bytes_sent := total_bytes_sent st + length (cr_body rq)\<rparr>
        | POST \<Rightarrow> st\<lparr>post_count := post_count st + 1, total_bytes_sent := total_bytes_sent st + length (cr_body rq)\<rparr>)"

definition bytes_in :: "bool \<Rightarrow> nat \<Rightarrow> http_state \<Rightarrow> http_state" where
  "bytes_in counted n st = (if counted then st\<lparr>total_bytes_received := total_bytes_received st + n\<rparr> else st)"

abbreviation (input) lib_headers :: "httplib_env \<Rightarrow> client_request \<Rightarrow> kvs" where
  "lib_headers e rq \<equiv> TransformHeaders e (client_user_agent (cr_params rq) (cr_headers rq)) (cr_params rq)"

text \<open>
  Get: handlers tells whether a response or a content handler was given. With one, the
  head goes to the response handler, chunks of an error answer become the error body, the others go to the content handler.
\<close>

definition Get_httplib :: "httplib_env \<Rightarrow> (lib_request \<Rightarrow> lib_transfer) \<Rightarrow> bool \<Rightarrow> client_request \<Rightarrow> httplib_client \<Rightarrow> http_state \<Rightarrow>
    attempt \<times> http_state" where
  "Get_httplib e net handlers rq c st =
     (let st1 = lib_count (rq\<lparr>cr_method := GET\<rparr>) (hc_state c) st; rq1 = rq\<lparr>cr_method := GET\<rparr>;
          t = net \<lparr>lq_method = ''GET'', lq_path = cr_path rq, lq_headers = lib_headers e rq, lq_body = [], lq_content_type = []\<rparr>
      in if \<not> handlers
         then (let r = ApplyCancellation (TransformResult e (lt_result t)) rq1 (lt_flag t)
               in (Attempt [] (Inr (Some r)), bytes_in (hc_state c) (length (body r)) st1))
         else
           (let head = map_option (TransformResponse_httplib e) (lt_head t);
                response_status = (case head of None \<Rightarrow> INVALID | Some r \<Rightarrow> status r)
            in case received rq (lt_chunks t) of
                 (ds, stopped) \<Rightarrow>
                   (let r = TransformResult e (lib_result e stopped t);
                        r1 = (if status r \<ge> 400 then r\<lparr>body := (if response_status \<ge> 400 then concat ds else [])\<rparr> else r);
                        events = (case head of None \<Rightarrow> [] | Some h \<Rightarrow> [RespHead h]) @ (if response_status \<ge> 400 then [] else map Data ds)
                    in (Attempt events (Inr (Some (ApplyCancellation r1 rq1 (lt_flag t)))),
                        bytes_in (hc_state c) (length (concat ds)) st1))))"

definition simple_httplib :: "httplib_env \<Rightarrow> (lib_request \<Rightarrow> lib_transfer) \<Rightarrow> client_request \<Rightarrow> httplib_client \<Rightarrow> http_state \<Rightarrow>
    attempt \<times> http_state" where
  "simple_httplib e net rq c st =
     (let t = net \<lparr>lq_method = method_name (cr_method rq), lq_path = cr_path rq, lq_headers = lib_headers e rq,
            lq_body = (if cr_method rq = PUT then cr_body rq else []),
            lq_content_type = (if cr_method rq = PUT then cr_content_type rq else [])\<rparr>
      in (Attempt [] (Inr (Some (ApplyCancellation (TransformResult e (lt_result t)) rq (lt_flag t)))), lib_count rq (hc_state c) st))"

definition Put_httplib where
  "Put_httplib e net rq c st = simple_httplib e net (rq\<lparr>cr_method := PUT\<rparr>) c st"

definition Head_httplib where
  "Head_httplib e net rq c st = simple_httplib e net (rq\<lparr>cr_method := HEAD\<rparr>) c st"

definition Delete_httplib where
  "Delete_httplib e net rq c st = simple_httplib e net (rq\<lparr>cr_method := DELETE\<rparr>) c st"

text \<open>Post; the second result is the caller's buffer_out.\<close>

definition post_request :: "httplib_env \<Rightarrow> client_request \<Rightarrow> lib_request" where
  "post_request e rq =
     (let hs = lib_headers e rq
      in \<lparr>lq_method = (if cr_post_as_get rq then ''GET'' else ''POST''), lq_path = cr_path rq,
          lq_headers = (if first_value hs ''Content-Type'' = None then hs @ [(''Content-Type'', ''application/octet-stream'')] else hs),
          lq_body = cr_body rq, lq_content_type = []\<rparr>)"

definition Post_httplib :: "httplib_env \<Rightarrow> (lib_request \<Rightarrow> lib_transfer) \<Rightarrow> client_request \<Rightarrow> bytes \<Rightarrow> httplib_client \<Rightarrow> http_state \<Rightarrow>
    attempt \<times> bytes \<times> http_state" where
  "Post_httplib e net rq buffer_out c st =
     (let rq1 = rq\<lparr>cr_method := POST\<rparr>; t = net (post_request e rq)
      in case received rq (lt_chunks t) of
           (ds, stopped) \<Rightarrow>
             (let r = TransformResult e (lib_result e stopped t);
                  r1 = (if has_request_error r \<and> CancellationRequested rq (lt_flag t) then ApplyCancellation r rq1 (lt_flag t)
                        else r\<lparr>body := cr_body rq\<rparr>)
              in (Attempt [] (Inr (Some r1)), buffer_out @ concat ds,
                  bytes_in (hc_state c) (length (concat ds)) (lib_count rq1 (hc_state c) st))))"

section \<open>The build without httplib\<close>

definition InitializeClient_httplib :: "(string \<Rightarrow> httplib_options) \<Rightarrow> httpfs_params \<Rightarrow> string \<Rightarrow> exn + httplib_client" where
  "InitializeClient_httplib made p proto_host_port = Inr (HTTPFSClient made p proto_host_port)"

definition InitializeClient_wasm :: "httpfs_params \<Rightarrow> string \<Rightarrow> exn + httplib_client" where
  "InitializeClient_wasm p proto_host_port =
     Inl (Exn ExInternal ''HTTPFSUtil::InitializeClient is not expected to be called'' None)"

definition ParseGetParameters_wasm :: "string \<Rightarrow> (string \<rightharpoonup> string)" where
  "ParseGetParameters_wasm txt = Map.empty"

text \<open>ParseGetParameters of the httplib client; parse_query_text is httplib's. Emplace keeps the first entry of a key.\<close>

definition ParseGetParameters_httplib :: "(string \<Rightarrow> kvs) \<Rightarrow> string \<Rightarrow> (string \<rightharpoonup> string)" where
  "ParseGetParameters_httplib parse_query_text txt =
     fold (\<lambda>(k, v) m. if m k = None then m(k \<mapsto> v) else m) (parse_query_text txt) Map.empty"

section \<open>A range request answered by a server\<close>

lemma lower_headers_value:
  assumes ok: "client_ok (client_env.truncate e)" and found: "lower_headers e l k = Some v"
  shows "\<exists>k1. (k1, v) \<in> set l \<and> lower_case k1 = lower_case k"
proof -
  have lo: "lower_ok (cv_su e)" and h: "headers_ok (client_env.truncate e)"
    using ok by (simp_all add: client_ok_def client_env.defs)
  have lk: "cv_lookup (client_env.truncate e) (map (\<lambda>(k, v). (su_lower (cv_su e) k, v)) l) k = Some v"
    using found by (simp add: lower_headers_def client_env.defs)
  obtain k1 where "(k1, v) \<in> set (map (\<lambda>(k, v). (su_lower (cv_su e) k, v)) l)" "lower_case k1 = lower_case k"
    using lookup_Some [OF h lk] by blast
  then show ?thesis by (auto simp: lower_ok_map [OF lo] comp_def lower_twice)
qed

lemma new_response:
  "client_ok (client_env.truncate e) \<Longrightarrow> status (cv_response e st) = st \<and> body (cv_response e st) = [] \<and>
     request_error (cv_response e st) = [] \<and> success (cv_response e st) \<and> \<not> cancelled (cv_response e st)"
  by (simp add: client_ok_def client_env.defs)

lemma received_all: "(\<forall>(d, flag) \<in> set cs. \<not> CancellationRequested rq flag) \<Longrightarrow> received rq cs = (map fst cs, False)"
  by (induction cs) auto

lemma first_value_identity:
  assumes "lower_ok su" and "\<forall>(k, v) \<in> set hs. lower_case k = ''content-encoding'' \<longrightarrow> lower_case v = ''identity''"
    and "first_value hs ''Content-Encoding'' = Some v"
  shows "su_lower su v = ''identity''"
proof -
  have n: "lower_case ''Content-Encoding'' = ''content-encoding''" by code_simp
  obtain k where "(k, v) \<in> set hs" "lower_case k = lower_case ''Content-Encoding''" using first_value_Some [OF assms(3)] by blast
  then have "lower_case v = ''identity''" using assms(2) unfolding n by fastforce
  then show ?thesis by (simp add: lower_ok_map [OF assms(1)])
qed

text \<open>
  The httplib client is such a transport too: a server's answer of 206 with the bytes asked for, in any
  chunks, and headers that agree with them reaches the handlers of Get as one response and exactly
  these bytes, which meets the contract under which reads were proved exact.
\<close>

lemma httplib_get_is_good:
  assumes ok: "client_ok (client_env.truncate e)" and st: "hv_status e 206 = 206"
    and net: "\<And>rq1. net rq1 = \<lparr>lt_head = Some \<lparr>lr_status = 206, lr_body = [], lr_reason = why, lr_headers = hs\<rparr>,
       lt_chunks = map (\<lambda>d. (d, False)) ds, lt_result = Inr \<lparr>lr_status = 206, lr_body = [], lr_reason = why, lr_headers = hs\<rparr>,
       lt_flag = flag\<rparr>"
    and ds: "concat ds = slice content off len"
    and hs: "\<forall>(k, v) \<in> set hs. (lower_case k = ''etag'' \<longrightarrow> v = tag) \<and> (lower_case k = ''content-length'' \<longrightarrow> v = to_string len) \<and>
       (lower_case k = ''content-encoding'' \<longrightarrow> lower_case v = ''identity'')"
  shows "good_answer content tag off len [fst (Get_httplib e net True rq c st0)]"
proof -
  let ?lr = "\<lparr>lr_status = 206, lr_body = [], lr_reason = why, lr_headers = hs\<rparr>"
  let ?r = "TransformResponse_httplib e ?lr"
  have lo: "lower_ok (cv_su e)" using ok by (simp add: client_ok_def client_env.defs)
  have id: "su_lower (cv_su e) v = ''identity''" if "first_value hs ''Content-Encoding'' = Some v" for v
    using hs by (intro first_value_identity [OF lo _ that]) auto
  have tr: "?r = (cv_response e 206)\<lparr>body := [], reason := why, hdrs := lower_headers e hs\<rparr>"
    using id st by (simp add: TransformResponse_httplib_def Let_def split: option.splits)
  have r: "status ?r = 206" "\<not> has_request_error ?r" "success ?r"
    using new_response [OF ok] by (simp_all add: tr has_request_error_def)
  have names: "lower_case ''ETag'' = ''etag''" "lower_case ''Content-Length'' = ''content-length''" by code_simp+
  have etag: "hdrs ?r ''ETag'' \<in> {None, Some tag}"
    using lower_headers_value [OF ok, of hs "''ETag''"] hs unfolding names by (cases "lower_headers e hs ''ETag''") (auto simp: tr)
  have clen: "hdrs ?r ''Content-Length'' \<in> {None, Some (to_string len)}"
    using lower_headers_value [OF ok, of hs "''Content-Length''"] hs unfolding names
    by (cases "lower_headers e hs ''Content-Length''") (auto simp: tr)
  have rec: "received rq (map (\<lambda>d. (d, False)) ds) = (ds, False)"
    using received_all [of "map (\<lambda>d. (d, False)) ds" rq] by (simp add: CancellationRequested_def comp_def)
  have "fst (Get_httplib e net True rq c st0) = Attempt (RespHead ?r # map Data ds) (Inr (Some ?r))"
    using r rec by (simp add: Get_httplib_def net Let_def lib_result_def TransformResult_def ApplyCancellation_def)
  then show ?thesis unfolding good_answer_def using r etag clen ds
    by (intro exI [of _ "[]"] exI [of _ ?r] exI [of _ ds]) simp
qed

definition demo_httplib_env :: httplib_env where
  "demo_httplib_env = client_env.extend demo_client_env (httplib_env.fields id ''Canceled'')"

lemma demo_httplib_ok: "client_ok (client_env.truncate demo_httplib_env)" "hv_status demo_httplib_env 206 = 206"
proof -
  have "client_env.truncate demo_httplib_env = demo_client_env"
    by (simp add: demo_httplib_env_def client_env.defs httplib_env.defs demo_client_env_def)
  then show "client_ok (client_env.truncate demo_httplib_env)" by (simp add: demo_client_ok)
  show "hv_status demo_httplib_env 206 = 206" by (simp add: demo_httplib_env_def client_env.defs httplib_env.defs)
qed

definition demo_lib_request :: client_request where
  "demo_lib_request = \<lparr>cr_method = GET, cr_url = ''https://h/f'', cr_path = ''/f'', cr_headers = [HInsert ''Range'' ''bytes=1-2''],
     cr_params = demo_params, cr_body = ''<up/>'', cr_content_type = [], cr_post_as_get = False, cr_cancellation = True\<rparr>"

definition demo_lib_client :: httplib_client where
  "demo_lib_client = HTTPFSClient (\<lambda>_. \<lparr>hl_follow_location = False, hl_keep_alive = False, hl_ca_cert_path = [],
     hl_verification = True, hl_write_timeout = (5, 0), hl_read_timeout = (5, 0), hl_connection_timeout = (5, 0),
     hl_decompress = True, hl_bearer_token = [], hl_proxy = ([], -1), hl_proxy_auth = ([], [])\<rparr>) demo_params ''https://h''"

lemma httplib_get_is_good_example:
  "good_answer ''xaby'' ''t'' 1 2 [fst (Get_httplib demo_httplib_env
     (\<lambda>_. \<lparr>lt_head = Some \<lparr>lr_status = 206, lr_body = [], lr_reason = ''Partial'', lr_headers = [(''ETag'', ''t''), (''content-length'', ''2'')]\<rparr>,
        lt_chunks = map (\<lambda>d. (d, False)) [''a'', ''b''],
        lt_result = Inr \<lparr>lr_status = 206, lr_body = [], lr_reason = ''Partial'', lr_headers = [(''ETag'', ''t''), (''content-length'', ''2'')]\<rparr>,
        lt_flag = False\<rparr>) True demo_lib_request demo_lib_client new_http_state)]"
proof -
  have names: "\<forall>(k, v) \<in> set [(''ETag'', ''t''), (''content-length'', ''2'')]. (lower_case k = ''etag'' \<longrightarrow> v = ''t'') \<and>
      (lower_case k = ''content-length'' \<longrightarrow> v = to_string 2) \<and> (lower_case k = ''content-encoding'' \<longrightarrow> lower_case v = ''identity'')"
    by code_simp
  show ?thesis by (rule httplib_get_is_good [OF demo_httplib_ok refl _ names]) (simp add: slice_def)
qed

section \<open>Cancelled transfers\<close>

lemma received_cancelled:
  "cr_cancellation rq \<Longrightarrow> (\<forall>(d, flag) \<in> set before. \<not> flag) \<Longrightarrow> received rq (before @ (d, True) # later) = (map fst before, True)"
  by (induction before) (auto simp: CancellationRequested_def)

text \<open>
  When the flag of a Get is set while its body arrives, the content handler has seen the chunks before that
  and sees no other, and the request ends in a response that is marked as cancelled and carries an error; a
  response without an error is never marked as cancelled.
\<close>

theorem cancelled_get_stops:
  assumes "client_ok (client_env.truncate e)" and "hv_canceled e \<noteq> ''''"
    and "cr_cancellation rq" and "\<forall>(d, flag) \<in> set before. \<not> flag"
    and net: "\<And>rq1. net rq1 = \<lparr>lt_head = Some h, lt_chunks = before @ (d, True) # later, lt_result = res, lt_flag = True\<rparr>"
  shows "\<exists>ev r. fst (Get_httplib e net True rq c st) = Attempt ev (Inr (Some r)) \<and> cancelled r \<and> has_request_error r \<and>
     (status (TransformResponse_httplib e h) < 400 \<longrightarrow> ev = RespHead (TransformResponse_httplib e h) # map (\<lambda>(d, _). Data d) before)"
proof -
  have rec: "received rq (before @ (d, True) # later) = (map fst before, True)" by (rule received_cancelled [OF assms(3,4)])
  let ?r = "(cv_response e INVALID)\<lparr>request_error := hv_canceled e\<rparr>"
  let ?r1 = "ApplyCancellation ?r (rq\<lparr>cr_method := GET\<rparr>) True"
  have r1: "cancelled ?r1 \<and> has_request_error ?r1" using assms(2,3)
    by (simp add: ApplyCancellation_def has_request_error_def CancellationRequested_def)
  have ev: "map Data (map fst before) = map (\<lambda>(d, _). Data d) before" by auto
  have "fst (Get_httplib e net True rq c st) = Attempt (RespHead (TransformResponse_httplib e h) #
      (if status (TransformResponse_httplib e h) \<ge> 400 then [] else map Data (map fst before))) (Inr (Some ?r1))"
    using rec new_response [OF assms(1)] by (simp add: Get_httplib_def net Let_def lib_result_def TransformResult_def)
  then show ?thesis using r1 ev by auto
qed

theorem cancelled_get_stops_witness:
  "\<exists>ev r. fst (Get_httplib demo_httplib_env (\<lambda>_. \<lparr>lt_head = Some \<lparr>lr_status = 206, lr_body = [], lr_reason = [], lr_headers = []\<rparr>,
      lt_chunks = [(''a'', False), (''b'', True)], lt_result = Inl ''Read'', lt_flag = True\<rparr>) True demo_lib_request demo_lib_client new_http_state)
     = Attempt ev (Inr (Some r)) \<and> cancelled r"
proof -
  have a: "hv_canceled demo_httplib_env \<noteq> ''''" "cr_cancellation demo_lib_request"
    by (simp_all add: demo_httplib_env_def client_env.defs httplib_env.defs demo_lib_request_def)
  have net: "(\<lambda>_. \<lparr>lt_head = Some \<lparr>lr_status = 206, lr_body = [], lr_reason = [], lr_headers = []\<rparr>,
      lt_chunks = [(''a'', False), (''b'', True)], lt_result = Inl ''Read'', lt_flag = True\<rparr>) rq1 =
      \<lparr>lt_head = Some \<lparr>lr_status = 206, lr_body = [], lr_reason = [], lr_headers = []\<rparr>,
      lt_chunks = [(''a'', False)] @ (''b'', True) # [], lt_result = Inl ''Read'', lt_flag = True\<rparr>" for rq1 :: lib_request by simp
  have flags: "\<forall>(d, flag) \<in> set [(''a'', False)]. \<not> flag" by simp
  show ?thesis using cancelled_get_stops [OF demo_httplib_ok(1) a flags net, of demo_lib_client new_http_state] by blast
qed

section \<open>The body of an answer to a POST\<close>

text \<open>
  C37: Post of the httplib client puts the body it uploaded into the response it returns, whatever the server
  answered: the server's answer is only in the caller's buffer. The comment in front of the assignment says
  the opposite, and the code that looks for an error code in the body of a response finds its own request.
\<close>

theorem post_answers_with_upload:
  assumes "lt_result (net (post_request e rq)) = Inr lr" and "\<forall>(d, flag) \<in> set (lt_chunks (net (post_request e rq))). \<not> flag"
    and "\<not> lt_flag (net (post_request e rq))"
  shows "\<exists>r st1. Post_httplib e net rq [] c st = (Attempt [] (Inr (Some r)), concat (map fst (lt_chunks (net (post_request e rq)))), st1) \<and>
     body r = cr_body rq \<and> status r = status (TransformResponse_httplib e lr)"
proof -
  have rec: "received rq (lt_chunks (net (post_request e rq))) = (map fst (lt_chunks (net (post_request e rq))), False)"
    using assms(2) by (intro received_all) (auto simp: CancellationRequested_def)
  then show ?thesis using assms(1,3)
    by (simp add: Post_httplib_def Let_def lib_result_def TransformResult_def CancellationRequested_def)
qed

definition denied :: "lib_request \<Rightarrow> lib_transfer" where
  "denied rq1 = \<lparr>lt_head = None, lt_chunks = [(''<Error/>'', False)],
     lt_result = Inr \<lparr>lr_status = 403, lr_body = [], lr_reason = ''Forbidden'', lr_headers = []\<rparr>, lt_flag = False\<rparr>"

theorem post_answers_with_upload_witness:
  "\<exists>r st1. Post_httplib demo_httplib_env denied demo_lib_request [] demo_lib_client new_http_state = (Attempt [] (Inr (Some r)), ''<Error/>'', st1) \<and>
     body r = ''<up/>''"
proof -
  have "lt_result (denied (post_request demo_httplib_env demo_lib_request)) = Inr \<lparr>lr_status = 403, lr_body = [], lr_reason = ''Forbidden'', lr_headers = []\<rparr>"
    "\<forall>(d, flag) \<in> set (lt_chunks (denied (post_request demo_httplib_env demo_lib_request))). \<not> flag"
    "\<not> lt_flag (denied (post_request demo_httplib_env demo_lib_request))" by (simp_all add: denied_def)
  note p = post_answers_with_upload [where net = denied, OF this, of demo_lib_client new_http_state]
  have "concat (map fst (lt_chunks (denied (post_request demo_httplib_env demo_lib_request)))) = ''<Error/>''" by (simp add: denied_def)
  moreover have "cr_body demo_lib_request = ''<up/>''" by (simp add: demo_lib_request_def)
  ultimately show ?thesis using p by auto
qed

end
