(* ===== verification/ReadsOverClients.thy ===== *)
theory ReadsOverClients
  imports CurlClient HttplibClient
begin

text \<open>
  The HTTP file system's reads over the two HTTP clients: what a client has to do for the reads to be exact,
  as a locale, its interpretations for the Get of the curl client and of the httplib client, and the reads
  over each. HTTPUtil::Request is a parameter elsewhere; here it makes one attempt on some client of the host.
\<close>

section \<open>The interface\<close>

text \<open>
  get k net rq is the attempt that the client of the k-th request makes of rq over the network
  net; answers tells that the network answers it with the bytes [off, off + len) of the file.
\<close>

locale range_client =
  fixes get :: "nat \<Rightarrow> 'n \<Rightarrow> http_request \<Rightarrow> attempt"
    and answers :: "'n \<Rightarrow> http_request \<Rightarrow> bytes \<Rightarrow> string \<Rightarrow> nat \<Rightarrow> nat \<Rightarrow> bool"
  assumes get_good: "rq_method rq = GET \<Longrightarrow> answers net rq content tag off len \<Longrightarrow> good_answer content tag off len [get k net rq]"
begin

definition transport_over :: "'n \<Rightarrow> transport" where
  "transport_over net = (\<lambda>k rq cl. \<lparr>attempts = [get k net rq], client_after = cl\<rparr>)"

definition answers_ranges :: "'n \<Rightarrow> string \<Rightarrow> bytes \<Rightarrow> string \<Rightarrow> bool" where
  "answers_ranges net url content tag \<longleftrightarrow>
     (\<forall>rq hm off len. rq_method rq = GET \<longrightarrow> rq_url rq = url \<longrightarrow> rq_headers rq = hm @ [HInsert ''Range'' (range_expr off len)] \<longrightarrow>
        0 < len \<longrightarrow> off + len \<le> length content \<longrightarrow> answers net rq content tag off len)"

lemma transport_serves:
  "e_net e = transport_over net \<Longrightarrow> answers_ranges net url content tag \<Longrightarrow> serves e url content tag"
  unfolding serves_def answers_ranges_def by (simp add: transport_over_def get_good)

lemma read_over:
  assumes "e_net e = transport_over net" and "answers_ranges net (h_path h) content tag" and "length content < 2 ^ 63"
    and "unsafe_disable_etag_checks (h_params h) \<or> h_etag h = '''' \<or> StripETagQuotes tag = StripETagQuotes (h_etag h)"
    and "window_ok content h" and "h_length h = length content" and "h_cached_file h = None"
    and "loc + n \<le> length content" and "n \<le> length dst"
  shows "\<exists>h' w'. Read e (http_ops e) n loc dst h w = (None, overwrite dst 0 (slice content loc n), h', w') \<and>
     file_offset h' = loc + n \<and> window_ok content h'"
proof -
  have "http_good e (h_path h) content tag h w"
    using transport_serves [OF assms(1,2)] assms(3,4) by (simp add: http_good_def)
  then show ?thesis using http.Read_exact [of e "h_path h" content tag h w] assms(5-9) by blast
qed

end

section \<open>The request a client is given\<close>

text \<open>
  decompose is HTTPUtil::DecomposeURL for the path, p the parameters of the request.
\<close>

definition as_client_request :: "(string \<Rightarrow> string) \<Rightarrow> httpfs_params \<Rightarrow> http_request \<Rightarrow> client_request" where
  "as_client_request decompose p rq =
     \<lparr>cr_method = rq_method rq, cr_url = rq_url rq, cr_path = decompose (rq_url rq), cr_headers = rq_headers rq, cr_params = p,
      cr_body = rq_body rq, cr_content_type = rq_content_type rq, cr_post_as_get = False, cr_cancellation = rq_cancellation rq\<rparr>"

text \<open>Headers of a server that are consistent with the file: its validator, the length, no encoding.\<close>

definition fitting_headers :: "kvs \<Rightarrow> string \<Rightarrow> nat \<Rightarrow> bool" where
  "fitting_headers hs tag len \<longleftrightarrow>
     (\<forall>(k, v) \<in> set hs. (lower_case k = ''etag'' \<longrightarrow> v = tag) \<and> (lower_case k = ''content-length'' \<longrightarrow> v = to_string len) \<and>
        (lower_case k = ''content-encoding'' \<longrightarrow> lower_case v = ''identity''))"

section \<open>Over curl\<close>

text \<open>A client between requests: its handle writes to the RequestInfo it owns, as Initialize leaves it.\<close>

definition curl_ready :: "curl_client \<Rightarrow> bool" where
  "curl_ready c \<longleftrightarrow> (\<exists>h. cc_easy c = Some h \<and> e_sink h = cc_info c)"

definition curl_get :: "client_env \<Rightarrow> (string \<Rightarrow> string) \<Rightarrow> httpfs_params \<Rightarrow> (nat \<Rightarrow> curl_client) \<Rightarrow> http_state \<Rightarrow> nat \<Rightarrow>
    (http_request \<Rightarrow> easy \<Rightarrow> wire) \<Rightarrow> http_request \<Rightarrow> attempt" where
  "curl_get e decompose p cs st k net rq = fst (Get_curl e (net rq) (as_client_request decompose p rq) (cs k) st)"

text \<open>
  The network over curl: it follows redirects and then delivers a head with status 206 and the bytes, in any chunks.
\<close>

definition curl_answers :: "client_env \<Rightarrow> (nat \<Rightarrow> curl_client) \<Rightarrow> (http_request \<Rightarrow> easy \<Rightarrow> wire) \<Rightarrow> http_request \<Rightarrow> bytes \<Rightarrow> string \<Rightarrow>
    nat \<Rightarrow> nat \<Rightarrow> bool" where
  "curl_answers e cs net rq content tag off len \<longleftrightarrow> client_ok e \<and> (\<forall>k. curl_ready (cs k)) \<and>
     (\<exists>redirects line hs ds flag. (\<forall>h. net rq h = \<lparr>wr_code = OK_CODE, wr_status = 206,
         wr_lines = concat (map render_head (redirects @ [(line, hs)])), wr_data = ds, wr_flag = flag\<rparr>) \<and>
       list_all ok_head (redirects @ [(line, hs)]) \<and> concat ds = slice content off len \<and> fitting_headers hs tag len)"

interpretation curl: range_client "curl_get e decompose p cs st" "curl_answers e cs"
  for e decompose p cs st
proof unfold_locales
  fix rq :: http_request and net content tag off len k
  assume g: "rq_method rq = GET" and a: "curl_answers e cs net rq content tag off len"
  obtain h where h: "cc_easy (cs k) = Some h" "e_sink h = cc_info (cs k)" using a by (auto simp: curl_answers_def curl_ready_def)
  obtain redirects line hs ds flag where w: "\<And>h. net rq h = \<lparr>wr_code = OK_CODE, wr_status = 206,
         wr_lines = concat (map render_head (redirects @ [(line, hs)])), wr_data = ds, wr_flag = flag\<rparr>"
      and ok: "list_all ok_head (redirects @ [(line, hs)])" "concat ds = slice content off len" "fitting_headers hs tag len"
    using a unfolding curl_answers_def by blast
  have get: "cr_method ((as_client_request decompose p rq)\<lparr>cr_method := GET\<rparr>) = GET" by simp
  have e: "client_ok e" using a by (simp add: curl_answers_def)
  show "good_answer content tag off len [curl_get e decompose p cs st k net rq]"
    unfolding curl_get_def Get_curl_def
    by (rule curl_get_is_good [OF e h get w ok(1,2) ok(3) [unfolded fitting_headers_def]])
qed

section \<open>Over httplib\<close>

definition httplib_get :: "httplib_env \<Rightarrow> (string \<Rightarrow> string) \<Rightarrow> httpfs_params \<Rightarrow> (nat \<Rightarrow> httplib_client) \<Rightarrow> http_state \<Rightarrow> nat \<Rightarrow>
    (http_request \<Rightarrow> lib_request \<Rightarrow> lib_transfer) \<Rightarrow> http_request \<Rightarrow> attempt" where
  "httplib_get e decompose p cs st k net rq = fst (Get_httplib e (net rq) True (as_client_request decompose p rq) (cs k) st)"

definition httplib_answers :: "httplib_env \<Rightarrow> (http_request \<Rightarrow> lib_request \<Rightarrow> lib_transfer) \<Rightarrow> http_request \<Rightarrow> bytes \<Rightarrow> string \<Rightarrow>
    nat \<Rightarrow> nat \<Rightarrow> bool" where
  "httplib_answers e net rq content tag off len \<longleftrightarrow> client_ok (client_env.truncate e) \<and> hv_status e 206 = 206 \<and>
     (\<exists>why hs ds flag. (\<forall>q. net rq q = \<lparr>lt_head = Some \<lparr>lr_status = 206, lr_body = [], lr_reason = why, lr_headers = hs\<rparr>,
         lt_chunks = map (\<lambda>d. (d, False)) ds, lt_result = Inr \<lparr>lr_status = 206, lr_body = [], lr_reason = why, lr_headers = hs\<rparr>,
         lt_flag = flag\<rparr>) \<and> concat ds = slice content off len \<and> fitting_headers hs tag len)"

interpretation httplib: range_client "httplib_get e decompose p cs st" "httplib_answers e"
  for e decompose p cs st
proof unfold_locales
  fix rq :: http_request and net content tag off len k
  assume a: "httplib_answers e net rq content tag off len"
  obtain why hs ds flag where w: "\<And>q. net rq q = \<lparr>lt_head = Some \<lparr>lr_status = 206, lr_body = [], lr_reason = why, lr_headers = hs\<rparr>,
         lt_chunks = map (\<lambda>d. (d, False)) ds, lt_result = Inr \<lparr>lr_status = 206, lr_body = [], lr_reason = why, lr_headers = hs\<rparr>,
         lt_flag = flag\<rparr>" and ok: "concat ds = slice content off len" "fitting_headers hs tag len"
    using a unfolding httplib_answers_def by blast
  have e: "client_ok (client_env.truncate e)" "hv_status e 206 = 206" using a by (simp_all add: httplib_answers_def)
  show "good_answer content tag off len [httplib_get e decompose p cs st k net rq]"
    unfolding httplib_get_def by (rule httplib_get_is_good [OF e w ok(1) ok(2) [unfolded fitting_headers_def]])
qed

section \<open>Reads\<close>

text \<open>
  C8: Reads through the curl client are exact, from the header lines and chunks that libcurl delivers up to the
  caller's buffer: over a network that answers range requests with 206, the bytes asked for and
  headers consistent with them, behind any redirects, Read of n bytes at loc returns no error, writes exactly the
  file's bytes and leaves a handle on which the next read is exact.
\<close>

theorem reads_over_curl_exact:
  assumes "e_net env0 = (\<lambda>k rq cl. \<lparr>attempts = [curl_get e decompose p cs st k net rq], client_after = cl\<rparr>)"
    and "\<And>rq hm off len. rq_method rq = GET \<Longrightarrow> rq_url rq = h_path h \<Longrightarrow> rq_headers rq = hm @ [HInsert ''Range'' (range_expr off len)] \<Longrightarrow>
      0 < len \<Longrightarrow> off + len \<le> length content \<Longrightarrow> curl_answers e cs net rq content tag off len"
    and "length content < 2 ^ 63"
    and "unsafe_disable_etag_checks (h_params h) \<or> h_etag h = '''' \<or> StripETagQuotes tag = StripETagQuotes (h_etag h)"
    and "window_ok content h" and "h_length h = length content" and "h_cached_file h = None"
    and "loc + n \<le> length content" and "n \<le> length dst"
  shows "\<exists>h' w'. Read env0 (http_ops env0) n loc dst h w = (None, overwrite dst 0 (slice content loc n), h', w') \<and>
     file_offset h' = loc + n \<and> window_ok content h'"
  using assms(1,2)
  by (intro curl.read_over [OF _ _ assms(3-9)]) (auto simp: curl.transport_over_def curl.answers_ranges_def)

text \<open>
  C21: Reads through the httplib client are exact in the same sense: its handlers stream the chunks of the
  answer into the caller's buffer.
\<close>

theorem reads_over_httplib_exact:
  assumes "e_net env0 = (\<lambda>k rq cl. \<lparr>attempts = [httplib_get e decompose p cs st k net rq], client_after = cl\<rparr>)"
    and "\<And>rq hm off len. rq_method rq = GET \<Longrightarrow> rq_url rq = h_path h \<Longrightarrow> rq_headers rq = hm @ [HInsert ''Range'' (range_expr off len)] \<Longrightarrow>
      0 < len \<Longrightarrow> off + len \<le> length content \<Longrightarrow> httplib_answers e net rq content tag off len"
    and "length content < 2 ^ 63"
    and "unsafe_disable_etag_checks (h_params h) \<or> h_etag h = '''' \<or> StripETagQuotes tag = StripETagQuotes (h_etag h)"
    and "window_ok content h" and "h_length h = length content" and "h_cached_file h = None"
    and "loc + n \<le> length content" and "n \<le> length dst"
  shows "\<exists>h' w'. Read env0 (http_ops env0) n loc dst h w = (None, overwrite dst 0 (slice content loc n), h', w') \<and>
     file_offset h' = loc + n \<and> window_ok content h'"
  using assms(1,2)
  by (intro httplib.read_over [OF _ _ assms(3-9)]) (auto simp: httplib.transport_over_def httplib.answers_ranges_def)

section \<open>Concrete networks\<close>

definition asked_range :: "http_request \<Rightarrow> (nat \<times> nat) option" where
  "asked_range rq = (if rq_headers rq = [] then None else case last (rq_headers rq) of HInsert _ v \<Rightarrow> parse_range v | HSet _ _ \<Rightarrow> None)"

lemma asked_range_of:
  assumes "rq_headers rq = hm @ [HInsert ''Range'' (range_expr off len)]" and "0 < len" and "off + len < w64"
  shows "asked_range rq = Some (off, off + len - 1)"
  using assms range_expr_roundtrip [OF assms(2)] by (simp add: asked_range_def)

definition file_headers :: "nat \<Rightarrow> kvs" where
  "file_headers len = [(''Content-Length'', to_string len), (''ETag'', ''t'')]"

lemma file_headers_fit: "fitting_headers (file_headers len) ''t'' len"
proof -
  have l: "lower_case ''Content-Length'' = ''content-length''" "lower_case ''ETag'' = ''etag''" by code_simp+
  show ?thesis unfolding fitting_headers_def file_headers_def by (simp add: l)
qed

definition file_wire :: "bytes \<Rightarrow> http_request \<Rightarrow> easy \<Rightarrow> wire" where
  "file_wire content rq h =
     (case asked_range rq of
        None \<Rightarrow> \<lparr>wr_code = 7, wr_status = 0, wr_lines = [], wr_data = [], wr_flag = False\<rparr>
      | Some (a, b) \<Rightarrow> \<lparr>wr_code = 0, wr_status = 206,
          wr_lines = concat (map render_head ([(''HTTP/2 307'', [(''location'', ''https://h2/f'')])] @ [(''HTTP/2 206'', file_headers (Suc b - a))])),
          wr_data = [take 1 (slice content a (Suc b - a)), drop 1 (slice content a (Suc b - a))], wr_flag = False\<rparr>)"

lemma file_wire_answers:
  assumes "rq_headers rq = hm @ [HInsert ''Range'' (range_expr off len)]" and "0 < len" and "off + len < w64"
  shows "curl_answers demo_client_env (\<lambda>_. client_3) (file_wire content) rq content ''t'' off len"
proof -
  obtain h where h: "cc_easy client_3 = Some h" "e_sink h = cc_info client_3"
    using Initialize_result [OF demo_clients_initialize(2) disjI2, OF curl_reach_inv, OF demo_client_used] by auto
  have ok: "list_all ok_head ([(''HTTP/2 307'', [(''location'', ''https://h2/f'')])] @ [(''HTTP/2 206'', file_headers len)])"
    by (simp add: ok_head_def file_headers_def)
  have w: "\<forall>h. file_wire content rq h = \<lparr>wr_code = OK_CODE, wr_status = 206,
      wr_lines = concat (map render_head ([(''HTTP/2 307'', [(''location'', ''https://h2/f'')])] @ [(''HTTP/2 206'', file_headers len)])),
      wr_data = [take 1 (slice content off len), drop 1 (slice content off len)], wr_flag = False\<rparr>"
    using asked_range_of [OF assms] assms(2) by (simp add: file_wire_def)
  have d: "concat [take 1 (slice content off len), drop 1 (slice content off len)] = slice content off len" by simp
  show ?thesis unfolding curl_answers_def curl_ready_def using demo_client_ok h w ok d file_headers_fit by blast
qed

definition curl_world :: env where
  "curl_world = (demo_env ''abcdefghijklmno'' ''t'')\<lparr>e_net :=
     (\<lambda>k rq cl. \<lparr>attempts = [curl_get demo_client_env id demo_params (\<lambda>_. client_3) new_http_state k (file_wire ''abcdefghijklmno'') rq],
        client_after = cl\<rparr>)\<rparr>"

theorem reads_over_curl_exact_witness:
  "\<exists>h' w'. Read curl_world (http_ops curl_world) 3 5 ''......'' (demo_handle ''u'' 15 ''t'' 4) demo_world = (None, ''fgh...'', h', w')"
proof -
  have net: "e_net curl_world = (\<lambda>k rq cl. \<lparr>attempts = [curl_get demo_client_env id demo_params (\<lambda>_. client_3) new_http_state k
      (file_wire ''abcdefghijklmno'') rq], client_after = cl\<rparr>)" by (simp add: curl_world_def)
  have h: "h_length (demo_handle ''u'' 15 ''t'' 4) = length ''abcdefghijklmno''" "h_cached_file (demo_handle ''u'' 15 ''t'' 4) = None"
    "h_etag (demo_handle ''u'' 15 ''t'' 4) = ''t''" by (simp_all add: demo_defs Let_def)
  have "\<exists>h' w'. Read curl_world (http_ops curl_world) 3 5 ''......'' (demo_handle ''u'' 15 ''t'' 4) demo_world
      = (None, overwrite ''......'' 0 (slice ''abcdefghijklmno'' 5 3), h', w') \<and> file_offset h' = 5 + 3 \<and> window_ok ''abcdefghijklmno'' h'"
  proof (rule reads_over_curl_exact [OF net, where content = "''abcdefghijklmno''" and tag = "''t''"])
    fix rq :: http_request and hm off len
    assume "rq_headers rq = hm @ [HInsert ''Range'' (range_expr off len)]" "0 < len" "off + len \<le> length ''abcdefghijklmno''"
    then show "curl_answers demo_client_env (\<lambda>_. client_3) (file_wire ''abcdefghijklmno'') rq ''abcdefghijklmno'' ''t'' off len"
      by (intro file_wire_answers) simp_all
  qed (use h demo_handle_window in simp_all)
  then show ?thesis by (auto simp: overwrite_def slice_def)
qed

definition file_transfer :: "bytes \<Rightarrow> http_request \<Rightarrow> lib_request \<Rightarrow> lib_transfer" where
  "file_transfer content rq lq =
     (case asked_range rq of
        None \<Rightarrow> \<lparr>lt_head = None, lt_chunks = [], lt_result = Inl ''Connection'', lt_flag = False\<rparr>
      | Some (a, b) \<Rightarrow>
          (let r = \<lparr>lr_status = 206, lr_body = [], lr_reason = ''Partial Content'', lr_headers = file_headers (Suc b - a)\<rparr>;
               d = slice content a (Suc b - a)
           in \<lparr>lt_head = Some r, lt_chunks = map (\<lambda>d. (d, False)) [take 1 d, drop 1 d], lt_result = Inr r, lt_flag = False\<rparr>))"

lemma file_transfer_answers:
  assumes "rq_headers rq = hm @ [HInsert ''Range'' (range_expr off len)]" and "0 < len" and "off + len < w64"
  shows "httplib_answers demo_httplib_env (file_transfer content) rq content ''t'' off len"
proof -
  have w: "\<forall>lq. file_transfer content rq lq = \<lparr>lt_head = Some \<lparr>lr_status = 206, lr_body = [], lr_reason = ''Partial Content'', lr_headers = file_headers len\<rparr>,
      lt_chunks = map (\<lambda>d. (d, False)) [take 1 (slice content off len), drop 1 (slice content off len)],
      lt_result = Inr \<lparr>lr_status = 206, lr_body = [], lr_reason = ''Partial Content'', lr_headers = file_headers len\<rparr>, lt_flag = False\<rparr>"
    using asked_range_of [OF assms] assms(2) by (simp add: file_transfer_def Let_def)
  have d: "concat [take 1 (slice content off len), drop 1 (slice content off len)] = slice content off len" by simp
  show ?thesis unfolding httplib_answers_def using demo_httplib_ok w d file_headers_fit by blast
qed

definition httplib_world :: env where
  "httplib_world = (demo_env ''abcdefghijklmno'' ''t'')\<lparr>e_net :=
     (\<lambda>k rq cl. \<lparr>attempts = [httplib_get demo_httplib_env id demo_params (\<lambda>_. demo_lib_client) new_http_state k (file_transfer ''abcdefghijklmno'') rq],
        client_after = cl\<rparr>)\<rparr>"

theorem reads_over_httplib_exact_witness:
  "\<exists>h' w'. Read httplib_world (http_ops httplib_world) 3 5 ''......'' (demo_handle ''u'' 15 ''t'' 4) demo_world = (None, ''fgh...'', h', w')"
proof -
  have net: "e_net httplib_world = (\<lambda>k rq cl. \<lparr>attempts = [httplib_get demo_httplib_env id demo_params (\<lambda>_. demo_lib_client) new_http_state k
      (file_transfer ''abcdefghijklmno'') rq], client_after = cl\<rparr>)" by (simp add: httplib_world_def)
  have h: "h_length (demo_handle ''u'' 15 ''t'' 4) = length ''abcdefghijklmno''" "h_cached_file (demo_handle ''u'' 15 ''t'' 4) = None"
    "h_etag (demo_handle ''u'' 15 ''t'' 4) = ''t''" by (simp_all add: demo_defs Let_def)
  have "\<exists>h' w'. Read httplib_world (http_ops httplib_world) 3 5 ''......'' (demo_handle ''u'' 15 ''t'' 4) demo_world
      = (None, overwrite ''......'' 0 (slice ''abcdefghijklmno'' 5 3), h', w') \<and> file_offset h' = 5 + 3 \<and> window_ok ''abcdefghijklmno'' h'"
  proof (rule reads_over_httplib_exact [OF net, where content = "''abcdefghijklmno''" and tag = "''t''"])
    fix rq :: http_request and hm off len
    assume "rq_headers rq = hm @ [HInsert ''Range'' (range_expr off len)]" "0 < len" "off + len \<le> length ''abcdefghijklmno''"
    then show "httplib_answers demo_httplib_env (file_transfer ''abcdefghijklmno'') rq ''abcdefghijklmno'' ''t'' off len"
      by (intro file_transfer_answers) simp_all
  qed (use h demo_handle_window in simp_all)
  then show ?thesis by (auto simp: overwrite_def slice_def)
qed

end
