(* ===== verification/ConnectionCache.thy ===== *)
theory ConnectionCache
  imports CurlClient "HOL-Library.Multiset"
begin

unbundle bit_operations_syntax

text \<open>
  The connection cache of the curl client (src/httpfs_connection_caching.cpp, include/httpfs_client.hpp):
  sixteen pools of sixteen clients, the loops of Find and Store one pool at a time, whole calls while
  other threads hold some of the pools, and all interleavings of the iterations of several threads.
\<close>

section \<open>Pools\<close>

text \<open>An HTTPClient: the base URL it was made with, and the rest of it.\<close>

record 'c http_client =
  GetBaseUrl :: string
  client_object :: 'c

definition POOL_COUNT :: nat where "POOL_COUNT = 16"

definition POOL_SIZE :: nat where "POOL_SIZE = 16"

type_synonym 'c pool = "'c http_client option list"

definition new_pools :: "'c pool list" where
  "new_pools = replicate POOL_COUNT (replicate POOL_SIZE None)"

text \<open>The entry loops: the first entry with a base URL is moved out; the first empty entry is filled.\<close>

fun take_entry :: "string \<Rightarrow> 'c pool \<Rightarrow> ('c http_client \<times> 'c pool) option" where
  "take_entry base_url [] = None"
| "take_entry base_url (None # es) = map_option (\<lambda>(c, p). (c, None # p)) (take_entry base_url es)"
| "take_entry base_url (Some c # es) =
     (if GetBaseUrl c = base_url then Some (c, None # es)
      else map_option (\<lambda>(c1, p). (c1, Some c # p)) (take_entry base_url es))"

fun fill_entry :: "'c http_client \<Rightarrow> 'c pool \<Rightarrow> 'c pool option" where
  "fill_entry client [] = None"
| "fill_entry client (None # es) = Some (Some client # es)"
| "fill_entry client (Some c # es) = map_option ((#) (Some c)) (fill_entry client es)"

section \<open>One iteration of a loop\<close>

definition pool_index :: "nat \<Rightarrow> nat \<Rightarrow> nat" where
  "pool_index start i = (start + i) AND (POOL_COUNT - 1)"

text \<open>busy tells that try_lock fails on the pool; None goes on with the next pool.\<close>

definition Find_pool :: "bool \<Rightarrow> string \<Rightarrow> nat \<Rightarrow> 'c pool list \<Rightarrow> ('c http_client \<times> 'c pool list) option" where
  "Find_pool busy base_url idx pools =
     (if busy then None else map_option (\<lambda>(c, p). (c, pools[idx := p])) (take_entry base_url (pools ! idx)))"

definition Store_pool :: "bool \<Rightarrow> 'c http_client \<Rightarrow> nat \<Rightarrow> 'c pool list \<Rightarrow> 'c pool list option" where
  "Store_pool busy client idx pools =
     (if busy then None else map_option (\<lambda>p. pools[idx := p]) (fill_entry client (pools ! idx)))"

definition Evict_pool :: "bool \<Rightarrow> nat \<Rightarrow> 'c http_client \<Rightarrow> nat \<Rightarrow> 'c pool list \<Rightarrow> 'c pool list option" where
  "Evict_pool busy random client idx pools =
     (if busy then None
      else (let slot = random mod length (pools ! idx) in Some (pools[idx := (pools ! idx)[slot := Some client]])))"

section \<open>Whole calls\<close>

text \<open>The cache as a thread sees it: the pools and the thread's cache_pool_idx.\<close>

type_synonym 'c cache_view = "'c pool list \<times> nat"

fun Find_loop :: "(nat \<Rightarrow> bool) \<Rightarrow> string \<Rightarrow> nat \<Rightarrow> nat list \<Rightarrow> 'c cache_view \<Rightarrow> 'c http_client option \<times> 'c cache_view" where
  "Find_loop busy base_url start [] v = (None, v)"
| "Find_loop busy base_url start (i # is) (pools, cpi) =
     (let idx = pool_index start i
      in case Find_pool (busy idx) base_url idx pools of
           Some (c, pools1) \<Rightarrow> (Some c, pools1, idx)
         | None \<Rightarrow> Find_loop busy base_url start is (pools, cpi))"

definition Find :: "(nat \<Rightarrow> bool) \<Rightarrow> string \<Rightarrow> 'c cache_view \<Rightarrow> 'c http_client option \<times> 'c cache_view" where
  "Find busy base_url v =
     (if base_url = '''' then (None, v) else Find_loop busy base_url (snd v) [0..<POOL_COUNT] v)"

fun Evict_loop :: "(nat \<Rightarrow> bool) \<Rightarrow> nat \<Rightarrow> 'c http_client \<Rightarrow> nat \<Rightarrow> nat list \<Rightarrow> 'c cache_view \<Rightarrow>
    'c http_client option \<times> 'c cache_view" where
  "Evict_loop busy random client start [] v = (Some client, v)"
| "Evict_loop busy random client start (i # is) (pools, cpi) =
     (let idx = pool_index start i
      in case Evict_pool (busy idx) random client idx pools of
           Some pools1 \<Rightarrow> (None, pools1, idx)
         | None \<Rightarrow> Evict_loop busy random client start is (pools, cpi))"

fun Store_loop :: "(nat \<Rightarrow> bool) \<Rightarrow> 'c http_client \<Rightarrow> nat \<Rightarrow> nat list \<Rightarrow> 'c cache_view \<Rightarrow> 'c cache_view option" where
  "Store_loop busy client start [] v = None"
| "Store_loop busy client start (i # is) (pools, cpi) =
     (let idx = pool_index start i
      in case Store_pool (busy idx) client idx pools of
           Some pools1 \<Rightarrow> Some (pools1, idx)
         | None \<Rightarrow> Store_loop busy client start is (pools, cpi))"

text \<open>
  random is the number the new RandomEngine yields, drawn once, in the first pool that can be locked. The
  first result is what is left in the caller's pointer: only a client that was placed is moved out of it.
\<close>

definition Store :: "(nat \<Rightarrow> bool) \<Rightarrow> nat \<Rightarrow> 'c http_client option \<Rightarrow> 'c cache_view \<Rightarrow> 'c http_client option \<times> 'c cache_view" where
  "Store busy random co v =
     (case co of
        None \<Rightarrow> (None, v)
      | Some client \<Rightarrow>
          (if GetBaseUrl client = '''' then (Some client, v)
           else case Store_loop busy client (snd v) [0..<POOL_COUNT] v of
               Some v1 \<Rightarrow> (None, v1)
             | None \<Rightarrow> Evict_loop busy random client (snd v) [0..<POOL_COUNT] v))"

definition Clear :: "'c pool list \<Rightarrow> 'c pool list" where
  "Clear pools = map (\<lambda>p. map (\<lambda>_. None) p) pools"

section \<open>What the pools hold\<close>

definition pool_clients :: "'c pool \<Rightarrow> 'c http_client list" where
  "pool_clients p = List.map_filter id p"

definition cached :: "'c pool list \<Rightarrow> 'c http_client list" where
  "cached pools = concat (map pool_clients pools)"

definition pools_ok :: "'c pool list \<Rightarrow> bool" where
  "pools_ok pools \<longleftrightarrow> length pools = POOL_COUNT \<and> (\<forall>p \<in> set pools. length p = POOL_SIZE)"

lemma pool_clients_simps [simp]:
  "pool_clients [] = []" "pool_clients (None # p) = pool_clients p" "pool_clients (Some c # p) = c # pool_clients p"
  by (simp_all add: pool_clients_def map_filter_simps)

lemma new_pools_ok: "pools_ok new_pools" "cached (new_pools :: 'c pool list) = []"
proof -
  have "pool_clients (replicate n (None :: 'c http_client option)) = []" for n by (induction n) simp_all
  then show "pools_ok new_pools" "cached (new_pools :: 'c pool list) = []"
    by (simp_all add: pools_ok_def new_pools_def cached_def concat_replicate_trivial)
qed

lemma mask_16: "(n :: nat) AND 15 = n mod 16"
proof -
  have "(15 :: nat) = mask 4" by (simp add: mask_eq_exp_minus_1)
  then show ?thesis by (simp only: take_bit_eq_mask [symmetric]) (simp add: take_bit_eq_mod)
qed

lemma pool_index_mod: "pool_index start i = (start + i) mod POOL_COUNT"
  by (simp add: pool_index_def POOL_COUNT_def mask_16)

lemma take_entry_Some:
  "take_entry u p = Some (c, p1) \<Longrightarrow> GetBaseUrl c = u \<and> mset (pool_clients p) = add_mset c (mset (pool_clients p1)) \<and> length p1 = length p"
  by (induction u p arbitrary: c p1 rule: take_entry.induct) (auto split: if_splits)

lemma take_entry_None: "take_entry u p = None \<longleftrightarrow> (\<forall>c \<in> set (pool_clients p). GetBaseUrl c \<noteq> u)"
  by (induction u p rule: take_entry.induct) auto

lemma fill_entry_Some:
  "fill_entry c p = Some p1 \<Longrightarrow> mset (pool_clients p1) = add_mset c (mset (pool_clients p)) \<and> length p1 = length p"
  by (induction c p arbitrary: p1 rule: fill_entry.induct) auto

lemma fill_entry_None: "fill_entry c p = None \<longleftrightarrow> None \<notin> set p"
  by (induction c p rule: fill_entry.induct) auto

lemma evict_entry:
  "k < length p \<Longrightarrow> mset (pool_clients (p[k := Some c])) \<subseteq># add_mset c (mset (pool_clients p))"
proof (induction p arbitrary: k)
  case (Cons e p)
  then show ?case by (cases k; cases e) (auto simp: add_mset_commute intro: subset_mset.order_trans)
qed simp

lemma cached_update:
  "k < length pools \<Longrightarrow> mset (cached (pools[k := p])) + mset (pool_clients (pools ! k)) = mset (cached pools) + mset (pool_clients p)"
proof (induction pools arbitrary: k)
  case (Cons q pools)
  then show ?case by (cases k) (auto simp: cached_def ac_simps)
qed simp

lemma pools_ok_update:
  assumes "pools_ok pools" and "k < length pools" and "length p = length (pools ! k)"
  shows "pools_ok (pools[k := p])"
proof -
  have "length p = POOL_SIZE" using assms by (simp add: pools_ok_def)
  then show ?thesis using assms(1) set_update_subset_insert [of pools k p] by (auto simp: pools_ok_def)
qed

lemma Find_pool_Some:
  assumes "Find_pool busy u k pools = Some (c, pools1)" and "k < length pools" and "pools_ok pools"
  shows "\<not> busy \<and> GetBaseUrl c = u \<and> mset (cached pools) = add_mset c (mset (cached pools1)) \<and> pools_ok pools1"
proof -
  obtain p where p: "\<not> busy" "take_entry u (pools ! k) = Some (c, p)" "pools1 = pools[k := p]"
    using assms(1) by (auto simp: Find_pool_def split: if_splits)
  have ok: "pools_ok pools1" using take_entry_Some [OF p(2)] assms(2,3) p(3) by (simp add: pools_ok_update)
  have "mset (cached pools1) + add_mset c (mset (pool_clients p)) = mset (cached pools) + mset (pool_clients p)"
    using cached_update [OF assms(2), of p] take_entry_Some [OF p(2)] p(3) by simp
  then show ?thesis using take_entry_Some [OF p(2)] p(1) ok by simp
qed

lemma Store_pool_Some:
  assumes "Store_pool busy c k pools = Some pools1" and "k < length pools" and "pools_ok pools"
  shows "\<not> busy \<and> mset (cached pools1) = add_mset c (mset (cached pools)) \<and> pools_ok pools1"
proof -
  obtain p where p: "\<not> busy" "fill_entry c (pools ! k) = Some p" "pools1 = pools[k := p]"
    using assms(1) by (auto simp: Store_pool_def split: if_splits)
  have ok: "pools_ok pools1" using fill_entry_Some [OF p(2)] assms(2,3) p(3) by (simp add: pools_ok_update)
  have "mset (cached pools1) + mset (pool_clients (pools ! k)) = mset (cached pools) + add_mset c (mset (pool_clients (pools ! k)))"
    using cached_update [OF assms(2), of p] fill_entry_Some [OF p(2)] p(3) by simp
  then show ?thesis using p(1) ok by simp
qed

lemma Evict_pool_Some:
  assumes "Evict_pool busy r c k pools = Some pools1" and "k < length pools" and "pools_ok pools"
  shows "\<not> busy \<and> mset (cached pools1) \<subseteq># add_mset c (mset (cached pools)) \<and> pools_ok pools1"
proof -
  have len: "length (pools ! k) = POOL_SIZE" using assms(2,3) by (simp add: pools_ok_def)
  obtain p where p: "\<not> busy" "p = (pools ! k)[r mod length (pools ! k) := Some c]" "pools1 = pools[k := p]"
    using assms(1) by (auto simp: Evict_pool_def Let_def split: if_splits)
  have ok: "pools_ok pools1" using assms(2,3) p(2,3) len by (simp add: pools_ok_update)
  have "mset (pool_clients p) \<subseteq># add_mset c (mset (pool_clients (pools ! k)))"
    unfolding p(2) by (rule evict_entry) (simp add: len POOL_SIZE_def)
  then have "mset (cached pools1) + mset (pool_clients (pools ! k)) \<subseteq># add_mset c (mset (cached pools)) + mset (pool_clients (pools ! k))"
    using cached_update [OF assms(2), of p] p(3) by (simp add: subset_mset.add_left_mono)
  then show ?thesis using p(1) ok by simp
qed

lemma pool_index_less: "pools_ok pools \<Longrightarrow> pool_index start i < length pools"
  by (simp add: pool_index_mod pools_ok_def POOL_COUNT_def)

section \<open>Interleavings\<close>

text \<open>
  Several threads, each between calls or in an iteration of Find or of one of the passes of Store, with
  the start index of the call and the clients in its hands. A lock is held for one iteration only, so
  an interleaving of iterations is an execution; try_lock may fail at any time.
\<close>

datatype 'c cache_call = Working | Finding string nat nat | Storing "'c http_client" nat nat | Evicting "'c http_client" nat nat

record 'c cache_thread =
  ct_call :: "'c cache_call"
  ct_idx :: nat
  ct_held :: "'c http_client list"

definition in_hand :: "'c cache_thread \<Rightarrow> 'c http_client list" where
  "in_hand th = ct_held th @ (case ct_call th of Storing c _ _ \<Rightarrow> [c] | Evicting c _ _ \<Rightarrow> [c] | _ \<Rightarrow> [])"

definition call_step :: "bool \<Rightarrow> nat \<Rightarrow> 'c pool list \<Rightarrow> 'c cache_thread \<Rightarrow> 'c pool list \<times> 'c cache_thread" where
  "call_step busy random pools th =
     (case ct_call th of
        Working \<Rightarrow> (pools, th)
      | Finding u start i \<Rightarrow>
          (if i \<ge> POOL_COUNT then (pools, th\<lparr>ct_call := Working\<rparr>)
           else case Find_pool busy u (pool_index start i) pools of
               None \<Rightarrow> (pools, th\<lparr>ct_call := Finding u start (Suc i)\<rparr>)
             | Some (c, pools1) \<Rightarrow> (pools1, th\<lparr>ct_call := Working, ct_idx := pool_index start i, ct_held := c # ct_held th\<rparr>))
      | Storing c start i \<Rightarrow>
          (if i \<ge> POOL_COUNT then (pools, th\<lparr>ct_call := Evicting c start 0\<rparr>)
           else case Store_pool busy c (pool_index start i) pools of
               None \<Rightarrow> (pools, th\<lparr>ct_call := Storing c start (Suc i)\<rparr>)
             | Some pools1 \<Rightarrow> (pools1, th\<lparr>ct_call := Working, ct_idx := pool_index start i\<rparr>))
      | Evicting c start i \<Rightarrow>
          (if i \<ge> POOL_COUNT then (pools, th\<lparr>ct_call := Working, ct_held := c # ct_held th\<rparr>)
           else case Evict_pool busy random c (pool_index start i) pools of
               None \<Rightarrow> (pools, th\<lparr>ct_call := Evicting c start (Suc i)\<rparr>)
             | Some pools1 \<Rightarrow> (pools1, th\<lparr>ct_call := Working, ct_idx := pool_index start i\<rparr>)))"

type_synonym 'c cache_state = "'c pool list \<times> 'c cache_thread list"

inductive cache_move :: "'c cache_state \<Rightarrow> 'c cache_state \<Rightarrow> bool" where
  cm_call: "t < length ths \<Longrightarrow> call_step busy random pools (ths ! t) = (pools1, th1) \<Longrightarrow>
    cache_move (pools, ths) (pools1, ths[t := th1])"
| cm_find: "t < length ths \<Longrightarrow> ct_call (ths ! t) = Working \<Longrightarrow> base_url \<noteq> '''' \<Longrightarrow>
    cache_move (pools, ths) (pools, ths[t := (ths ! t)\<lparr>ct_call := Finding base_url (ct_idx (ths ! t)) 0\<rparr>])"
| cm_store: "t < length ths \<Longrightarrow> ct_call (ths ! t) = Working \<Longrightarrow> c \<in> set (ct_held (ths ! t)) \<Longrightarrow> GetBaseUrl c \<noteq> '''' \<Longrightarrow>
    cache_move (pools, ths) (pools, ths[t := (ths ! t)\<lparr>ct_call := Storing c (ct_idx (ths ! t)) 0, ct_held := remove1 c (ct_held (ths ! t))\<rparr>])"
| cm_drop: "t < length ths \<Longrightarrow> cache_move (pools, ths) (pools, ths[t := (ths ! t)\<lparr>ct_held := remove1 c (ct_held (ths ! t))\<rparr>])"
| cm_new: "t < length ths \<Longrightarrow> c \<notin> set (cached pools) \<union> (\<Union>th \<in> set ths. set (in_hand th)) \<Longrightarrow>
    cache_move (pools, ths) (pools, ths[t := (ths ! t)\<lparr>ct_held := c # ct_held (ths ! t)\<rparr>])"
| cm_clear: "k < length pools \<Longrightarrow> cache_move (pools, ths) (pools[k := map (\<lambda>_. None) (pools ! k)], ths)"

definition everywhere :: "'c cache_state \<Rightarrow> 'c http_client multiset" where
  "everywhere s = mset (cached (fst s)) + mset (concat (map in_hand (snd s)))"

lemma hands_update:
  "t < length ths \<Longrightarrow> mset (concat (map in_hand (ths[t := th]))) + mset (in_hand (ths ! t)) = mset (concat (map in_hand ths)) + mset (in_hand th)"
proof (induction ths arbitrary: t)
  case (Cons h ths)
  then show ?case by (cases t) (auto simp: ac_simps)
qed simp

lemma everywhere_update:
  assumes "t < length ths" and "mset (cached pools1) + mset (in_hand th1) \<subseteq># mset (cached pools) + mset (in_hand (ths ! t))"
  shows "everywhere (pools1, ths[t := th1]) \<subseteq># everywhere (pools, ths)"
proof -
  let ?H = "mset (concat (map in_hand ths))"
  have "everywhere (pools1, ths[t := th1]) + mset (in_hand (ths ! t)) = (mset (cached pools1) + mset (in_hand th1)) + ?H"
    using hands_update [OF assms(1), of th1] by (simp add: everywhere_def ac_simps)
  also have "\<dots> \<subseteq># (mset (cached pools) + mset (in_hand (ths ! t))) + ?H" using assms(2) by (rule subset_mset.add_right_mono)
  also have "\<dots> = everywhere (pools, ths) + mset (in_hand (ths ! t))" by (simp add: everywhere_def ac_simps)
  finally show ?thesis by simp
qed

lemma call_step_clients:
  assumes "pools_ok pools" and "call_step busy r pools th = (pools1, th1)"
  shows "pools_ok pools1 \<and> mset (cached pools1) + mset (in_hand th1) \<subseteq># mset (cached pools) + mset (in_hand th)"
proof (cases "ct_call th")
  case Working
  then show ?thesis using assms by (simp add: call_step_def)
next
  case (Finding u start i)
  then show ?thesis using assms Find_pool_Some [OF _ pool_index_less [OF assms(1)] assms(1), of busy u start i]
    by (auto simp: call_step_def in_hand_def split: option.splits if_splits)
next
  case (Storing c start i)
  then show ?thesis using assms Store_pool_Some [OF _ pool_index_less [OF assms(1)] assms(1), of busy c start i]
    by (auto simp: call_step_def in_hand_def split: option.splits if_splits)
next
  case (Evicting c start i)
  then show ?thesis using assms Evict_pool_Some [OF _ pool_index_less [OF assms(1)] assms(1), of busy r c start i]
    by (auto simp: call_step_def in_hand_def subset_mset.add_right_mono split: option.splits if_splits)
qed

inductive cache_reach :: "'c cache_state \<Rightarrow> bool" where
  ca_start: "\<forall>th \<in> set ths. ct_call th = Working \<and> ct_held th = [] \<Longrightarrow> cache_reach (new_pools, ths)"
| ca_move: "cache_reach s \<Longrightarrow> cache_move s s1 \<Longrightarrow> cache_reach s1"

definition owned_once :: "'c cache_state \<Rightarrow> bool" where
  "owned_once s \<longleftrightarrow> distinct (cached (fst s) @ concat (map in_hand (snd s)))"

lemma owned_once_count: "owned_once s \<longleftrightarrow> (\<forall>c. count (everywhere s) c \<le> 1)"
proof -
  have *: "distinct xs \<longleftrightarrow> (\<forall>c. count (mset xs) c \<le> 1)" for xs :: "'a http_client list"
    by (induction xs) (auto simp: not_in_iff [symmetric] le_Suc_eq)
  show ?thesis unfolding owned_once_def everywhere_def * by simp
qed

lemma move_clients:
  assumes "cache_move s s1" and "pools_ok (fst s)"
  shows "pools_ok (fst s1) \<and> (everywhere s1 \<subseteq># everywhere s \<or> (\<exists>c. c \<notin># everywhere s \<and> everywhere s1 = add_mset c (everywhere s)))"
  using assms
proof (induction rule: cache_move.induct)
  case (cm_call t ths busy random pools pools1 th1)
  then show ?case using call_step_clients [of pools busy random "ths ! t" pools1 th1] everywhere_update [of t ths pools1 th1 pools] by simp
next
  case (cm_find t ths base_url pools)
  then show ?case using everywhere_update [of t ths pools _ pools] by (simp add: in_hand_def)
next
  case (cm_store t ths c pools)
  then show ?case using everywhere_update [of t ths pools _ pools] by (simp add: in_hand_def)
next
  case (cm_drop t ths pools c)
  have "mset (in_hand ((ths ! t)\<lparr>ct_held := remove1 c (ct_held (ths ! t))\<rparr>)) \<subseteq># mset (in_hand (ths ! t))"
    by (simp add: in_hand_def split: cache_call.split)
  then show ?case using cm_drop everywhere_update [of t ths pools _ pools] by simp
next
  case (cm_new t ths c pools)
  have "everywhere (pools, ths[t := (ths ! t)\<lparr>ct_held := c # ct_held (ths ! t)\<rparr>]) + mset (in_hand (ths ! t))
      = add_mset c (everywhere (pools, ths)) + mset (in_hand (ths ! t))"
    using hands_update [OF cm_new(1), of "(ths ! t)\<lparr>ct_held := c # ct_held (ths ! t)\<rparr>"]
    by (simp add: everywhere_def in_hand_def ac_simps)
  then show ?case using cm_new by (auto simp: everywhere_def)
next
  case (cm_clear k pools ths)
  have "pool_clients (map (\<lambda>_. None) p) = []" for p :: "'a pool" by (induction p) simp_all
  then have "mset (cached (pools[k := map (\<lambda>_. None) (pools ! k)])) \<subseteq># mset (cached pools)"
    using cached_update [OF cm_clear(1), of "map (\<lambda>_. None) (pools ! k)"] by (metis mset_subset_eq_add_left mset.simps(1) add.right_neutral)
  then show ?case using cm_clear pools_ok_update [of pools k "map (\<lambda>_. None) (pools ! k)"]
    by (simp add: everywhere_def)
qed

text \<open>
  C10: Whatever calls the threads make and however their iterations interleave, with locks
  failing at any time, a client has one owner: it is in one entry of the cache, or in the hands
  of one thread, and no two threads use the same connection. The pools keep their number and size.
\<close>

theorem clients_have_one_owner:
  assumes "cache_reach s"
  shows "owned_once s \<and> pools_ok (fst s)"
  using assms
proof (induction rule: cache_reach.induct)
  case (ca_start ths)
  have none: "concat (map in_hand ths) = []" using ca_start by (auto simp: in_hand_def concat_eq_Nil_conv)
  show ?case unfolding owned_once_def fst_conv snd_conv none by (simp add: new_pools_ok)
next
  case (ca_move s s1)
  then have one: "\<forall>c. count (everywhere s) c \<le> 1" by (simp add: owned_once_count)
  consider "everywhere s1 \<subseteq># everywhere s" | c where "c \<notin># everywhere s" "everywhere s1 = add_mset c (everywhere s)"
    using move_clients [OF ca_move(2)] ca_move.IH by blast
  then have "\<forall>c. count (everywhere s1) c \<le> 1"
  proof cases
    case 1
    then show ?thesis using one by (meson mset_subset_eq_count order_trans)
  next
    case (2 c)
    then show ?thesis using one by (simp add: not_in_iff)
  qed
  then show ?case using move_clients [OF ca_move(2)] ca_move.IH by (simp add: owned_once_count)
qed

definition idle_thread :: "nat \<Rightarrow> nat cache_thread" where
  "idle_thread k = \<lparr>ct_call = Working, ct_idx = k, ct_held = []\<rparr>"

definition demo_cached :: "nat http_client" where
  "demo_cached = \<lparr>GetBaseUrl = ''https://h'', client_object = 7\<rparr>"

definition demo_pools :: "nat pool list" where
  "demo_pools = new_pools[2 := Some demo_cached # replicate 15 None]"

text \<open>A thread makes a client and parks it; another thread, which starts elsewhere, finds it.\<close>

lemma demo_park_and_find: "cache_reach (new_pools, [idle_thread 2, (idle_thread 1)\<lparr>ct_idx := 2, ct_held := [demo_cached]\<rparr>])"
proof -
  have base: "GetBaseUrl demo_cached = ''https://h''" by (simp add: demo_cached_def)
  have r0: "cache_reach (new_pools, [idle_thread 2, idle_thread 1])" by (rule ca_start) (simp add: idle_thread_def)
  have r1: "cache_reach (new_pools, [(idle_thread 2)\<lparr>ct_held := [demo_cached]\<rparr>, idle_thread 1])"
    using ca_move [OF r0 cm_new [of 0 _ demo_cached]] by (simp add: idle_thread_def in_hand_def new_pools_ok)
  have r2: "cache_reach (new_pools, [(idle_thread 2)\<lparr>ct_call := Storing demo_cached 2 0\<rparr>, idle_thread 1])"
    using ca_move [OF r1 cm_store [of 0 _ demo_cached]] by (simp add: idle_thread_def base)
  have free: "new_pools ! 2 = (replicate 16 None :: nat pool)" "new_pools ! 1 = (replicate 16 None :: nat pool)"
    by (simp_all add: new_pools_def POOL_COUNT_def POOL_SIZE_def)
  have fill: "fill_entry demo_cached (replicate 16 None) = Some (Some demo_cached # replicate 15 None)"
    by (simp add: numeral_eq_Suc)
  have s1: "call_step False 0 new_pools ((idle_thread 2)\<lparr>ct_call := Storing demo_cached 2 0\<rparr>) = (demo_pools, idle_thread 2)"
    using free fill by (simp add: call_step_def Store_pool_def pool_index_mod POOL_COUNT_def demo_pools_def idle_thread_def)
  have r3: "cache_reach (demo_pools, [idle_thread 2, idle_thread 1])"
    using ca_move [OF r2 cm_call [of 0 _ False 0 _ demo_pools "idle_thread 2"]] s1 by simp
  have r4: "cache_reach (demo_pools, [idle_thread 2, (idle_thread 1)\<lparr>ct_call := Finding ''https://h'' 1 0\<rparr>])"
    using ca_move [OF r3 cm_find [of 1 _ "''https://h''"]] by (simp add: idle_thread_def)
  have none: "take_entry u (replicate n None) = (None :: (nat http_client \<times> nat pool) option)" for u n by (induction n) simp_all
  have s2: "call_step False 0 demo_pools ((idle_thread 1)\<lparr>ct_call := Finding ''https://h'' 1 0\<rparr>)
      = (demo_pools, (idle_thread 1)\<lparr>ct_call := Finding ''https://h'' 1 1\<rparr>)"
    using free none by (simp add: call_step_def Find_pool_def pool_index_mod POOL_COUNT_def demo_pools_def)
  have r5: "cache_reach (demo_pools, [idle_thread 2, (idle_thread 1)\<lparr>ct_call := Finding ''https://h'' 1 1\<rparr>])"
    using ca_move [OF r4 cm_call [of 1 _ False 0 _ demo_pools]] s2 by simp
  have size: "(2 :: nat) < length (new_pools :: nat pool list)" by (simp add: new_pools_def POOL_COUNT_def)
  have empty: "None # replicate 15 None = (new_pools ! 2 :: nat pool)" unfolding free by (simp add: numeral_eq_Suc)
  have s3: "call_step False 0 demo_pools ((idle_thread 1)\<lparr>ct_call := Finding ''https://h'' 1 1\<rparr>)
      = (new_pools, (idle_thread 1)\<lparr>ct_idx := 2, ct_held := [demo_cached]\<rparr>)"
  proof -
    have "pool_index 1 1 = 2" "1 < POOL_COUNT" by (simp_all add: pool_index_mod POOL_COUNT_def)
    moreover have "Find_pool False ''https://h'' 2 demo_pools = Some (demo_cached, new_pools)"
      using size base by (simp add: Find_pool_def demo_pools_def empty)
    ultimately show ?thesis unfolding call_step_def by (simp add: idle_thread_def del: One_nat_def)
  qed
  show ?thesis using ca_move [OF r5 cm_call [of 1 _ False 0 _ new_pools]] s3 by simp
qed

theorem clients_have_one_owner_witness:
  "owned_once (new_pools, [idle_thread 2, (idle_thread 1)\<lparr>ct_idx := 2, ct_held := [demo_cached]\<rparr>])"
  using clients_have_one_owner [OF demo_park_and_find] by blast

section \<open>Find and Store as whole calls\<close>

lemma Find_loop_result:
  assumes "pools_ok pools"
  shows "(case Find_loop busy u start js (pools, k) of
      (None, v) \<Rightarrow> v = (pools, k) \<and> (\<forall>i \<in> set js. \<not> busy (pool_index start i) \<longrightarrow>
         (\<forall>c \<in> set (pool_clients (pools ! pool_index start i)). GetBaseUrl c \<noteq> u))
    | (Some c, (pools1, k1)) \<Rightarrow> GetBaseUrl c = u \<and> mset (cached pools) = add_mset c (mset (cached pools1)) \<and> pools_ok pools1)"
proof (induction js)
  case (Cons i js)
  show ?case
  proof (cases "Find_pool (busy (pool_index start i)) u (pool_index start i) pools")
    case None
    then have "\<not> busy (pool_index start i) \<longrightarrow> (\<forall>c \<in> set (pool_clients (pools ! pool_index start i)). GetBaseUrl c \<noteq> u)"
      by (simp add: Find_pool_def take_entry_None split: if_splits)
    then show ?thesis using Cons None by (auto simp: Let_def split: prod.splits option.splits)
  next
    case (Some x)
    then show ?thesis using Find_pool_Some [OF _ pool_index_less [OF assms] assms] by (cases x) (auto simp: Let_def)
  qed
qed simp

lemma every_pool: "j < POOL_COUNT \<Longrightarrow> start < POOL_COUNT \<Longrightarrow> \<exists>i \<in> set [0..<POOL_COUNT]. pool_index start i = j"
  unfolding pool_index_mod POOL_COUNT_def
  by (rule bexI [of _ "(j + 16 - start) mod 16"]) (simp_all add: mod_add_right_eq)

lemma Find_result:
  assumes "pools_ok pools" and "k < POOL_COUNT"
  shows "(case Find busy u (pools, k) of
      (None, v) \<Rightarrow> v = (pools, k) \<and> (u = '''' \<or> (\<forall>j < POOL_COUNT. \<not> busy j \<longrightarrow> (\<forall>c \<in> set (pool_clients (pools ! j)). GetBaseUrl c \<noteq> u)))
    | (Some c, (pools1, k1)) \<Rightarrow> u \<noteq> '''' \<and> GetBaseUrl c = u \<and> mset (cached pools) = add_mset c (mset (cached pools1)) \<and> pools_ok pools1)"
proof (cases "u = ''''")
  case False
  obtain co v where Pair: "Find_loop busy u k [0..<POOL_COUNT] (pools, k) = (co, v)" by (rule prod.exhaust)
  note r = Find_loop_result [OF assms(1), where busy = busy and u = u and start = k and js = "[0..<POOL_COUNT]" and k = k, unfolded Pair]
  have "\<forall>j < POOL_COUNT. \<not> busy j \<longrightarrow> (\<forall>c \<in> set (pool_clients (pools ! j)). GetBaseUrl c \<noteq> u)" if "co = None"
  proof (intro allI impI)
      fix j assume j: "j < POOL_COUNT" "\<not> busy j"
      obtain i where i: "i \<in> set [0..<POOL_COUNT]" "pool_index k i = j" using every_pool [OF j(1) assms(2)] by blast
      have "\<forall>i \<in> set [0..<POOL_COUNT]. \<not> busy (pool_index k i) \<longrightarrow>
          (\<forall>c \<in> set (pool_clients (pools ! pool_index k i)). GetBaseUrl c \<noteq> u)" using r that by simp
      then show "\<forall>c \<in> set (pool_clients (pools ! j)). GetBaseUrl c \<noteq> u" using i j(2) by blast
    qed
  then show ?thesis using False Pair r by (auto simp: Find_def split: prod.splits option.splits)
qed (simp add: Find_def)

lemma Store_loop_result:
  assumes "pools_ok pools"
  shows "(case Store_loop busy c start js (pools, k) of
      None \<Rightarrow> \<forall>i \<in> set js. \<not> busy (pool_index start i) \<longrightarrow> None \<notin> set (pools ! pool_index start i)
    | Some (pools1, k1) \<Rightarrow> mset (cached pools1) = add_mset c (mset (cached pools)) \<and> pools_ok pools1 \<and>
        (\<exists>i \<in> set js. k1 = pool_index start i \<and> \<not> busy k1 \<and> c \<in> set (pool_clients (pools1 ! k1))))"
proof (induction js)
  case (Cons i js)
  let ?k = "pool_index start i"
  show ?case
  proof (cases "Store_pool (busy ?k) c ?k pools")
    case None
    then have "\<not> busy ?k \<longrightarrow> None \<notin> set (pools ! ?k)"
      by (simp add: Store_pool_def fill_entry_None split: if_splits)
    then show ?thesis using Cons None by (auto simp: Let_def split: prod.splits option.splits)
  next
    case (Some pools1)
    then obtain p where p: "fill_entry c (pools ! ?k) = Some p" "pools1 = pools[?k := p]"
      by (auto simp: Store_pool_def split: if_splits)
    have "c \<in># mset (pool_clients p)" using fill_entry_Some [OF p(1)] by simp
    then have "c \<in> set (pool_clients (pools1 ! ?k))" using p(2) pool_index_less [OF assms, of start i] by simp
    then show ?thesis using Store_pool_Some [OF Some pool_index_less [OF assms] assms] Some by (auto simp: Let_def)
  qed
qed simp

lemma full_evict:
  assumes "k < length p" and "None \<notin> set p"
  shows "\<exists>d. d \<in> set (pool_clients p) \<and> add_mset d (mset (pool_clients (p[k := Some c]))) = add_mset c (mset (pool_clients p))"
  using assms
proof (induction p arbitrary: k)
  case (Cons e p)
  then show ?case by (cases k; cases e) (force simp: add_mset_commute)+
qed simp

lemma evicted_in: "k < length p \<Longrightarrow> c \<in> set (pool_clients (p[k := Some c]))"
proof (induction p arbitrary: k)
  case (Cons e p)
  then show ?case by (cases k; cases e) auto
qed simp

lemma Evict_loop_result:
  assumes "pools_ok pools" and "\<forall>i \<in> set js. \<not> busy (pool_index start i) \<longrightarrow> None \<notin> set (pools ! pool_index start i)"
  shows "(if \<forall>i \<in> set js. busy (pool_index start i) then Evict_loop busy r c start js (pools, k) = (Some c, pools, k)
    else \<exists>pools1 k1 d i. Evict_loop busy r c start js (pools, k) = (None, pools1, k1) \<and> d \<in> set (cached pools) \<and> pools_ok pools1 \<and>
      add_mset d (mset (cached pools1)) = add_mset c (mset (cached pools)) \<and> c \<in> set (pool_clients (pools1 ! k1)) \<and>
      i \<in> set js \<and> k1 = pool_index start i \<and> \<not> busy k1)"
  using assms(2)
proof (induction js)
  case (Cons i js)
  let ?k = "pool_index start i"
  show ?case
  proof (cases "busy ?k")
    case True
    then show ?thesis using Cons by (auto simp: Evict_pool_def Let_def split: if_splits)
  next
    case False
    have k: "?k < length pools" by (rule pool_index_less [OF assms(1)])
    have len: "length (pools ! ?k) = POOL_SIZE" using assms(1) k by (simp add: pools_ok_def)
    let ?s = "r mod length (pools ! ?k)"
    have s: "?s < length (pools ! ?k)" by (simp add: len POOL_SIZE_def)
    let ?p = "(pools ! ?k)[?s := Some c]"
    have e: "Evict_pool False r c ?k pools = Some (pools[?k := ?p])" by (simp add: Evict_pool_def Let_def)
    obtain d where d: "d \<in> set (pool_clients (pools ! ?k))" "add_mset d (mset (pool_clients ?p)) = add_mset c (mset (pool_clients (pools ! ?k)))"
      using full_evict [OF s] False Cons.prems by auto
    have "add_mset d (mset (cached (pools[?k := ?p]))) + mset (pool_clients (pools ! ?k))
        = add_mset d (mset (pool_clients ?p)) + mset (cached pools)"
      using cached_update [OF k, of ?p] by (simp add: ac_simps)
    then have m: "add_mset d (mset (cached (pools[?k := ?p]))) = add_mset c (mset (cached pools))" unfolding d(2) by simp
    have c: "c \<in> set (pool_clients ?p)" using s by (rule evicted_in)
    have dc: "d \<in> set (cached pools)" using d(1) k by (auto simp: cached_def)
    have ok: "pools_ok (pools[?k := ?p])" using pools_ok_update [OF assms(1) k] by simp
    have "Evict_loop busy r c start (i # js) (pools, k0) = (None, pools[?k := ?p], ?k)" for k0 using False e by (simp add: Let_def)
    then show ?thesis using False m c dc ok k by auto
  qed
qed simp

lemma Some_Store_loop:
  "Store_loop busy c start js (pools, k) = Some v \<Longrightarrow>
     \<exists>i \<in> set js. \<not> busy (pool_index start i) \<and> Store_pool (busy (pool_index start i)) c (pool_index start i) pools \<noteq> None"
proof (induction js)
  case (Cons i js)
  then show ?case by (cases "Store_pool (busy (pool_index start i)) c (pool_index start i) pools")
      (auto simp: Let_def Store_pool_def split: if_splits)
qed simp

lemma Store_result:
  assumes "pools_ok pools" and "k < POOL_COUNT" and "GetBaseUrl c \<noteq> ''''" and "Store busy r (Some c) (pools, k) = (left, pools1, k1)"
  shows "pools_ok pools1 \<and> (if \<forall>j < POOL_COUNT. busy j then pools1 = pools \<and> left = Some c
     else left = None \<and> c \<in> set (pool_clients (pools1 ! k1)) \<and> k1 < POOL_COUNT \<and>
       (if \<exists>j < POOL_COUNT. \<not> busy j \<and> None \<in> set (pools ! j) then mset (cached pools1) = add_mset c (mset (cached pools))
        else \<exists>d \<in> set (cached pools). add_mset d (mset (cached pools1)) = add_mset c (mset (cached pools))))"
proof -
  let ?js = "[0..<POOL_COUNT]"
  have all: "(\<forall>i \<in> set ?js. P (pool_index k i)) \<longleftrightarrow> (\<forall>j < POOL_COUNT. P j)" for P
    using every_pool [OF _ assms(2)] by (metis POOL_COUNT_def mod_less_divisor pool_index_mod zero_less_numeral)
  have less: "pool_index k i < POOL_COUNT" for i by (simp add: pool_index_mod POOL_COUNT_def)
  show ?thesis
  proof (cases "Store_loop busy c k ?js (pools, k)")
    case (Some v)
    then have v: "v = (pools1, k1)" "left = None" using assms(3,4) by (simp_all add: Store_def)
    have r: "mset (cached pools1) = add_mset c (mset (cached pools)) \<and> pools_ok pools1 \<and>
        (\<exists>i \<in> set ?js. k1 = pool_index k i \<and> \<not> busy k1 \<and> c \<in> set (pool_clients (pools1 ! k1)))"
      using Store_loop_result [OF assms(1), where busy = busy and c = c and start = k and js = ?js and k = k] Some v by simp
    have "\<exists>d. d \<in> set (cached pools) \<and> add_mset d (mset (cached pools1)) = add_mset c (mset (cached pools))"
      if "\<not> (\<exists>j < POOL_COUNT. \<not> busy j \<and> None \<in> set (pools ! j))"
    proof -
      obtain j where j: "j < POOL_COUNT" "\<not> busy j" "Store_pool (busy j) c j pools \<noteq> None"
        using Some_Store_loop [OF Some] less by blast
      then show ?thesis using that by (auto simp: Store_pool_def fill_entry_None)
    qed
    then show ?thesis using r less v(2) by auto
  next
    case None
    have full: "\<forall>i \<in> set ?js. \<not> busy (pool_index k i) \<longrightarrow> None \<notin> set (pools ! pool_index k i)"
      using Store_loop_result [OF assms(1), where busy = busy and c = c and start = k and js = ?js and k = k] None by simp
    have e: "Evict_loop busy r c k ?js (pools, k) = (left, pools1, k1)" using assms(3,4) None by (simp add: Store_def)
    have full_all: "\<forall>j < POOL_COUNT. \<not> busy j \<longrightarrow> None \<notin> set (pools ! j)"
      using full all [of "\<lambda>j. \<not> busy j \<longrightarrow> None \<notin> set (pools ! j)"] by blast
    have busy_all: "(\<forall>i \<in> set ?js. busy (pool_index k i)) \<longleftrightarrow> (\<forall>j < POOL_COUNT. busy j)" by (rule all)
    show ?thesis using Evict_loop_result [OF assms(1) full, where r = r and c = c and k = k] e full_all less assms(1)
      unfolding busy_all by (auto split: if_splits)
  qed
qed



section \<open>Clients and requests of HTTPFSCurlUtil\<close>

type_synonym curl_http_client = "curl_client http_client"

definition EnableCaching :: "bool \<Rightarrow> httpfs_params \<Rightarrow> bool" where
  "EnableCaching connection_caching_enabled p \<longleftrightarrow>
     (if \<not> connection_caching_enabled then False else if http_proxy p \<noteq> '''' then False else True)"

definition CloseClient :: "(nat \<Rightarrow> bool) \<Rightarrow> nat \<Rightarrow> bool \<Rightarrow> curl_http_client option \<Rightarrow> curl_client cache_view \<Rightarrow> curl_client cache_view" where
  "CloseClient busy random connection_caching_enabled co v =
     (if co = None \<or> \<not> connection_caching_enabled then v
      else snd (Store busy random (map_option (\<lambda>c. c\<lparr>client_object := Cleanup_curl (client_object c)\<rparr>) co) v))"

text \<open>A client found in the cache is initialised before it is handed out; when that throws, the client is destroyed.\<close>

definition find_initialized :: "client_env \<Rightarrow> (nat \<Rightarrow> bool) \<Rightarrow> httpfs_params \<Rightarrow> string \<Rightarrow> curl_client cache_view \<Rightarrow>
    (exn + curl_http_client option) \<times> curl_client cache_view" where
  "find_initialized e busy p proto_host_port v =
     (case Find busy proto_host_port v of
        (None, v1) \<Rightarrow> (Inr None, v1)
      | (Some c, v1) \<Rightarrow>
          (case Initialize_curl e p (client_object c) of
             Inl ex \<Rightarrow> (Inl ex, v1)
           | Inr obj \<Rightarrow> (Inr (Some (c\<lparr>client_object := obj\<rparr>)), v1)))"

definition InitializeClient_curl :: "client_env \<Rightarrow> (nat \<Rightarrow> bool) \<Rightarrow> bool \<Rightarrow> httpfs_params \<Rightarrow> string \<Rightarrow> curl_client cache_view \<Rightarrow>
    (exn + curl_http_client) \<times> curl_client cache_view" where
  "InitializeClient_curl e busy connection_caching_enabled p proto_host_port v =
     (let make = (\<lambda>v1. (case HTTPFSCurlClient e p proto_host_port of
            Inl ex \<Rightarrow> (Inl ex, v1)
          | Inr obj \<Rightarrow> (Inr \<lparr>GetBaseUrl = proto_host_port, client_object = obj\<rparr>, v1)))
      in if connection_caching_enabled
         then (case find_initialized e busy p proto_host_port v of
                 (Inl ex, v1) \<Rightarrow> (Inl ex, v1)
               | (Inr (Some c), v1) \<Rightarrow> (Inr c, v1)
               | (Inr None, v1) \<Rightarrow> make v1)
         else make v)"

text \<open>
  HTTPUtil::SendRequest of DuckDB is a parameter: the response or exception, the caller's client and the cache
  (it may call InitializeClient) after it. The result of a request is the same.
\<close>

type_synonym base_send = "client_request \<Rightarrow> curl_http_client option \<Rightarrow> curl_client cache_view \<Rightarrow>
    (exn + response option) \<times> curl_http_client option \<times> curl_client cache_view"

definition CachingSendRequest :: "client_env \<Rightarrow> base_send \<Rightarrow> (nat \<Rightarrow> bool) \<Rightarrow> (nat \<Rightarrow> bool) \<Rightarrow> nat \<Rightarrow> client_request \<Rightarrow> string \<Rightarrow>
    curl_http_client option \<Rightarrow> curl_client cache_view \<Rightarrow> (exn + response option) \<times> curl_http_client option \<times> curl_client cache_view" where
  "CachingSendRequest e base_send busy busy1 random rq proto_host_port client v =
     (let caller_owns_client = (client \<noteq> None)
      in case (if caller_owns_client then (Inr client, v) else find_initialized e busy (cr_params rq) proto_host_port v) of
           (Inl ex, v1) \<Rightarrow> (Inl ex, None, v1)
         | (Inr co, v1) \<Rightarrow>
             (case base_send rq co v1 of
                (Inl ex, co1, v2) \<Rightarrow> (Inl ex, co1, v2)
              | (Inr r, co1, v2) \<Rightarrow>
                  (if \<not> caller_owns_client then (case Store busy1 random co1 v2 of (left, v3) \<Rightarrow> (Inr r, left, v3)) else (Inr r, co1, v2))))"

definition SendRequest_curl :: "client_env \<Rightarrow> base_send \<Rightarrow> (nat \<Rightarrow> bool) \<Rightarrow> (nat \<Rightarrow> bool) \<Rightarrow> nat \<Rightarrow> bool \<Rightarrow> client_request \<Rightarrow> string \<Rightarrow>
    curl_http_client option \<Rightarrow> curl_client cache_view \<Rightarrow> (exn + response option) \<times> curl_http_client option \<times> curl_client cache_view" where
  "SendRequest_curl e base_send busy busy1 random enabled rq proto_host_port client v =
     (if EnableCaching enabled (cr_params rq)
      then CachingSendRequest e base_send busy busy1 random rq proto_host_port client v
      else base_send rq client v)"

section \<open>Clients from the cache are like new ones\<close>

definition cache_inv :: "client_env \<Rightarrow> curl_client cache_view \<Rightarrow> bool" where
  "cache_inv e v \<longleftrightarrow> pools_ok (fst v) \<and> snd v < POOL_COUNT \<and>
     (\<forall>c \<in> set (cached (fst v)). curl_reach e (GetBaseUrl c) (client_object c))"

lemma loop_idx:
  "k < POOL_COUNT \<Longrightarrow> snd (snd (Find_loop busy u start js (pools, k))) < POOL_COUNT"
  "k < POOL_COUNT \<Longrightarrow> Store_loop busy c start js (pools, k) = Some v \<Longrightarrow> snd v < POOL_COUNT"
  "k < POOL_COUNT \<Longrightarrow> snd (snd (Evict_loop busy r c start js (pools, k))) < POOL_COUNT"
proof -
  have less: "pool_index start i < POOL_COUNT" for i by (simp add: pool_index_mod POOL_COUNT_def)
  show "k < POOL_COUNT \<Longrightarrow> snd (snd (Find_loop busy u start js (pools, k))) < POOL_COUNT"
    "k < POOL_COUNT \<Longrightarrow> Store_loop busy c start js (pools, k) = Some v \<Longrightarrow> snd v < POOL_COUNT"
    "k < POOL_COUNT \<Longrightarrow> snd (snd (Evict_loop busy r c start js (pools, k))) < POOL_COUNT"
    using less by (induction js) (auto simp: Let_def split: option.splits)
qed

lemma Find_keeps:
  assumes "cache_inv e v" and "Find busy u v = (co, v1)"
  shows "cache_inv e v1 \<and> (\<forall>c. co = Some c \<longrightarrow> GetBaseUrl c = u \<and> curl_reach e u (client_object c))"
proof -
  obtain pools k where v: "v = (pools, k)" by (rule prod.exhaust)
  have ok: "pools_ok pools" "k < POOL_COUNT" "\<forall>c \<in> set (cached pools). curl_reach e (GetBaseUrl c) (client_object c)"
    using assms(1) by (simp_all add: cache_inv_def v)
  have idx: "snd v1 < POOL_COUNT" using assms(2) ok(2) loop_idx(1) [OF ok(2), of busy u k "[0..<POOL_COUNT]" pools]
    by (auto simp: Find_def v split: if_splits)
  show ?thesis
  proof (cases co)
    case None
    then show ?thesis using Find_result [OF ok(1,2), where busy = busy and u = u] assms v by simp
  next
    case (Some c)
    then have r: "GetBaseUrl c = u" "mset (cached pools) = add_mset c (mset (cached (fst v1)))" "pools_ok (fst v1)"
      using Find_result [OF ok(1,2), where busy = busy and u = u] assms(2) v by (auto split: prod.splits)
    have "set (cached pools) = insert c (set (cached (fst v1)))" using arg_cong [OF r(2), of set_mset] by simp
    then show ?thesis using ok(3) r(1,3) idx Some by (simp add: cache_inv_def)
  qed
qed

lemma Store_keeps:
  assumes "cache_inv e v" and "\<And>c. co = Some c \<Longrightarrow> curl_reach e (GetBaseUrl c) (client_object c)" and "Store busy r co v = (left, v1)"
  shows "cache_inv e v1 \<and> (left = None \<or> left = co)"
proof -
  obtain pools k where v: "v = (pools, k)" by (rule prod.exhaust)
  have ok: "pools_ok pools" "k < POOL_COUNT" "\<forall>c \<in> set (cached pools). curl_reach e (GetBaseUrl c) (client_object c)"
    using assms(1) by (simp_all add: cache_inv_def v)
  show ?thesis
  proof (cases "co = None \<or> (\<exists>c. co = Some c \<and> GetBaseUrl c = '''')")
    case True
    then show ?thesis using assms(1,3) by (auto simp: Store_def)
  next
    case False
    then obtain c where c: "co = Some c" "GetBaseUrl c \<noteq> ''''" by auto
    obtain pools1 k1 where v1: "v1 = (pools1, k1)" by (rule prod.exhaust)
    have s: "Store busy r (Some c) (pools, k) = (left, pools1, k1)" using assms(3) c(1) v v1 by simp
    have "set (cached pools1) \<subseteq> insert c (set (cached pools)) \<and> pools_ok pools1 \<and> (left = None \<or> left = Some c)"
      using Store_result [OF ok(1,2) c(2) s]
      by (auto split: if_splits simp flip: set_mset_mset) (metis insert_iff set_mset_add_mset_insert)+
    moreover have "k1 < POOL_COUNT" using s c(2) loop_idx(2) [OF ok(2), of busy c k "[0..<POOL_COUNT]" pools]
        loop_idx(3) [OF ok(2), of busy r c k "[0..<POOL_COUNT]" pools]
      by (auto simp: Store_def split: option.splits)
    ultimately show ?thesis using ok(3) assms(2) c(1) v1 by (auto simp: cache_inv_def)
  qed
qed

lemma find_initialized_keeps:
  assumes "cache_inv e v" and "find_initialized e busy p u v = (x, v1)"
  shows "cache_inv e v1 \<and> (\<forall>c. x = Inr (Some c) \<longrightarrow> GetBaseUrl c = u \<and> (\<exists>c0. curl_reach e u c0 \<and> Initialize_curl e p c0 = Inr (client_object c)))"
proof -
  obtain co v2 where f: "Find busy u v = (co, v2)" by (rule prod.exhaust)
  note k = Find_keeps [OF assms(1) f]
  show ?thesis using assms(2) f k
    by (auto simp: find_initialized_def split: option.splits sum.splits)
qed

lemma Initialize_as_new: "Initialize_curl e p c = Inr c1 \<Longrightarrow> \<exists>c2. HTTPFSCurlClient e p b = Inr c2"
  by (auto simp: HTTPFSCurlClient_def Initialize_curl_def Let_def split: option.splits)

text \<open>
  C9: A client that InitializeClient hands out is for the host asked for, and it sends every request but a DELETE
  exactly as a new client with the parameters of now would, whether it was made or found in a
  cache whose clients served any requests with any parameters before. What is left in the cache is again such.
\<close>

theorem pooled_client_like_new:
  assumes "cache_inv e v" and "InitializeClient_curl e busy enabled p proto_host_port v = (Inr c, v1)" and "cr_method rq \<noteq> DELETE"
  shows "GetBaseUrl c = proto_host_port \<and> cache_inv e v1 \<and>
     (\<exists>c2. HTTPFSCurlClient e p proto_host_port = Inr c2 \<and> seen_by_curl e rq (client_object c) = seen_by_curl e rq c2)"
proof -
  obtain x v2 where f: "find_initialized e busy p proto_host_port v = (x, v2)" by (rule prod.exhaust)
  note k = find_initialized_keeps [OF assms(1) f]
  show ?thesis
  proof (cases "enabled \<and> (\<exists>c0. x = Inr (Some c0))")
    case True
    then have x: "x = Inr (Some c)" "v1 = v2" using assms(2) f by (auto simp: InitializeClient_curl_def Let_def)
    then obtain c0 where c0: "GetBaseUrl c = proto_host_port" "curl_reach e proto_host_port c0" "Initialize_curl e p c0 = Inr (client_object c)"
      using k by blast
    obtain c2 where c2: "HTTPFSCurlClient e p proto_host_port = Inr c2" using Initialize_as_new [OF c0(3)] by blast
    show ?thesis using reused_like_new [OF c0(2,3) c2, of rq] c0(1) c2 k x(2) assms(3) by blast
  next
    case False
    then show ?thesis using assms(1,2) f k
      by (auto simp: InitializeClient_curl_def Let_def split: if_splits sum.splits option.splits)
  qed
qed

lemma demo_initialize: "\<exists>c1. Initialize_curl demo_client_env demo_params c = Inr c1"
proof -
  have "http_version demo_params = ''auto''" by (simp add: demo_params_defs)
  then show ?thesis by (simp add: Initialize_curl_def Let_def http_version_auto)
qed

definition parked_curl :: curl_http_client where
  "parked_curl = \<lparr>GetBaseUrl = ''https://h'', client_object = Cleanup_curl client_2\<rparr>"

definition demo_cache :: "curl_client cache_view" where
  "demo_cache = snd (Store (\<lambda>_. False) 0 (Some parked_curl) (new_pools, 0))"

lemma demo_cache_inv: "cache_inv demo_client_env demo_cache"
proof -
  have start: "cache_inv demo_client_env (new_pools, 0)" by (simp add: cache_inv_def new_pools_ok POOL_COUNT_def)
  have reach: "Some parked_curl = Some c \<Longrightarrow> curl_reach demo_client_env (GetBaseUrl c) (client_object c)" for c
    using demo_client_used by (auto simp: parked_curl_def)
  obtain left v where "Store (\<lambda>_. False) 0 (Some parked_curl) (new_pools, 0) = (left, v)" by (rule prod.exhaust)
  moreover from this have "cache_inv demo_client_env v" using Store_keeps [OF start reach] by blast
  ultimately show ?thesis by (simp add: demo_cache_def)
qed

lemma demo_cache_initialized: "\<exists>c v1. InitializeClient_curl demo_client_env busy True demo_params ''https://h'' v = (Inr c, v1)"
proof -
  obtain co v1 where f: "Find busy ''https://h'' v = (co, v1)" by (rule prod.exhaust)
  obtain c2 where c2: "HTTPFSCurlClient demo_client_env demo_params ''https://h'' = Inr c2" using demo_clients_initialize(3) by blast
  show ?thesis
  proof (cases co)
    case None
    then show ?thesis using f c2 by (simp add: InitializeClient_curl_def find_initialized_def)
  next
    case (Some c)
    obtain c1 where "Initialize_curl demo_client_env demo_params (client_object c) = Inr c1" using demo_initialize by blast
    then show ?thesis using f Some by (simp add: InitializeClient_curl_def find_initialized_def)
  qed
qed

theorem pooled_client_like_new_witness:
  "\<exists>c v1. InitializeClient_curl demo_client_env (\<lambda>_. False) True demo_params ''https://h'' demo_cache = (Inr c, v1) \<and>
     seen_by_curl demo_client_env (demo_request GET) (client_object c) = seen_by_curl demo_client_env (demo_request GET) client_new"
proof -
  obtain c v1 where i: "InitializeClient_curl demo_client_env (\<lambda>_. False) True demo_params ''https://h'' demo_cache = (Inr c, v1)"
    using demo_cache_initialized by blast
  have m: "cr_method (demo_request GET) \<noteq> DELETE" by (simp add: demo_request_def)
  show ?thesis using pooled_client_like_new [OF demo_cache_inv i m] demo_clients_initialize(3) i by auto
qed

text \<open>
  CloseClient and SendRequest keep a cache of such clients, given that HTTPUtil::SendRequest does: the
  client it hands back and those it leaves are clients of their base URL.
\<close>

lemma CloseClient_keeps:
  assumes "cache_inv e v" and "\<And>c. co = Some c \<Longrightarrow> curl_reach e (GetBaseUrl c) (client_object c)"
  shows "cache_inv e (CloseClient busy r enabled co v)"
proof (cases "co = None \<or> \<not> enabled")
  case False
  obtain left v1 where s: "Store busy r (map_option (\<lambda>c. c\<lparr>client_object := Cleanup_curl (client_object c)\<rparr>) co) v = (left, v1)"
    by (rule prod.exhaust)
  have "curl_reach e (GetBaseUrl d) (client_object d)"
    if "map_option (\<lambda>c. c\<lparr>client_object := Cleanup_curl (client_object c)\<rparr>) co = Some d" for d
    using that assms(2) by (auto intro: cr_cleanup)
  then show ?thesis using Store_keeps [OF assms(1) _ s] False s by (auto simp: CloseClient_def)
qed (auto simp: CloseClient_def assms(1))

lemma SendRequest_keeps:
  assumes "cache_inv e v" and "\<And>c. co = Some c \<Longrightarrow> curl_reach e (GetBaseUrl c) (client_object c)"
    and send: "\<And>rq co v x co1 v1. cache_inv e v \<Longrightarrow> (\<And>c. co = Some c \<Longrightarrow> curl_reach e (GetBaseUrl c) (client_object c)) \<Longrightarrow>
      base_send rq co v = (x, co1, v1) \<Longrightarrow>
      cache_inv e v1 \<and> (\<forall>c. co1 = Some c \<longrightarrow> curl_reach e (GetBaseUrl c) (client_object c))"
    and "SendRequest_curl e base_send busy busy1 r enabled rq u co v = (x, co1, v1)"
  shows "cache_inv e v1 \<and> (\<forall>c. co1 = Some c \<longrightarrow> curl_reach e (GetBaseUrl c) (client_object c))"
proof (cases "EnableCaching enabled (cr_params rq)")
  case False
  then show ?thesis using send [OF assms(1) assms(2)] assms(4) by (simp add: SendRequest_curl_def)
next
  case True
  define got where "got = (if co \<noteq> None then (Inr co, v) else find_initialized e busy (cr_params rq) u v)"
  obtain y v2 where got2: "got = (y, v2)" by (rule prod.exhaust)
  have y: "cache_inv e v2" "y = Inr (Some c) \<Longrightarrow> curl_reach e (GetBaseUrl c) (client_object c)" for c
    using got2 assms(1,2) find_initialized_keeps [OF assms(1), of busy "cr_params rq" u y v2]
    by (auto simp: got_def split: if_splits intro: cr_initialize)
  show ?thesis
  proof (cases y)
    case (Inl ex)
    then show ?thesis using assms(4) True got2 y(1) by (simp add: SendRequest_curl_def CachingSendRequest_def Let_def got_def)
  next
    case (Inr co2)
    obtain z co3 v3 where s: "base_send rq co2 v2 = (z, co3, v3)" by (metis prod.exhaust)
    have k: "cache_inv e v3 \<and> (\<forall>c. co3 = Some c \<longrightarrow> curl_reach e (GetBaseUrl c) (client_object c))"
      using send [OF y(1) _ s] y(2) Inr by simp
    obtain left v4 where st: "Store busy1 r co3 v3 = (left, v4)" by (rule prod.exhaust)
    have k4: "cache_inv e v4 \<and> (left = None \<or> left = co3)" using Store_keeps [OF _ _ st] k by blast
    have r: "SendRequest_curl e base_send busy busy1 r enabled rq u co v =
        (case z of Inl ex \<Rightarrow> (Inl ex, co3, v3) | Inr r0 \<Rightarrow> if co = None then (Inr r0, left, v4) else (Inr r0, co3, v3))"
      using True got2 Inr s st by (cases z) (simp_all add: SendRequest_curl_def CachingSendRequest_def Let_def got_def)
    have "(x, co1, v1) = (case z of Inl ex \<Rightarrow> (Inl ex, co3, v3) | Inr r0 \<Rightarrow> if co = None then (Inr r0, left, v4) else (Inr r0, co3, v3))"
      using assms(4) unfolding r by simp
    then show ?thesis using k k4 by (auto split: sum.splits if_splits)
  qed
qed

end
