(* ===== verification/Extension.thy ===== *)
theory Extension
  imports HttpOpen S3Glob ConnectionCache
begin

text \<open>
  Loading the extension (src/httpfs_extension.cpp) and registering its secret types
  (src/create_secret_functions.cpp): the options with their types and defaults, the callbacks of three of
  them, the HTTP implementation in use, and the named parameters of CREATE SECRET.
\<close>

section \<open>Options\<close>

datatype logical_type = T_BOOLEAN | T_VARCHAR | T_UBIGINT | T_FLOAT | T_MAP

datatype setting = S_Bool bool | S_Nat nat | S_Float rat | S_Text string

record extension_option =
  eo_name :: string
  eo_type :: logical_type
  eo_default :: "setting option"

abbreviation (input) opt :: "string \<Rightarrow> logical_type \<Rightarrow> setting option \<Rightarrow> extension_option" where
  "opt n t d \<equiv> \<lparr>eo_name = n, eo_type = t, eo_default = d\<rparr>"

text \<open>The options in the order of LoadInternal; the default of http_timeout is a constant of DuckDB.\<close>

definition http_options :: "nat \<Rightarrow> extension_option list" where
  "http_options DEFAULT_TIMEOUT_SECONDS =
     [opt ''http_timeout'' T_UBIGINT (Some (S_Nat DEFAULT_TIMEOUT_SECONDS)),
      opt ''http_retries'' T_UBIGINT (Some (S_Nat 3)),
      opt ''http_retry_wait_ms'' T_UBIGINT (Some (S_Nat 100)),
      opt ''force_download'' T_BOOLEAN (Some (S_Bool False)),
      opt ''force_download_threshold'' T_UBIGINT (Some (S_Nat 0)),
      opt ''auto_fallback_to_full_download'' T_BOOLEAN (Some (S_Bool True)),
      opt ''http_retry_backoff'' T_FLOAT (Some (S_Float 4)),
      opt ''http_keep_alive'' T_BOOLEAN (Some (S_Bool True)),
      opt ''allow_asterisks_in_http_paths'' T_BOOLEAN (Some (S_Bool False)),
      opt ''enable_curl_server_cert_verification'' T_BOOLEAN (Some (S_Bool True)),
      opt ''enable_server_cert_verification'' T_BOOLEAN (Some (S_Bool False)),
      opt ''ca_cert_file'' T_VARCHAR (Some (S_Text []))]"

definition s3_options :: "extension_option list" where
  "s3_options =
     [opt ''s3_region'' T_VARCHAR None,
      opt ''s3_access_key_id'' T_VARCHAR None,
      opt ''s3_secret_access_key'' T_VARCHAR None,
      opt ''s3_session_token'' T_VARCHAR None,
      opt ''s3_endpoint'' T_VARCHAR None,
      opt ''s3_url_style'' T_VARCHAR (Some (S_Text ''vhost'')),
      opt ''s3_use_ssl'' T_BOOLEAN (Some (S_Bool True)),
      opt ''s3_kms_key_id'' T_VARCHAR None,
      opt ''s3_url_compatibility_mode'' T_BOOLEAN (Some (S_Bool False)),
      opt ''s3_requester_pays'' T_BOOLEAN (Some (S_Bool False)),
      opt ''s3_allow_recursive_globbing'' T_BOOLEAN (Some (S_Bool True))]"

definition uploader_and_client_options :: "extension_option list" where
  "uploader_and_client_options =
     [opt ''s3_uploader_max_filesize'' T_VARCHAR (Some (S_Text ''800GB'')),
      opt ''s3_uploader_max_parts_per_file'' T_UBIGINT (Some (S_Nat 10000)),
      opt ''s3_uploader_thread_limit'' T_UBIGINT (Some (S_Nat 50)),
      opt ''unsafe_disable_etag_checks'' T_BOOLEAN (Some (S_Bool False)),
      opt ''http_version'' T_VARCHAR (Some (S_Text ''auto'')),
      opt ''httpfs_curl_verbose'' T_BOOLEAN (Some (S_Bool False)),
      opt ''http2_multiplex'' T_BOOLEAN (Some (S_Bool True)),
      opt ''s3_version_id_pinning'' T_BOOLEAN (Some (S_Bool False)),
      opt ''hf_max_per_page'' T_UBIGINT (Some (S_Nat 0)),
      opt ''merge_http_secret_into_s3_request'' T_BOOLEAN (Some (S_Bool True)),
      opt ''httpfs_enable_credential_refresh'' T_BOOLEAN (Some (S_Bool True))]"

definition implementation_options :: "extension_option list" where
  "implementation_options =
     [opt ''httpfs_client_implementation'' T_VARCHAR (Some (S_Text ''default'')),
      opt ''httpfs_connection_caching'' T_BOOLEAN (Some (S_Bool False)),
      opt ''enable_global_s3_configuration'' T_BOOLEAN (Some (S_Bool True))]"

definition extension_options :: "nat \<Rightarrow> extension_option list" where
  "extension_options t = http_options t @ s3_options @ uploader_and_client_options @ implementation_options"

lemmas option_lists = extension_options_def http_options_def s3_options_def uploader_and_client_options_def implementation_options_def

definition registered :: "string \<Rightarrow> logical_type \<Rightarrow> bool" where
  "registered name t \<longleftrightarrow> (\<exists>o1 \<in> set (extension_options 0). eo_name o1 = name \<and> eo_type o1 = t)"

section \<open>The HTTP implementation and the callbacks\<close>

text \<open>
  The HTTPUtil of the configuration: the one of duckdb-wasm, HTTPFSCurlUtil with its flag and its cache,
  HTTPFSUtil, or any other by its name.
\<close>

datatype http_util = WasmUtil | CurlUtil bool "curl_client pool list" | HttplibUtil | OtherUtil string

fun GetName :: "http_util \<Rightarrow> string" where
  "GetName WasmUtil = ''WasmHTTPUtils''"
| "GetName (CurlUtil _ _) = ''HTTPFS-Curl''"
| "GetName HttplibUtil = ''HTTPFS''"
| "GetName (OtherUtil n) = n"

definition new_curl_util :: http_util where
  "new_curl_util = CurlUtil False new_pools"

text \<open>The callbacks: the parameter they leave, and the HTTP implementation. Canonicalizing a path is DuckDB's.\<close>

definition callback_ca_cert_file :: "(string \<Rightarrow> exn + string) \<Rightarrow> string option \<Rightarrow> exn + string" where
  "callback_ca_cert_file canonicalize v =
     (case v of
        None \<Rightarrow> Inl (Exn ExInvalidInput (''NULL it'' @ [CHR 0x27] @ ''s not a valid option for ca_cert_file'') None)
      | Some s \<Rightarrow> (if s = '''' then Inr '''' else canonicalize s))"

definition callback_httpfs_client_implementation :: "string \<Rightarrow> http_util \<Rightarrow> exn + http_util" where
  "callback_httpfs_client_implementation v util =
     (if GetName util = ''WasmHTTPUtils''
      then (if v = ''wasm'' \<or> v = ''default'' then Inr util
            else Inl (Exn ExInvalidInput ''Unsupported option for httpfs_client_implementation, only `wasm` and `default` are currently supported for duckdb-wasm'' None))
      else if v = ''curl'' \<or> v = ''default'' then Inr new_curl_util
      else if v = ''httplib'' then Inr HttplibUtil
      else Inl (Exn ExInvalidInput ''Unsupported option for httpfs_client_implementation, only `curl`, `httplib` and `default` are currently supported'' None))"

definition callback_httpfs_connection_caching :: "bool \<Rightarrow> http_util \<Rightarrow> http_util" where
  "callback_httpfs_connection_caching v util =
     (case util of CurlUtil _ pools \<Rightarrow> CurlUtil v pools | _ \<Rightarrow> util)"

text \<open>
  SET, as far as the options of this extension are concerned: the callback runs, then DuckDB stores the
  parameter it leaves. A callback that throws leaves the value.
\<close>

type_synonym db_state = "(string \<rightharpoonup> setting) \<times> http_util"

definition SetOption :: "(string \<Rightarrow> exn + string) \<Rightarrow> string \<Rightarrow> setting \<Rightarrow> db_state \<Rightarrow> exn + db_state" where
  "SetOption canonicalize name v db =
     (case db of (vals, util) \<Rightarrow>
       (case (name = ''ca_cert_file'', name = ''httpfs_client_implementation'', name = ''httpfs_connection_caching'', v) of
          (True, _, _, S_Text s) \<Rightarrow>
            (case callback_ca_cert_file canonicalize (Some s) of Inl ex \<Rightarrow> Inl ex | Inr s1 \<Rightarrow> Inr (vals(name \<mapsto> S_Text s1), util))
        | (_, True, _, S_Text s) \<Rightarrow>
            (case callback_httpfs_client_implementation s util of Inl ex \<Rightarrow> Inl ex | Inr util1 \<Rightarrow> Inr (vals(name \<mapsto> v), util1))
        | (_, _, True, S_Bool b) \<Rightarrow> Inr (vals(name \<mapsto> v), callback_httpfs_connection_caching b util)
        | _ \<Rightarrow> Inr (vals(name \<mapsto> v), util)))"

text \<open>ClearCachedConnections: the cache of the curl implementation, a no-op for the base class.\<close>

definition ClearCachedConnections :: "http_util \<Rightarrow> http_util" where
  "ClearCachedConnections util = (case util of CurlUtil b pools \<Rightarrow> CurlUtil b (Clear pools) | _ \<Rightarrow> util)"

section \<open>Secret types\<close>

text \<open>SetBaseNamedParams.\<close>

definition SetBaseNamedParams :: "string \<Rightarrow> (string \<times> logical_type) list" where
  "SetBaseNamedParams ty =
     [(''key_id'', T_VARCHAR), (''secret'', T_VARCHAR), (''region'', T_VARCHAR), (''session_token'', T_VARCHAR),
      (''endpoint'', T_VARCHAR), (''url_style'', T_VARCHAR), (''use_ssl'', T_BOOLEAN), (''verify_ssl'', T_BOOLEAN),
      (''kms_key_id'', T_VARCHAR), (''url_compatibility_mode'', T_BOOLEAN), (''requester_pays'', T_BOOLEAN),
      (''refresh'', T_VARCHAR), (''http_proxy'', T_VARCHAR), (''http_proxy_password'', T_VARCHAR),
      (''http_proxy_username'', T_VARCHAR), (''extra_http_headers'', T_MAP), (''refresh_info'', T_MAP)] @
     (if ty = ''r2'' then [(''account_id'', T_VARCHAR)] else []) @
     (if ty = ''gcs'' then [(''bearer_token'', T_VARCHAR)] else [])"

text \<open>A CreateSecretFunction as it is registered: type, provider and named parameters.\<close>

type_synonym secret_function = "string \<times> string \<times> (string \<times> logical_type) list"

definition RegisterCreateSecretFunction :: "string \<Rightarrow> secret_function list \<Rightarrow> secret_function list" where
  "RegisterCreateSecretFunction ty fs = fs @ [(ty, ''config'', SetBaseNamedParams ty)]"

definition RegisterS3Secrets :: "secret_function list \<Rightarrow> secret_function list" where
  "RegisterS3Secrets fs =
     RegisterCreateSecretFunction ''gcs'' (RegisterCreateSecretFunction ''r2''
       (RegisterCreateSecretFunction ''aws'' (RegisterCreateSecretFunction ''s3'' fs)))"

definition RegisterBearerTokens :: "secret_function list \<Rightarrow> secret_function list" where
  "RegisterBearerTokens fs =
     fs @ [(''huggingface'', ''config'', [(''token'', T_VARCHAR)]), (''huggingface'', ''credential_chain'', [])]"

text \<open>LoadInternal: file systems, options, the HTTP implementation and the secret functions.\<close>

record loaded =
  ld_file_systems :: "string list"
  ld_options :: "extension_option list"
  ld_util :: http_util
  ld_secrets :: "secret_function list"

definition LoadInternal :: "nat \<Rightarrow> loaded \<Rightarrow> loaded" where
  "LoadInternal timeout_default l =
     \<lparr>ld_file_systems = ld_file_systems l @ [''HTTPFileSystem'', ''HuggingFaceFileSystem'', ''S3FileSystem''],
      ld_options = ld_options l @ extension_options timeout_default,
      ld_util = (if GetName (ld_util l) = ''WasmHTTPUtils'' then ld_util l else new_curl_util),
      ld_secrets = RegisterBearerTokens (RegisterS3Secrets (ld_secrets l))\<rparr>"

section \<open>What is read is registered\<close>

text \<open>Two openers that agree on the registered settings, each read with its registered type, and on all but settings.\<close>

definition same_settings :: "opener \<Rightarrow> opener \<Rightarrow> bool" where
  "same_settings o1 o2 \<longleftrightarrow>
     (\<forall>n. (registered n T_BOOLEAN \<longrightarrow> op_bool o1 n = op_bool o2 n) \<and> (registered n T_UBIGINT \<longrightarrow> op_nat o1 n = op_nat o2 n) \<and>
          (registered n T_FLOAT \<longrightarrow> op_rat o1 n = op_rat o2 n) \<and> (registered n T_VARCHAR \<longrightarrow> op_str o1 n = op_str o2 n)) \<and>
     op_context o1 = op_context o2 \<and> op_database o1 = op_database o2 \<and> op_secret_str o1 = op_secret_str o2 \<and>
     op_secret_bool o1 = op_secret_bool o2 \<and> op_secret_map o1 = op_secret_map o2 \<and> op_parse_proxy o1 = op_parse_proxy o2 \<and>
     op_base_params o1 = op_base_params o2"

definition same_s3_settings :: "s3_reader \<Rightarrow> s3_reader \<Rightarrow> bool" where
  "same_s3_settings r1 r2 \<longleftrightarrow>
     (\<forall>k n. (registered n T_VARCHAR \<longrightarrow> sr_str r1 k n = sr_str r2 k n) \<and> (registered n T_BOOLEAN \<longrightarrow> sr_bool r1 k n = sr_bool r2 k n)) \<and>
     sr_secret r1 = sr_secret r2 \<and> sr_use_env r1 = sr_use_env r2"

definition option_types :: "(string \<times> logical_type) list" where
  "option_types = map (\<lambda>o1. (eo_name o1, eo_type o1)) (extension_options 0)"

lemma registered_iff: "registered n t \<longleftrightarrow> (n, t) \<in> set option_types"
  by (auto simp: registered_def option_types_def)

lemmas option_types_list = option_types_def [unfolded option_lists append_Cons append_Nil list.map extension_option.simps]

lemma registered_reads:
  "list_all (\<lambda>n. registered n T_BOOLEAN)
     [''force_download'', ''auto_fallback_to_full_download'', ''http_keep_alive'', ''enable_curl_server_cert_verification'',
      ''enable_server_cert_verification'', ''unsafe_disable_etag_checks'', ''s3_version_id_pinning'', ''httpfs_curl_verbose'',
      ''http2_multiplex'', ''merge_http_secret_into_s3_request'', ''httpfs_enable_credential_refresh'',
      ''allow_asterisks_in_http_paths'', ''s3_use_ssl'', ''s3_url_compatibility_mode'', ''s3_requester_pays'']"
  "list_all (\<lambda>n. registered n T_UBIGINT)
     [''http_timeout'', ''force_download_threshold'', ''http_retries'', ''http_retry_wait_ms'', ''hf_max_per_page'',
      ''s3_uploader_max_parts_per_file'', ''s3_uploader_thread_limit'']"
  "list_all (\<lambda>n. registered n T_FLOAT) [''http_retry_backoff'']"
  "list_all (\<lambda>n. registered n T_VARCHAR)
     [''ca_cert_file'', ''http_version'', ''s3_uploader_max_filesize'', ''s3_region'', ''s3_access_key_id'', ''s3_secret_access_key'',
      ''s3_session_token'', ''s3_kms_key_id'', ''s3_endpoint'', ''s3_url_style'']"
  by (simp_all only: list.pred_inject registered_iff option_types_list list.set insert_iff prod.inject refl simp_thms)

lemma settings_agree:
  assumes "same_settings o1 o2"
  shows "registered n T_BOOLEAN \<Longrightarrow> op_bool o1 n = op_bool o2 n" "registered n T_UBIGINT \<Longrightarrow> op_nat o1 n = op_nat o2 n"
    "registered n T_FLOAT \<Longrightarrow> op_rat o1 n = op_rat o2 n" "registered n T_VARCHAR \<Longrightarrow> op_str o1 n = op_str o2 n"
  using assms unfolding same_settings_def by blast+

lemma s3_settings_agree:
  assumes "same_s3_settings r1 r2"
  shows "registered n T_VARCHAR \<Longrightarrow> sr_str r1 k n = sr_str r2 k n" "registered n T_BOOLEAN \<Longrightarrow> sr_bool r1 k n = sr_bool r2 k n"
  using assms unfolding same_s3_settings_def by blast+

lemma all_weaken: "list_all P xs \<Longrightarrow> (\<And>x. P x \<Longrightarrow> Q x) \<Longrightarrow> list_all Q xs"
  by (induction xs) simp_all

lemmas reads_bool = all_weaken [OF registered_reads(1), unfolded list.pred_inject simp_thms]
  and reads_nat = all_weaken [OF registered_reads(2), unfolded list.pred_inject simp_thms]
  and reads_rat = all_weaken [OF registered_reads(3), unfolded list.pred_inject simp_thms]
  and reads_str = all_weaken [OF registered_reads(4), unfolded list.pred_inject simp_thms]


text \<open>An opener that answers the registered settings like another and a boolean by the name of a number.\<close>

definition odd_opener :: opener where
  "odd_opener = demo_opener\<lparr>op_bool := (\<lambda>n. if n = ''http_timeout'' then Some True else op_bool demo_opener n)\<rparr>"


section \<open>The defaults\<close>

text \<open>The value of an option that was never set, read with a type.\<close>

definition default_of :: "nat \<Rightarrow> string \<Rightarrow> setting option" where
  "default_of t n = (case map_of (map (\<lambda>o1. (eo_name o1, eo_default o1)) (extension_options t)) n of Some d \<Rightarrow> d | None \<Rightarrow> None)"

definition default_opener :: "nat \<Rightarrow> opener \<Rightarrow> opener" where
  "default_opener t o1 = o1\<lparr>op_bool := (\<lambda>n. case default_of t n of Some (S_Bool b) \<Rightarrow> Some b | _ \<Rightarrow> None),
     op_nat := (\<lambda>n. case default_of t n of Some (S_Nat k) \<Rightarrow> Some k | _ \<Rightarrow> None),
     op_rat := (\<lambda>n. case default_of t n of Some (S_Float x) \<Rightarrow> Some x | _ \<Rightarrow> None),
     op_str := (\<lambda>n. case default_of t n of Some (S_Text s) \<Rightarrow> Some s | _ \<Rightarrow> None)\<rparr>"

lemmas default_simps = default_of_def option_lists

lemma defaults_bool:
  "default_of t ''force_download'' = Some (S_Bool False)" "default_of t ''auto_fallback_to_full_download'' = Some (S_Bool True)"
  "default_of t ''http_keep_alive'' = Some (S_Bool True)" "default_of t ''enable_curl_server_cert_verification'' = Some (S_Bool True)"
  "default_of t ''enable_server_cert_verification'' = Some (S_Bool False)" "default_of t ''unsafe_disable_etag_checks'' = Some (S_Bool False)"
  "default_of t ''s3_version_id_pinning'' = Some (S_Bool False)" "default_of t ''httpfs_curl_verbose'' = Some (S_Bool False)"
  "default_of t ''http2_multiplex'' = Some (S_Bool True)" "default_of t ''merge_http_secret_into_s3_request'' = Some (S_Bool True)"
  "default_of t ''httpfs_enable_credential_refresh'' = Some (S_Bool True)"
  by (simp_all add: default_simps)

lemma defaults_other:
  "default_of t ''http_timeout'' = Some (S_Nat t)" "default_of t ''force_download_threshold'' = Some (S_Nat 0)"
  "default_of t ''http_retries'' = Some (S_Nat 3)" "default_of t ''http_retry_wait_ms'' = Some (S_Nat 100)"
  "default_of t ''hf_max_per_page'' = Some (S_Nat 0)" "default_of t ''s3_uploader_max_parts_per_file'' = Some (S_Nat 10000)"
  "default_of t ''s3_uploader_thread_limit'' = Some (S_Nat 50)" "default_of t ''http_retry_backoff'' = Some (S_Float 4)"
  "default_of t ''ca_cert_file'' = Some (S_Text [])" "default_of t ''http_version'' = Some (S_Text ''auto'')"
  "default_of t ''s3_uploader_max_filesize'' = Some (S_Text ''800GB'')"
  by (simp_all add: default_simps)



section \<open>Selecting the implementation again\<close>



section \<open>CREATE SECRET accepts what it registered\<close>

text \<open>DuckDB casts the options to the types of the named parameters before the function runs; NULLs are left out.\<close>

definition has_type :: "logical_type \<Rightarrow> sval \<Rightarrow> bool" where
  "has_type t v =
     (case (t, v) of
        (T_BOOLEAN, VBool b) \<Rightarrow> True
      | (T_VARCHAR, VStr s) \<Rightarrow> True
      | (T_MAP, VMap kvs) \<Rightarrow> (\<forall>kv \<in> set kvs. length kv = 2)
      | _ \<Rightarrow> False)"

definition accepted :: "string_util \<Rightarrow> string \<Rightarrow> (string \<times> sval) list \<Rightarrow> bool" where
  "accepted su ty opts \<longleftrightarrow>
     (\<forall>(k, v) \<in> set opts. \<exists>t. (su_lower su k, t) \<in> set (SetBaseNamedParams ty) \<and> has_type t v) \<and>
     distinct (map (su_lower su \<circ> fst) opts) \<and>
     \<not> {''refresh'', ''refresh_info''} \<subseteq> set (map (su_lower su \<circ> fst) opts)"

lemmas option_keys = raw_keys_def text_keys_def bool_keys_def

text \<open>One accepted option: it is applied, and only an option about the refresh sets the flag.\<close>

lemma accepted_option:
  assumes "(su_lower su (fst np), t) \<in> set (SetBaseNamedParams ty)" and "has_type t (snd np)"
    and "fst st \<longrightarrow> su_lower su (fst np) \<notin> {''refresh'', ''refresh_info''}"
  shows "\<exists>st1. apply_option su vs ty opts np st = Inr st1 \<and>
     (fst st1 \<longrightarrow> fst st \<or> su_lower su (fst np) \<in> {''refresh'', ''refresh_info''}) \<and>
     sec_type (snd st1) = sec_type (snd st) \<and> sec_scope (snd st1) = sec_scope (snd st) \<and> sec_name (snd st1) = sec_name (snd st)"
proof -
  obtain r s where st: "st = (r, s)" by (rule prod.exhaust)
  consider "su_lower su (fst np) \<in> set raw_keys" | "su_lower su (fst np) \<in> set text_keys"
    | "su_lower su (fst np) \<in> set bool_keys" "t = T_BOOLEAN" | "su_lower su (fst np) = ''account_id''"
    | "su_lower su (fst np) = ''refresh''" | "su_lower su (fst np) = ''refresh_info''" "t = T_MAP"
    | "su_lower su (fst np) = ''bearer_token''" "ty = ''gcs''"
    using assms(1) by (auto simp: SetBaseNamedParams_def option_keys split: if_splits)
  then show ?thesis
  proof cases
    case 3
    then obtain b where "snd np = VBool b" using assms(2) by (auto simp: has_type_def split: sval.splits)
    then show ?thesis using 3 by (auto simp: apply_option_def st put_bool_def put_def option_keys)
  next
    case 6
    then obtain kvs where m: "snd np = VMap kvs" "\<forall>kv \<in> set kvs. length kv = 2" using assms(2) by (auto simp: has_type_def split: sval.splits)
    then have "\<exists>info. MapToStruct vs (snd np) = Inr info" by (simp add: MapToStruct_def)
    then show ?thesis using 6 assms(3) by (auto simp: apply_option_def st put_def option_keys)
  qed (use assms(3) in \<open>auto simp: apply_option_def st put_def option_keys Let_def\<close>)
qed

lemma one_of_two: "x \<in> {a, b} \<Longrightarrow> x \<notin> S \<Longrightarrow> \<not> {a, b} \<subseteq> insert x S \<Longrightarrow> S \<inter> {a, b} = {}"
  by auto

lemma accepted_options:
  assumes "\<forall>(k, v) \<in> set nps. \<exists>t. (su_lower su k, t) \<in> set (SetBaseNamedParams ty) \<and> has_type t v"
    and "distinct (map (su_lower su \<circ> fst) nps)" and "\<not> {''refresh'', ''refresh_info''} \<subseteq> set (map (su_lower su \<circ> fst) nps)"
    and "fst st \<longrightarrow> set (map (su_lower su \<circ> fst) nps) \<inter> {''refresh'', ''refresh_info''} = {}"
  shows "\<exists>r s. apply_options su vs ty opts nps st = Inr (r, s) \<and> sec_type s = sec_type (snd st) \<and>
     sec_scope s = sec_scope (snd st) \<and> sec_name s = sec_name (snd st)"
  using assms
proof (induction nps arbitrary: st)
  case Nil
  then show ?case by (cases st) simp
next
  case (Cons np nps)
  obtain t where t: "(su_lower su (fst np), t) \<in> set (SetBaseNamedParams ty)" "has_type t (snd np)"
    using Cons.prems(1) by (cases np) auto
  have "fst st \<longrightarrow> su_lower su (fst np) \<notin> {''refresh'', ''refresh_info''}" using Cons.prems(4) by auto
  then obtain st1 where st1: "apply_option su vs ty opts np st = Inr st1"
     "fst st1 \<longrightarrow> fst st \<or> su_lower su (fst np) \<in> {''refresh'', ''refresh_info''}"
     "sec_type (snd st1) = sec_type (snd st)" "sec_scope (snd st1) = sec_scope (snd st)" "sec_name (snd st1) = sec_name (snd st)"
    using accepted_option [OF t] by blast
  have "set (map (su_lower su \<circ> fst) nps) \<inter> {''refresh'', ''refresh_info''} = {}" if "fst st1"
  proof (cases "fst st")
    case True
    then show ?thesis using Cons.prems(4) by auto
  next
    case False
    then have "su_lower su (fst np) \<in> {''refresh'', ''refresh_info''}" using st1(2) that by blast
    moreover have "su_lower su (fst np) \<notin> set (map (su_lower su \<circ> fst) nps)" using Cons.prems(2) by simp
    moreover have "\<not> {''refresh'', ''refresh_info''} \<subseteq> insert (su_lower su (fst np)) (set (map (su_lower su \<circ> fst) nps))"
      using Cons.prems(3) unfolding list.map list.set comp_apply [of "su_lower su" fst np] .
    ultimately show ?thesis by (rule one_of_two)
  qed
  then have flag: "fst st1 \<longrightarrow> set (map (su_lower su \<circ> fst) nps) \<inter> {''refresh'', ''refresh_info''} = {}" by blast
  have rest: "\<forall>(k, v) \<in> set nps. \<exists>t. (su_lower su k, t) \<in> set (SetBaseNamedParams ty) \<and> has_type t v"
    using Cons.prems(1) by simp
  have dis: "distinct (map (su_lower su \<circ> fst) nps)" using Cons.prems(2) unfolding list.map distinct.simps by blast
  have sub: "\<not> {''refresh'', ''refresh_info''} \<subseteq> set (map (su_lower su \<circ> fst) nps)"
    using Cons.prems(3) unfolding list.map list.set by (meson subset_insertI2)
  show ?case using Cons.IH [OF rest dis sub flag] st1 by simp
qed


definition accepted_input :: secret_input where
  "accepted_input = (demo_input [(''KEY_ID'', VStr ''AK''), (''use_ssl'', VBool False), (''refresh'', VStr ''auto''),
     (''extra_http_headers'', VMap [[VStr ''x'', VStr ''1'']])])\<lparr>in_type := ''s3''\<rparr>"


end
