(* ===== verification/Crypto.thy ===== *)
theory Crypto
  imports Http "HOL-Library.Word"
begin

unbundle bit_operations_syntax

text \<open>
  AESStateSSL (src/crypto.cpp, src/include/crypto.hpp): the encryption state over OpenSSL, whose functions
  are parameters on an abstract context. Lengths are 64-bit words; OpenSSL takes and stores ints.
\<close>

section \<open>OpenSSL\<close>

datatype cipher_type = GCM | CTR | CBC | OtherCipher nat

datatype evp_cipher = EVP_aes_128_gcm | EVP_aes_192_gcm | EVP_aes_256_gcm | EVP_aes_128_ctr | EVP_aes_192_ctr
  | EVP_aes_256_ctr | EVP_aes_128_cbc | EVP_aes_192_cbc | EVP_aes_256_cbc

text \<open>
  Each function returns the int of OpenSSL and the context. An update gets the input buffer and the int of its
  length, and yields what it wrote; so do the functions of the last block. es_decrypt_aad is
  EVP_DecryptUpdate without an output buffer.
\<close>

record 'c openssl =
  es_encrypt_init :: "evp_cipher option \<Rightarrow> (bytes \<times> bytes) option \<Rightarrow> 'c \<Rightarrow> int \<times> 'c"
  es_decrypt_init :: "evp_cipher option \<Rightarrow> (bytes \<times> bytes) option \<Rightarrow> 'c \<Rightarrow> int \<times> 'c"
  es_set_ivlen :: "nat \<Rightarrow> 'c \<Rightarrow> int \<times> 'c"
  es_encrypt_update :: "bytes \<Rightarrow> int \<Rightarrow> 'c \<Rightarrow> int \<times> bytes \<times> 'c"
  es_decrypt_update :: "bytes \<Rightarrow> int \<Rightarrow> 'c \<Rightarrow> int \<times> bytes \<times> 'c"
  es_decrypt_aad :: "bytes \<Rightarrow> 'c \<Rightarrow> int \<times> 'c"
  es_encrypt_final :: "'c \<Rightarrow> int \<times> bytes \<times> 'c"
  es_decrypt_final :: "'c \<Rightarrow> int \<times> bytes \<times> 'c"
  es_get_tag :: "nat \<Rightarrow> 'c \<Rightarrow> int \<times> bytes \<times> 'c"
  es_set_tag :: "bytes \<Rightarrow> 'c \<Rightarrow> int \<times> 'c"
  es_rand_bytes :: "nat \<Rightarrow> int \<times> bytes"

section \<open>The encryption state\<close>

datatype aes_mode = ENCRYPT | DECRYPT

record 'c aes_state =
  ae_cipher :: cipher_type
  ae_key_len :: nat
  ae_context :: 'c
  ae_mode :: aes_mode

definition GetCipher :: "'c aes_state \<Rightarrow> exn + evp_cipher" where
  "GetCipher s =
     (case ae_cipher s of
        GCM \<Rightarrow>
          (if ae_key_len s = 16 then Inr EVP_aes_128_gcm
           else if ae_key_len s = 24 then Inr EVP_aes_192_gcm
           else if ae_key_len s = 32 then Inr EVP_aes_256_gcm
           else Inl (Exn ExInternal ''Invalid AES key length for GCM'' None))
      | CTR \<Rightarrow>
          (if ae_key_len s = 16 then Inr EVP_aes_128_ctr
           else if ae_key_len s = 24 then Inr EVP_aes_192_ctr
           else if ae_key_len s = 32 then Inr EVP_aes_256_ctr
           else Inl (Exn ExInternal ''Invalid AES key length for CTR'' None))
      | CBC \<Rightarrow>
          (if ae_key_len s = 16 then Inr EVP_aes_128_cbc
           else if ae_key_len s = 24 then Inr EVP_aes_192_cbc
           else if ae_key_len s = 32 then Inr EVP_aes_256_cbc
           else Inl (Exn ExInternal ''Invalid AES key length for CBC'' None))
      | OtherCipher _ \<Rightarrow> Inl (Exn ExInternal ''Invalid Encryption/Decryption Cipher'' None))"

definition GenerateRandomData :: "'c openssl \<Rightarrow> nat \<Rightarrow> exn + bytes" where
  "GenerateRandomData e len =
     (case es_rand_bytes e len of
        (res, d) \<Rightarrow> if res \<noteq> 1 then Inl (Exn ExInternal ''Failed to generate random data from RAND_bytes'' None) else Inr d)"

definition InitializeIVEncrypt :: "'c openssl \<Rightarrow> bytes \<Rightarrow> bytes \<Rightarrow> 'c aes_state \<Rightarrow> exn + 'c aes_state" where
  "InitializeIVEncrypt e nonce key s =
     (case es_set_ivlen e (length nonce) (ae_context s) of
        (res, c) \<Rightarrow>
          (if res \<noteq> 1 then Inl (Exn ExInternal ''EVP_CIPHER_CTX_ctrl failed (EVP_CTRL_GCM_SET_IVLEN)'' None)
           else case es_encrypt_init e None (Some (key, nonce)) c of
               (res1, c1) \<Rightarrow> if res1 \<noteq> 1 then Inl (Exn ExInternal ''EncryptInit failed (attempt 2)'' None) else Inr (s\<lparr>ae_context := c1\<rparr>)))"

definition InitializeIVDecrypt :: "'c openssl \<Rightarrow> bytes \<Rightarrow> bytes \<Rightarrow> 'c aes_state \<Rightarrow> exn + 'c aes_state" where
  "InitializeIVDecrypt e nonce key s =
     (case es_set_ivlen e (length nonce) (ae_context s) of
        (res, c) \<Rightarrow>
          (if res \<noteq> 1 then Inl (Exn ExInternal ''EVP_CIPHER_CTX_ctrl failed to set GCM iv len'' None)
           else case es_decrypt_init e None (Some (key, nonce)) c of
               (res1, c1) \<Rightarrow> if res1 \<noteq> 1 then Inl (Exn ExInternal ''EVP_DecryptInit_ex failed to set iv/key'' None) else Inr (s\<lparr>ae_context := c1\<rparr>)))"

text \<open>The additional data goes through EVP_DecryptUpdate in both directions.\<close>

definition set_aad :: "'c openssl \<Rightarrow> bytes \<Rightarrow> 'c aes_state \<Rightarrow> exn + 'c aes_state" where
  "set_aad e aad s =
     (if aad = [] then Inr s
      else case es_decrypt_aad e aad (ae_context s) of
          (res, c) \<Rightarrow> if res = 0 then Inl (Exn ExInternal ''Setting Additional Authenticated Data  failed'' None) else Inr (s\<lparr>ae_context := c\<rparr>))"

definition InitializeEncryption :: "'c openssl \<Rightarrow> bytes \<Rightarrow> bytes \<Rightarrow> bytes \<Rightarrow> 'c aes_state \<Rightarrow> exn + 'c aes_state" where
  "InitializeEncryption e nonce key aad s =
     (let s1 = s\<lparr>ae_mode := ENCRYPT\<rparr>
      in case GetCipher s1 of
           Inl ex \<Rightarrow> Inl ex
         | Inr ci \<Rightarrow>
             (case es_encrypt_init e (Some ci) None (ae_context s1) of
                (res, c) \<Rightarrow>
                  (if res \<noteq> 1 then Inl (Exn ExInternal ''EncryptInit failed (attempt 1)'' None)
                   else case InitializeIVEncrypt e nonce key (s1\<lparr>ae_context := c\<rparr>) of
                       Inl ex \<Rightarrow> Inl ex | Inr s2 \<Rightarrow> set_aad e aad s2)))"

definition InitializeDecryption :: "'c openssl \<Rightarrow> bytes \<Rightarrow> bytes \<Rightarrow> bytes \<Rightarrow> 'c aes_state \<Rightarrow> exn + 'c aes_state" where
  "InitializeDecryption e nonce key aad s =
     (let s1 = s\<lparr>ae_mode := DECRYPT\<rparr>
      in case GetCipher s1 of
           Inl ex \<Rightarrow> Inl ex
         | Inr ci \<Rightarrow>
             (case es_decrypt_init e (Some ci) None (ae_context s1) of
                (res, c) \<Rightarrow>
                  (if res \<noteq> 1 then Inl (Exn ExInternal ''EVP_DecryptInit_ex failed to set cipher'' None)
                   else case InitializeIVDecrypt e nonce key (s1\<lparr>ae_context := c\<rparr>) of
                       Inl ex \<Rightarrow> Inl ex | Inr s2 \<Rightarrow> set_aad e aad s2)))"

section \<open>Lengths through int pointers\<close>

text \<open>
  (int) of an idx_t, and an int stored through a pointer to an idx_t: on a little-endian machine it
  replaces the lower half.
\<close>

definition as_int :: "64 word \<Rightarrow> int" where
  "as_int n = sint (ucast n :: 32 word)"

definition store_int :: "64 word \<Rightarrow> int \<Rightarrow> 64 word" where
  "store_int n i = (n AND (NOT 0xFFFFFFFF)) OR (ucast (word_of_int i :: 32 word))"

text \<open>Process: the length it returns and the bytes written to out.\<close>

definition Process :: "'c openssl \<Rightarrow> bytes \<Rightarrow> 64 word \<Rightarrow> 64 word \<Rightarrow> 'c aes_state \<Rightarrow> exn + (64 word \<times> bytes \<times> 'c aes_state)" where
  "Process e inp in_len out_len s =
     (let upd = (case ae_mode s of ENCRYPT \<Rightarrow> es_encrypt_update e | DECRYPT \<Rightarrow> es_decrypt_update e);
          failed = (case ae_mode s of ENCRYPT \<Rightarrow> ''EncryptUpdate failed'' | DECRYPT \<Rightarrow> ''DecryptUpdate failed'')
      in case upd inp (as_int in_len) (ae_context s) of
           (res, d, c) \<Rightarrow>
             (if res \<noteq> 1 then Inl (Exn ExInternal failed None)
              else (let out_len1 = store_int out_len (int (length d))
                    in if out_len1 \<noteq> in_len then Inl (Exn ExInternal ''AES GCM failed, in- and output lengths differ'' None)
                       else Inr (out_len1, d, s\<lparr>ae_context := c\<rparr>))))"

text \<open>
  FinalizeGCM and Finalize: the length returned, the bytes written behind out and the tag. The wrong tag of a
  decryption is found by OpenSSL.
\<close>

definition FinalizeGCM :: "'c openssl \<Rightarrow> 64 word \<Rightarrow> bytes \<Rightarrow> 'c aes_state \<Rightarrow> exn + (64 word \<times> bytes \<times> bytes \<times> 'c aes_state)" where
  "FinalizeGCM e out_len tag s =
     (case ae_mode s of
        ENCRYPT \<Rightarrow>
          (case es_encrypt_final e (ae_context s) of
             (res, d, c) \<Rightarrow>
               (if res \<noteq> 1 then Inl (Exn ExInternal ''EncryptFinal failed'' None)
                else case es_get_tag e (length tag) c of
                    (res1, tag1, c1) \<Rightarrow>
                      (if res1 \<noteq> 1 then Inl (Exn ExInternal ''Calculating the tag failed'' None)
                       else Inr (out_len + store_int out_len (int (length d)), d, tag1, s\<lparr>ae_context := c1\<rparr>))))
      | DECRYPT \<Rightarrow>
          (case es_set_tag e tag (ae_context s) of
             (res, c) \<Rightarrow>
               (if res = 0 then Inl (Exn ExInternal ''Finalizing tag failed'' None)
                else case es_decrypt_final e c of
                    (ret, d, c1) \<Rightarrow>
                      (if ret > 0 then Inr (out_len + store_int out_len (int (length d)), d, tag, s\<lparr>ae_context := c1\<rparr>)
                       else Inl (Exn ExInvalidInput ''Computed AES tag differs from read AES tag, are you using the right key?'' None)))))"

definition Finalize_aes :: "'c openssl \<Rightarrow> 64 word \<Rightarrow> bytes \<Rightarrow> 'c aes_state \<Rightarrow> exn + (64 word \<times> bytes \<times> bytes \<times> 'c aes_state)" where
  "Finalize_aes e out_len tag s =
     (if ae_cipher s = GCM then FinalizeGCM e out_len tag s
      else case ae_mode s of
          ENCRYPT \<Rightarrow>
            (case es_encrypt_final e (ae_context s) of
               (res, d, c) \<Rightarrow>
                 (if res \<noteq> 1 then Inl (Exn ExInternal ''EncryptFinal failed'' None)
                  else Inr (out_len + store_int out_len (int (length d)), d, tag, s\<lparr>ae_context := c\<rparr>)))
        | DECRYPT \<Rightarrow>
            (case es_decrypt_final e (ae_context s) of
               (ret, d, c) \<Rightarrow>
                 (if ret > 0 then Inr (out_len + store_int out_len (int (length d)), d, tag, s\<lparr>ae_context := c\<rparr>)
                  else Inl (Exn ExInvalidInput ''Computed AES tag differs from read AES tag, are you using the right key?'' None))))"

section \<open>Which bytes Process processes\<close>

lemma as_int_low: "0 \<le> as_int n \<Longrightarrow> as_int n = take_bit 32 (uint n)"
proof -
  assume n: "0 \<le> as_int n"
  have "sint (w :: 32 word) = uint w" if "0 \<le> sint w" for w
    proof -
    have n: "\<not> bit (uint w) 31" using that by (simp add: sint_uint signed_take_bit_nonnegative_iff)
    have "take_bit (Suc 31) (uint w) = take_bit 31 (uint w)" by (simp only: take_bit_Suc_from_most n of_bool_eq mult_zero_right add_0)
    moreover have "take_bit (Suc 31) (uint w) = uint w" by (rule take_bit_int_eq_self) (use uint_lt2p [of w] in simp_all)
    ultimately show ?thesis using n by (simp add: sint_uint signed_take_bit_eq_if_positive)
  qed
  then have "as_int n = uint (ucast n :: 32 word)" using n by (simp add: as_int_def)
  then show ?thesis by (simp add: unsigned_ucast_eq)
qed

lemma store_low: "store_int o1 (take_bit 32 (uint n)) = (o1 AND (NOT (mask 32))) OR take_bit 32 n"
proof -
  have m: "(0xFFFFFFFF :: 64 word) = mask 32" by (simp add: mask_eq_exp_minus_1)
  have "(ucast (word_of_int (take_bit 32 (uint n)) :: 32 word) :: 64 word) = take_bit 32 n"
    by (rule bit_word_eqI) (simp add: bit_simps bit_uint_iff)
  then show ?thesis by (simp only: store_int_def m)
qed

lemma upper_half: "(o1 AND (NOT (mask 32))) OR take_bit 32 (n :: 64 word) = n \<longleftrightarrow> drop_bit 32 o1 = drop_bit 32 n"
proof
  assume e: "(o1 AND (NOT (mask 32))) OR take_bit 32 n = n"
  show "drop_bit 32 o1 = drop_bit 32 n"
  proof (rule bit_word_eqI)
    fix i assume "i < LENGTH(64)"
    have "bit ((o1 AND (NOT (mask 32))) OR take_bit 32 n) (32 + i) = bit n (32 + i)" by (simp only: e)
    then show "bit (drop_bit 32 o1) i = bit (drop_bit 32 n) i" by (auto simp: bit_simps dest: bit_imp_le_length)
  qed
next
  assume e: "drop_bit 32 o1 = drop_bit 32 n"
  show "(o1 AND (NOT (mask 32))) OR take_bit 32 n = n"
  proof (rule bit_word_eqI)
    fix i assume i: "i < LENGTH(64)"
    have "bit (drop_bit 32 o1) (i - 32) = bit (drop_bit 32 n) (i - 32)" by (simp only: e)
    then show "bit ((o1 AND (NOT (mask 32))) OR take_bit 32 n) i = bit n i" using i by (auto simp: bit_simps)
  qed
qed

text \<open>
  C40: Process hands OpenSSL only the lower half of the length. If OpenSSL, as it does for the
  stream modes, writes as many bytes as it is given, Process succeeds exactly if the upper
  halves of the two lengths agree, it then returns the full length, and it has processed only the length
  modulo 4 GiB: a longer buffer counts as processed although the bytes behind that are untouched.
\<close>

theorem process_works_modulo_4gib:
  assumes "(case ae_mode s of ENCRYPT \<Rightarrow> es_encrypt_update e | DECRYPT \<Rightarrow> es_decrypt_update e) inp (as_int in_len) (ae_context s) = (1, d, c)"
    and "0 \<le> as_int in_len" and "int (length d) = as_int in_len"
  shows "Process e inp in_len out_len s =
       (if drop_bit 32 out_len = drop_bit 32 in_len then Inr (in_len, d, s\<lparr>ae_context := c\<rparr>)
        else Inl (Exn ExInternal ''AES GCM failed, in- and output lengths differ'' None)) \<and>
     length d = unat in_len mod 2 ^ 32"
proof -
  have d: "int (length d) = take_bit 32 (uint in_len)" using assms(2,3) as_int_low by simp
  have "int (length d) = int (unat in_len mod 2 ^ 32)" unfolding d by (simp only: take_bit_eq_mod of_nat_mod uint_nat of_nat_power of_nat_numeral)
  then have len: "length d = unat in_len mod 2 ^ 32" by (simp only: of_nat_eq_iff)
  have "store_int out_len (int (length d)) = (out_len AND (NOT (mask 32))) OR take_bit 32 in_len" unfolding d by (rule store_low)
  then have st: "store_int out_len (int (length d)) = in_len \<longleftrightarrow> drop_bit 32 out_len = drop_bit 32 in_len" by (simp only: upper_half)
  show ?thesis using assms(1) st len by (simp add: Process_def Let_def)
qed

text \<open>A length of 4 GiB and two bytes, of which two bytes are encrypted.\<close>

definition xor_ssl :: "unit openssl" where
  "xor_ssl = \<lparr>es_encrypt_init = (\<lambda>_ _ c. (1, c)), es_decrypt_init = (\<lambda>_ _ c. (1, c)), es_set_ivlen = (\<lambda>_ c. (1, c)),
     es_encrypt_update = (\<lambda>inp n c. (1, map (\<lambda>x. if x = CHR ''a'' then CHR ''b'' else x) (take (nat n) inp), c)),
     es_decrypt_update = (\<lambda>inp n c. (1, take (nat n) inp, c)), es_decrypt_aad = (\<lambda>_ c. (1, c)),
     es_encrypt_final = (\<lambda>c. (1, [], c)), es_decrypt_final = (\<lambda>c. (1, [], c)), es_get_tag = (\<lambda>n c. (1, replicate n (CHR ''t''), c)),
     es_set_tag = (\<lambda>_ c. (1, c)), es_rand_bytes = (\<lambda>n. (1, replicate n (CHR ''r'')))\<rparr>"

definition demo_aes :: "unit aes_state" where
  "demo_aes = \<lparr>ae_cipher = GCM, ae_key_len = 32, ae_context = (), ae_mode = ENCRYPT\<rparr>"

theorem process_works_modulo_4gib_witness:
  "Process xor_ssl ''abcd'' 0x100000002 0x100000002 demo_aes = Inr (0x100000002, ''bb'', demo_aes)"
proof -
  have i: "as_int 0x100000002 = 2" by (simp add: as_int_def)
  have u: "(case ae_mode demo_aes of ENCRYPT \<Rightarrow> es_encrypt_update xor_ssl | DECRYPT \<Rightarrow> es_decrypt_update xor_ssl) ''abcd''
      (as_int 0x100000002) (ae_context demo_aes) = (1, ''bb'', ())"
    unfolding i by (simp add: demo_aes_def xor_ssl_def)
  show ?thesis using process_works_modulo_4gib [OF u] i by simp
qed

end
